(* ===== verification/Prelude.thy ===== *)
theory Prelude
  imports Main "HOL-Library.Monad_Syntax" "HOL-Library.AList" "HOL-Library.Word"
begin

text \<open>
  Shared vocabulary of the development: the parts of Rust's standard library on which the
  sources rely (UTF-8 strings, slicing, splitting, trimming, decimal numbers), the convention for
  panics, and the lemma collections the component theories extend.

  A Rust \<open>str\<close> is its sequence of UTF-8 bytes, a \<^typ>\<open>string\<close> here, so \<^const>\<open>length\<close> is
  \<open>str::len\<close>.  A Rust \<open>char\<close> is the string of its one to four bytes; \<open>chars\<close> groups the bytes of
  a string accordingly.  Slicing at an index that is not a character boundary panics in Rust.
  A computation that can panic has an \<^typ>\<open>'a option\<close> result, with \<^const>\<open>None\<close> for the panic.
\<close>

named_theorems rust_str "characterisations of the operations of Rust strings"
named_theorems inv_intros "introduction rules of invariants"

section \<open>Bytes and characters\<close>

definition is_cont :: "char \<Rightarrow> bool" where
  "is_cont c \<longleftrightarrow> digit7 c \<and> \<not> digit6 c"

definition is_ascii :: "char \<Rightarrow> bool" where
  "is_ascii c \<longleftrightarrow> \<not> digit7 c"

abbreviation ascii_str :: "string \<Rightarrow> bool" where
  "ascii_str s \<equiv> list_all is_ascii s"

lemma ascii_not_cont: "is_ascii c \<Longrightarrow> \<not> is_cont c"
  by (simp add: is_ascii_def is_cont_def)

text \<open>\<open>str::chars\<close>: every lead byte with the continuation bytes after it.\<close>

function chars :: "string \<Rightarrow> string list" where
  "chars [] = []"
| "chars (c # cs) = (c # takeWhile is_cont cs) # chars (dropWhile is_cont cs)"
  by pat_completeness auto
termination
  by (relation "measure length") (auto simp: le_imp_less_Suc length_dropWhile_le)

lemma concat_chars [simp]: "concat (chars s) = s"
  by (induction s rule: chars.induct) auto

lemma chars_eq_Nil [simp]: "chars s = [] \<longleftrightarrow> s = []"
  by (cases s) auto

lemma chars_nonempty: "ch \<in> set (chars s) \<Longrightarrow> ch \<noteq> []"
  by (induction s rule: chars.induct) auto

lemma chars_append:
  "t = [] \<or> \<not> is_cont (hd t) \<Longrightarrow> chars (s @ t) = chars s @ chars t"
proof (induction s rule: chars.induct)
  case (2 c cs)
  have "takeWhile is_cont (cs @ t) = takeWhile is_cont cs \<and>
      dropWhile is_cont (cs @ t) = dropWhile is_cont cs @ t" for cs
    using "2.prems" by (induction cs) (cases t, auto)
  with 2 show ?case by simp
qed simp

lemma chars_ascii: "ascii_str s \<Longrightarrow> chars s = map (\<lambda>c. [c]) s"
proof (induction s rule: chars.induct)
  case (2 c cs)
  from "2.prems" have nc: "\<not> is_cont d" if "d \<in> set cs" for d
    using that by (auto simp: list_all_iff ascii_not_cont)
  then have "takeWhile is_cont cs = []" "dropWhile is_cont cs = cs"
    by (cases cs; auto)+
  with 2 show ?case by simp
qed simp

lemma chars_inject: "chars s = chars t \<Longrightarrow> s = t"
  by (metis concat_chars)

section \<open>Slices\<close>

text \<open>\<open>str::is_char_boundary\<close>, and the slices \<open>&s[..n]\<close> and \<open>&s[n..]\<close>.\<close>

definition is_char_boundary :: "string \<Rightarrow> nat \<Rightarrow> bool" where
  "is_char_boundary s i \<longleftrightarrow>
     i = 0 \<or> i = length s \<or> (i < length s \<and> \<not> is_cont (s ! i))"

definition str_to :: "string \<Rightarrow> nat \<Rightarrow> string option" where
  "str_to s n = (if is_char_boundary s n then Some (take n s) else None)"

definition str_from :: "string \<Rightarrow> nat \<Rightarrow> string option" where
  "str_from s n = (if is_char_boundary s n then Some (drop n s) else None)"

text \<open>The recurring \<open>&s[..s.len().min(limit)]\<close>.\<close>

definition str_trunc :: "string \<Rightarrow> nat \<Rightarrow> string option" where
  "str_trunc s limit = str_to s (min (length s) limit)"

lemma is_char_boundary_0 [simp]: "is_char_boundary s 0"
  by (simp add: is_char_boundary_def)

lemma is_char_boundary_length [simp]: "is_char_boundary s (length s)"
  by (simp add: is_char_boundary_def)

lemma is_char_boundary_ascii: "ascii_str s \<Longrightarrow> i \<le> length s \<Longrightarrow> is_char_boundary s i"
  by (auto simp: is_char_boundary_def list_all_length ascii_not_cont)

lemma str_trunc_short [simp]: "length s \<le> limit \<Longrightarrow> str_trunc s limit = Some s"
  by (simp add: str_trunc_def str_to_def min_def)

lemma str_trunc_ascii: "ascii_str s \<Longrightarrow> str_trunc s limit = Some (take limit s)"
  by (auto simp: str_trunc_def str_to_def is_char_boundary_ascii min_def)

lemma str_trunc_SomeD: "str_trunc s limit = Some t \<Longrightarrow> t = take limit s"
  by (auto simp: str_trunc_def str_to_def min_def split: if_splits)

lemma str_trunc_bound: "str_trunc s limit = Some t \<Longrightarrow> length t \<le> limit"
  by (auto dest: str_trunc_SomeD)

lemma str_trunc_None_iff:
  "str_trunc s limit = None \<longleftrightarrow> 0 < limit \<and> limit < length s \<and> is_cont (s ! limit)"
  by (auto simp: str_trunc_def str_to_def is_char_boundary_def min_def)

section \<open>Splitting\<close>

text \<open>\<open>str::split\<close> on a one-byte separator: always at least one piece.\<close>

fun str_split :: "char \<Rightarrow> string \<Rightarrow> string list" where
  "str_split sep [] = [[]]"
| "str_split sep (c # cs) =
     (if c = sep then [] # str_split sep cs
      else (case str_split sep cs of
              [] \<Rightarrow> [[c]]
            | p # ps \<Rightarrow> (c # p) # ps))"

text \<open>The inverse: the pieces with the separator between them.\<close>

fun str_join :: "char \<Rightarrow> string list \<Rightarrow> string" where
  "str_join sep [] = []"
| "str_join sep [p] = p"
| "str_join sep (p # ps) = p @ sep # str_join sep ps"

lemma set_str_join: "x \<in> set (str_join sep ps) \<Longrightarrow> x = sep \<or> (\<exists>p \<in> set ps. x \<in> set p)"
  by (induction sep ps rule: str_join.induct) auto

lemma str_split_nonempty [simp]: "str_split sep s \<noteq> []"
  by (induction s) (auto split: list.splits)

lemma str_join_Cons: "ps \<noteq> [] \<Longrightarrow> str_join sep (p # ps) = p @ sep # str_join sep ps"
  by (cases ps) auto

lemma str_join_hd: "str_join sep ((c # p) # ps) = c # str_join sep (p # ps)"
  by (cases ps) auto

lemma str_join_split [simp]: "str_join sep (str_split sep s) = s"
proof (induction s)
  case (Cons c cs)
  then show ?case
    by (cases "str_split sep cs") (auto simp: str_join_Cons str_join_hd)
qed simp

lemma str_split_no_sep: "sep \<notin> set s \<Longrightarrow> str_split sep s = [s]"
  by (induction s) auto

lemma str_split_append:
  "sep \<notin> set p \<Longrightarrow> str_split sep (p @ sep # s) = p # str_split sep s"
  by (induction p) auto

lemma str_split_pieces: "p \<in> set (str_split sep s) \<Longrightarrow> sep \<notin> set p"
  by (induction s arbitrary: p) (fastforce split: if_splits list.splits)+

lemma str_split_join:
  "ps \<noteq> [] \<Longrightarrow> (\<forall>p \<in> set ps. sep \<notin> set p) \<Longrightarrow> str_split sep (str_join sep ps) = ps"
proof (induction sep ps rule: str_join.induct)
  case (2 sep p)
  then show ?case by (simp add: str_split_no_sep)
next
  case (3 sep p q ps)
  then show ?case by (simp add: str_split_append)
qed simp

lemma str_split_chars: "p \<in> set (str_split sep s) \<Longrightarrow> set p \<subseteq> set s"
  by (induction s arbitrary: p) (fastforce split: if_splits list.splits)+

text \<open>\<open>str::splitn(2, sep)\<close>: the text before the first separator and, if there is one, the text
  after it.\<close>

definition str_splitn2 :: "char \<Rightarrow> string \<Rightarrow> string \<times> string option" where
  "str_splitn2 sep s =
     (case dropWhile (\<lambda>c. c \<noteq> sep) s of
        [] \<Rightarrow> (s, None)
      | _ # rest \<Rightarrow> (takeWhile (\<lambda>c. c \<noteq> sep) s, Some rest))"

lemma str_splitn2_None [simp]: "sep \<notin> set s \<Longrightarrow> str_splitn2 sep s = (s, None)"
proof -
  assume "sep \<notin> set s"
  then have none: "dropWhile (\<lambda>c. c \<noteq> sep) s = []" by auto
  show ?thesis unfolding str_splitn2_def none by simp
qed

lemma str_splitn2_append:
  "sep \<notin> set w \<Longrightarrow> str_splitn2 sep (w @ sep # r) = (w, Some r)"
  by (auto simp: str_splitn2_def dropWhile_append takeWhile_append)

section \<open>Whitespace\<close>

text \<open>\<open>char::is_whitespace\<close>: the code points with the Unicode property White\_Space, by their
  UTF-8 encoding.\<close>

definition ascii_whitespace :: "char list" where
  "ascii_whitespace = [CHR 0x09, CHR 0x0A, CHR 0x0B, CHR 0x0C, CHR 0x0D, CHR 0x20]"

definition is_whitespace :: "string \<Rightarrow> bool" where
  "is_whitespace ch \<longleftrightarrow>
     (case ch of
        [a] \<Rightarrow> a \<in> set ascii_whitespace
      | [a, b] \<Rightarrow> a = CHR 0xC2 \<and> (b = CHR 0x85 \<or> b = CHR 0xA0)
      | [a, b, c] \<Rightarrow>
          (a = CHR 0xE1 \<and> b = CHR 0x9A \<and> c = CHR 0x80)
          \<or> (a = CHR 0xE2 \<and> b = CHR 0x80
             \<and> ((of_char c :: nat) \<in> {0x80..0x8A} \<or> c = CHR 0xA8 \<or> c = CHR 0xA9 \<or> c = CHR 0xAF))
          \<or> (a = CHR 0xE2 \<and> b = CHR 0x81 \<and> c = CHR 0x9F)
          \<or> (a = CHR 0xE3 \<and> b = CHR 0x80 \<and> c = CHR 0x80)
      | _ \<Rightarrow> False)"

definition trim_start :: "string \<Rightarrow> string" where
  "trim_start s = concat (dropWhile is_whitespace (chars s))"

definition trim_end :: "string \<Rightarrow> string" where
  "trim_end s = concat (rev (dropWhile is_whitespace (rev (chars s))))"

definition str_trim :: "string \<Rightarrow> string" where
  "str_trim s = trim_end (trim_start s)"

lemma is_whitespace_byte [simp]: "is_whitespace [c] \<longleftrightarrow> c \<in> set ascii_whitespace"
  by (simp add: is_whitespace_def)

text \<open>A string with no whitespace character at either end is left alone.\<close>

definition trimmed :: "string \<Rightarrow> bool" where
  "trimmed s \<longleftrightarrow>
     s = [] \<or> (\<not> is_whitespace (hd (chars s)) \<and> \<not> is_whitespace (last (chars s)))"

lemma trim_start_idle: "s = [] \<or> \<not> is_whitespace (hd (chars s)) \<Longrightarrow> trim_start s = s"
proof -
  assume "s = [] \<or> \<not> is_whitespace (hd (chars s))"
  then have "dropWhile is_whitespace (chars s) = chars s" by (cases "chars s") auto
  then show ?thesis by (simp add: trim_start_def)
qed

lemma trim_end_idle: "s = [] \<or> \<not> is_whitespace (last (chars s)) \<Longrightarrow> trim_end s = s"
proof -
  assume a: "s = [] \<or> \<not> is_whitespace (last (chars s))"
  have "dropWhile is_whitespace (rev (chars s)) = rev (chars s)"
    using a by (cases "chars s" rule: rev_cases) auto
  then show ?thesis by (simp add: trim_end_def)
qed

lemma str_trim_trimmed [simp]: "trimmed s \<Longrightarrow> str_trim s = s"
  by (auto simp: trimmed_def str_trim_def trim_start_idle trim_end_idle)

lemma trim_start_ascii:
  "ascii_str s \<Longrightarrow> trim_start s = dropWhile (\<lambda>c. c \<in> set ascii_whitespace) s"
  by (simp add: trim_start_def chars_ascii dropWhile_map comp_def)

lemma set_trim_start: "set (trim_start s) \<subseteq> set s"
proof -
  have "set (concat (dropWhile is_whitespace (chars s))) \<subseteq> set (concat (chars s))"
    unfolding set_concat by (auto dest!: set_dropWhileD)
  then show ?thesis by (simp add: trim_start_def)
qed

lemma set_trim_end: "set (trim_end s) \<subseteq> set s"
proof -
  have "set (concat (rev (dropWhile is_whitespace (rev (chars s))))) \<subseteq> set (concat (chars s))"
    unfolding set_concat by (auto dest!: set_dropWhileD)
  then show ?thesis by (simp add: trim_end_def)
qed

lemma set_str_trim: "set (str_trim s) \<subseteq> set s"
  using set_trim_start [of s] set_trim_end [of "trim_start s"] by (auto simp: str_trim_def)

lemma length_trim_start: "length (trim_start s) \<le> length s"
proof -
  have "length s = length (concat (takeWhile is_whitespace (chars s)
      @ dropWhile is_whitespace (chars s)))"
    by simp
  then show ?thesis unfolding trim_start_def concat_append length_append by simp
qed

lemma length_trim_end: "length (trim_end s) \<le> length s"
proof -
  let ?r = "rev (chars s)"
  have "s = concat (rev (takeWhile is_whitespace ?r @ dropWhile is_whitespace ?r))"
    by simp
  then have "length s = length (concat (rev (dropWhile is_whitespace ?r)))
      + length (concat (rev (takeWhile is_whitespace ?r)))"
    unfolding rev_append concat_append by (metis length_append)
  then show ?thesis by (simp add: trim_end_def)
qed

lemma length_str_trim: "length (str_trim s) \<le> length s"
  using length_trim_start [of s] length_trim_end [of "trim_start s"] by (simp add: str_trim_def)

text \<open>Whitespace at the end of a text does not matter to \<open>trim\<close>, and a text made of trimmed words
  with single spaces between them is trimmed.\<close>

lemma ws_not_cont: "c \<in> set ascii_whitespace \<Longrightarrow> \<not> is_cont c"
  by (auto simp: ascii_whitespace_def is_cont_def)

lemma chars_snoc_ws: "c \<in> set ascii_whitespace \<Longrightarrow> chars (s @ [c]) = chars s @ [[c]]"
  using chars_append [of "[c]" s] ws_not_cont [of c] by simp

lemma dropWhile_snoc: "p y \<Longrightarrow> dropWhile p (xs @ [y]) = (if \<forall>x \<in> set xs. p x then [] else dropWhile p xs @ [y])"
  by (induction xs) auto

lemma str_trim_snoc: "c \<in> set ascii_whitespace \<Longrightarrow> str_trim (s @ [c]) = str_trim s"
proof -
  assume c: "c \<in> set ascii_whitespace"
  have snoc: "trim_end (t @ [c]) = trim_end t" for t
    using c by (simp add: trim_end_def chars_snoc_ws)
  show ?thesis
  proof (cases "\<forall>ch \<in> set (chars s). is_whitespace ch")
    case True
    then have none: "dropWhile is_whitespace (chars s) = []" by auto
    have "trim_start s = []" unfolding trim_start_def none by simp
    moreover have "trim_start (s @ [c]) = []"
      using c True by (simp add: trim_start_def chars_snoc_ws dropWhile_snoc)
    ultimately show ?thesis by (simp add: str_trim_def)
  next
    case False
    then have "trim_start (s @ [c]) = trim_start s @ [c]"
      using c by (auto simp: trim_start_def chars_snoc_ws dropWhile_snoc)
    with snoc show ?thesis by (simp add: str_trim_def)
  qed
qed

definition word_ok :: "string \<Rightarrow> bool" where
  "word_ok w \<longleftrightarrow> w \<noteq> [] \<and> CHR '' '' \<notin> set w \<and> \<not> is_cont (hd w) \<and> trimmed w"

lemma word_ok_trim [simp]: "word_ok w \<Longrightarrow> str_trim w = w"
  by (simp add: word_ok_def)

lemma word_ok_ascii:
  "w \<noteq> [] \<Longrightarrow> (\<And>c. c \<in> set w \<Longrightarrow> is_ascii c \<and> c \<notin> set ascii_whitespace) \<Longrightarrow> word_ok w"
proof -
  assume w: "w \<noteq> []" and a: "\<And>c. c \<in> set w \<Longrightarrow> is_ascii c \<and> c \<notin> set ascii_whitespace"
  then have "chars w = map (\<lambda>c. [c]) w" by (intro chars_ascii) (simp add: list_all_iff)
  moreover have "hd w \<in> set w" "last w \<in> set w" using w by simp_all
  moreover have "CHR '' '' \<in> set ascii_whitespace" by (simp add: ascii_whitespace_def)
  ultimately show ?thesis using w a
    by (auto simp: word_ok_def trimmed_def ascii_not_cont last_map list.map_sel)
qed

definition line_piece :: "string \<Rightarrow> bool" where
  "line_piece p \<longleftrightarrow> p \<noteq> [] \<and> \<not> is_cont (hd p) \<and> trimmed p"

lemma word_ok_piece: "word_ok w \<Longrightarrow> line_piece w"
  by (simp add: word_ok_def line_piece_def)

lemma line_piece_join:
  "ps \<noteq> [] \<Longrightarrow> (\<forall>p \<in> set ps. line_piece p) \<Longrightarrow> line_piece (str_join (CHR '' '') ps)"
proof (induction "CHR '' ''" ps rule: str_join.induct)
  case (3 p q ps)
  let ?s = "str_join (CHR '' '') (q # ps)"
  have s: "line_piece ?s" using 3 by auto
  have p: "p \<noteq> []" "\<not> is_cont (hd p)" "trimmed p" using "3.prems" by (auto simp: line_piece_def)
  have "chars (p @ CHR '' '' # ?s) = chars p @ chars (CHR '' '' # ?s)"
    by (rule chars_append) (simp add: is_cont_def)
  moreover have "chars (CHR '' '' # ?s) = [[CHR '' '']] @ chars ?s"
    using s chars_append [of ?s "[CHR '' '']"] by (simp add: line_piece_def)
  ultimately have "chars (p @ CHR '' '' # ?s) = chars p @ [CHR '' ''] # chars ?s" by simp
  with s p show ?case by (auto simp: line_piece_def trimmed_def)
qed auto

text \<open>\<open>str::split_whitespace\<close> and \<open>str::lines\<close>.\<close>

fun split_chars :: "(string \<Rightarrow> bool) \<Rightarrow> string list \<Rightarrow> string list" where
  "split_chars p [] = [[]]"
| "split_chars p (ch # chs) =
     (if p ch then [] # split_chars p chs
      else (case split_chars p chs of
              [] \<Rightarrow> [ch]
            | w # ws \<Rightarrow> (ch @ w) # ws))"

definition split_whitespace :: "string \<Rightarrow> string list" where
  "split_whitespace s = filter (\<lambda>w. w \<noteq> []) (split_chars is_whitespace (chars s))"

definition strip_cr :: "string \<Rightarrow> string" where
  "strip_cr l = (if l \<noteq> [] \<and> last l = CHR 0x0D then butlast l else l)"

definition str_lines :: "string \<Rightarrow> string list" where
  "str_lines s =
     (let ps = str_split (CHR 0x0A) s;
          qs = (if last ps = [] then butlast ps else ps)
      in map strip_cr qs)"

section \<open>Decimal numbers\<close>

text \<open>\<open>Display\<close> of the unsigned integers, and \<open>str::parse::<usize>\<close> on a 64-bit target.\<close>

definition digit :: "nat \<Rightarrow> char" where
  "digit n = char_of (48 + n)"

fun show_nat :: "nat \<Rightarrow> string" where
  "show_nat n = (if n < 10 then [digit n] else show_nat (n div 10) @ [digit (n mod 10)])"

declare show_nat.simps [simp del]

definition digit_value :: "char \<Rightarrow> nat option" where
  "digit_value c =
     (let v = (of_char c :: nat) in if 48 \<le> v \<and> v \<le> 57 then Some (v - 48) else None)"

definition usize_max :: nat where
  "usize_max = 2 ^ 64 - 1"

fun parse_digits :: "nat \<Rightarrow> string \<Rightarrow> nat option" where
  "parse_digits acc [] = Some acc"
| "parse_digits acc (c # cs) =
     (case digit_value c of
        None \<Rightarrow> None
      | Some d \<Rightarrow>
          if usize_max < acc * 10 + d then None else parse_digits (acc * 10 + d) cs)"

definition parse_usize :: "string \<Rightarrow> nat option" where
  "parse_usize s =
     (let ds = (if s \<noteq> [] \<and> hd s = CHR ''+'' then tl s else s)
      in if ds = [] then None else parse_digits 0 ds)"

lemma parse_digits_bound: "parse_digits acc s = Some n \<Longrightarrow> acc \<le> usize_max \<Longrightarrow> n \<le> usize_max"
  by (induction acc s rule: parse_digits.induct) (auto split: option.splits if_splits)

lemma parse_usize_bound: "parse_usize s = Some n \<Longrightarrow> n \<le> usize_max"
  by (auto simp: parse_usize_def Let_def split: if_splits dest: parse_digits_bound)

lemma digit_value_digit [simp]: "d < 10 \<Longrightarrow> digit_value (digit d) = Some d"
  by (simp add: digit_value_def digit_def)

lemma parse_digits_append:
  "parse_digits acc (s @ t) = Option.bind (parse_digits acc s) (\<lambda>n. parse_digits n t)"
  by (induction acc s rule: parse_digits.induct) (auto split: option.splits)

lemma parse_digits_show: "n \<le> usize_max \<Longrightarrow> parse_digits 0 (show_nat n) = Some n"
proof (induction n rule: show_nat.induct)
  case (1 n)
  show ?case
  proof (cases "n < 10")
    case True
    then show ?thesis using 1 by (simp add: show_nat.simps [of n])
  next
    case False
    then have "parse_digits 0 (show_nat (n div 10)) = Some (n div 10)" using 1 by auto
    moreover have "n div 10 * 10 + n mod 10 = n" by presburger
    ultimately show ?thesis using False 1
      by (simp add: show_nat.simps [of n] parse_digits_append)
  qed
qed

lemma show_nat_nonempty [simp]: "show_nat n \<noteq> []"
  by (subst show_nat.simps) simp

lemma hd_digit: "d < 10 \<Longrightarrow> digit d \<noteq> CHR ''+''"
proof -
  assume "d < 10"
  then have "digit_value (digit d) \<noteq> digit_value (CHR ''+'')"
    by (simp add: digit_value_def [of "CHR ''+''"])
  then show ?thesis by auto
qed

lemma hd_show_nat: "hd (show_nat n) \<noteq> CHR ''+''"
proof (induction n rule: show_nat.induct)
  case (1 n)
  then show ?case
    by (cases "n < 10") (simp_all add: show_nat.simps [of n] hd_digit)
qed

lemma parse_usize_show: "n \<le> usize_max \<Longrightarrow> parse_usize (show_nat n) = Some n"
  by (simp add: parse_usize_def hd_show_nat parse_digits_show)

end
