(* ===== verification/Unicase.thy ===== *)
theory Unicase
  imports Prelude
begin

text \<open>
  The crate \<open>ellidri-unicase\<close>: case mappings, and the comparison and hash of \<open>UniCase\<close> values,
  which are the keys of the server's channel and nickname tables.
\<close>

named_theorems unicase "facts about case-insensitive comparison"

section \<open>Case mappings\<close>

text \<open>The three implementations of the trait \<open>CaseMapping\<close>, and \<open>u8::to_ascii_lowercase\<close>.\<close>

datatype case_mapping = Ascii | Rfc1459Strict | Rfc1459

definition to_ascii_lowercase :: "char \<Rightarrow> char" where
  "to_ascii_lowercase b =
     (let n = (of_char b :: nat) in if 65 \<le> n \<and> n \<le> 90 then char_of (n + 32) else b)"

text \<open>The same on the bits of the byte, which is how closed terms are evaluated: the upper-case
  letters are \<open>010xxxxx\<close> with the low five bits between 1 and 26.\<close>

lemma of_char_sum:
  "(of_char (Char b0 b1 b2 b3 b4 b5 b6 b7) :: nat) =
     of_bool b0 + 2 * of_bool b1 + 4 * of_bool b2 + 8 * of_bool b3 + 16 * of_bool b4
     + 32 * of_bool b5 + 64 * of_bool b6 + 128 * of_bool b7"
  by (simp add: of_char_def)

lemma to_ascii_lowercase_bits [simp, code]:
  "to_ascii_lowercase (Char b0 b1 b2 b3 b4 b5 b6 b7) =
     (if \<not> b7 \<and> b6 \<and> \<not> b5 \<and> (b0 \<or> b1 \<or> b2 \<or> b3 \<or> b4)
         \<and> \<not> (b4 \<and> b3 \<and> (b2 \<or> (b1 \<and> b0)))
      then Char b0 b1 b2 b3 b4 True b6 b7 else Char b0 b1 b2 b3 b4 b5 b6 b7)"
  (is "?l = (if ?up then ?y else ?x)")
proof -
  define low :: nat where
    "low = of_bool b0 + 2 * of_bool b1 + 4 * of_bool b2 + 8 * of_bool b3 + 16 * of_bool b4"
  have sum: "(of_char (Char b0 b1 b2 b3 b4 c5 c6 c7) :: nat) =
      low + 32 * of_bool c5 + 64 * of_bool c6 + 128 * of_bool c7" for c5 c6 c7
    by (simp only: of_char_sum low_def)
  have "(1 \<le> low \<and> low \<le> 26) =
      ((b0 \<or> b1 \<or> b2 \<or> b3 \<or> b4) \<and> \<not> (b4 \<and> b3 \<and> (b2 \<or> (b1 \<and> b0))))" and "low \<le> 31"
    unfolding low_def by (cases b0; cases b1; cases b2; cases b3; cases b4; simp)+
  then have upper: "(65 \<le> (of_char ?x :: nat) \<and> (of_char ?x :: nat) \<le> 90) = ?up"
    unfolding sum by (cases b5; cases b6; cases b7; simp)
  show ?thesis
  proof (cases ?up)
    case True
    then have "\<not> b5" by blast
    then have "(of_char ?x :: nat) + 32 = of_char ?y" unfolding sum by simp
    then have eq: "char_of ((of_char ?x :: nat) + 32) = ?y" by (simp only: char_of_char)
    show ?thesis unfolding to_ascii_lowercase_def Let_def upper if_P [OF True] by (rule eq)
  next
    case False
    show ?thesis unfolding to_ascii_lowercase_def Let_def upper if_not_P [OF False] by (rule refl)
  qed
qed

definition canonical_byte_ascii :: "char \<Rightarrow> char" where
  "canonical_byte_ascii b = to_ascii_lowercase b"

definition canonical_byte_rfc1459_strict :: "char \<Rightarrow> char" where
  "canonical_byte_rfc1459_strict b =
     (if b = CHR ''['' then CHR ''{''
      else if b = CHR '']'' then CHR ''}''
      else if b = CHR 0x5C then CHR 0x5C
      else canonical_byte_ascii b)"

definition canonical_byte_rfc1459 :: "char \<Rightarrow> char" where
  "canonical_byte_rfc1459 b =
     (if b = CHR ''~'' then CHR ''^'' else canonical_byte_rfc1459_strict b)"

fun canonical_byte :: "case_mapping \<Rightarrow> char \<Rightarrow> char" where
  "canonical_byte Ascii b = canonical_byte_ascii b"
| "canonical_byte Rfc1459Strict b = canonical_byte_rfc1459_strict b"
| "canonical_byte Rfc1459 b = canonical_byte_rfc1459 b"

section \<open>Comparison and hash\<close>

text \<open>\<open>PartialEq::eq\<close> compares lengths, then the canonical bytes pairwise.  \<open>Hash::hash\<close> feeds the
  canonical bytes to the hasher one after the other: the model returns the bytes it writes.\<close>

definition unicase_eq :: "case_mapping \<Rightarrow> string \<Rightarrow> string \<Rightarrow> bool" where
  "unicase_eq c me you \<longleftrightarrow>
     length me = length you
     \<and> list_all (\<lambda>(a, b). canonical_byte c a = canonical_byte c b) (zip me you)"

definition unicase_hash :: "case_mapping \<Rightarrow> string \<Rightarrow> char list" where
  "unicase_hash c s = map (canonical_byte c) s"

text \<open>The key of a \<open>UniCase<str, Ascii>\<close>, which \<open>u\<close> builds.\<close>

abbreviation ukey :: "string \<Rightarrow> char list" where
  "ukey \<equiv> unicase_hash Ascii"

lemma unicase_eq_iff_hash: "unicase_eq c s t \<longleftrightarrow> unicase_hash c s = unicase_hash c t"
  by (auto simp: unicase_eq_def unicase_hash_def list_eq_iff_nth_eq list_all_length)

lemma length_unicase_hash [simp]: "length (unicase_hash c s) = length s"
  by (simp add: unicase_hash_def)

lemma unicase_hash_Nil_iff [simp]: "unicase_hash c s = [] \<longleftrightarrow> s = []"
  by (simp add: unicase_hash_def)

lemma canonical_byte_ascii_idem [simp]:
  "canonical_byte_ascii (canonical_byte_ascii b) = canonical_byte_ascii b"
  by (auto simp: canonical_byte_ascii_def to_ascii_lowercase_def Let_def)

text \<open>A byte that is no upper-case letter is its own representative; representatives of different
  non-letters differ, so only letters are identified.\<close>

lemma canonical_byte_ascii_other:
  "\<not> (65 \<le> (of_char b :: nat) \<and> (of_char b :: nat) \<le> 90) \<Longrightarrow> canonical_byte_ascii b = b"
  by (auto simp: canonical_byte_ascii_def to_ascii_lowercase_def Let_def)

lemma canonical_byte_ascii_classes:
  "canonical_byte_ascii a = canonical_byte_ascii b \<longleftrightarrow>
     a = b
     \<or> (65 \<le> (of_char a :: nat) \<and> (of_char a :: nat) \<le> 90 \<and> (of_char b :: nat) = of_char a + 32)
     \<or> (65 \<le> (of_char b :: nat) \<and> (of_char b :: nat) \<le> 90 \<and> (of_char a :: nat) = of_char b + 32)"
proof -
  have inj: "x = y \<longleftrightarrow> (of_char x :: nat) = of_char y" for x y :: char
    by (metis char_of_char)
  have of_lower: "(of_char (canonical_byte_ascii x) :: nat) =
      (if 65 \<le> (of_char x :: nat) \<and> (of_char x :: nat) \<le> 90 then of_char x + 32 else of_char x)"
    for x
    by (simp add: canonical_byte_ascii_def to_ascii_lowercase_def Let_def of_char_of)
  show ?thesis
    unfolding inj [of "canonical_byte_ascii a"] inj [of a] of_lower by auto
qed

end
