(* ===== verification/Commands.thy ===== *)
theory Commands
  imports Unicase
begin

text \<open>
  \<open>ellidri-tokens/src/command.rs\<close>: the commands of the protocol.  The macro \<open>commands!\<close> turns one
  table into an enumeration and three functions; the table is \<open>command_table\<close> here and the
  functions look it up in its order.
\<close>

datatype (plugins only: code) command =
    Cmd_Admin
  | Cmd_Authenticate
  | Cmd_Away
  | Cmd_Cap
  | Cmd_Info
  | Cmd_Invite
  | Cmd_Join
  | Cmd_Kick
  | Cmd_Kill
  | Cmd_List
  | Cmd_LUsers
  | Cmd_Mode
  | Cmd_Motd
  | Cmd_Names
  | Cmd_Nick
  | Cmd_Notice
  | Cmd_Oper
  | Cmd_Part
  | Cmd_Pass
  | Cmd_Ping
  | Cmd_Pong
  | Cmd_PrivMsg
  | Cmd_Quit
  | Cmd_Rehash
  | Cmd_SetName
  | Cmd_TagMsg
  | Cmd_Time
  | Cmd_Topic
  | Cmd_User
  | Cmd_Version
  | Cmd_Who
  | Cmd_WhoIs
  | is_Reply: Reply (reply_str: string)

definition command_table :: "(command \<times> string \<times> nat) list" where
  "command_table =
    [(Cmd_Admin, ''ADMIN'', 0),
     (Cmd_Authenticate, ''AUTHENTICATE'', 1),
     (Cmd_Away, ''AWAY'', 0),
     (Cmd_Cap, ''CAP'', 1),
     (Cmd_Info, ''INFO'', 0),
     (Cmd_Invite, ''INVITE'', 2),
     (Cmd_Join, ''JOIN'', 1),
     (Cmd_Kick, ''KICK'', 2),
     (Cmd_Kill, ''KILL'', 2),
     (Cmd_List, ''LIST'', 0),
     (Cmd_LUsers, ''LUSERS'', 0),
     (Cmd_Mode, ''MODE'', 1),
     (Cmd_Motd, ''MOTD'', 0),
     (Cmd_Names, ''NAMES'', 0),
     (Cmd_Nick, ''NICK'', 1),
     (Cmd_Notice, ''NOTICE'', 2),
     (Cmd_Oper, ''OPER'', 2),
     (Cmd_Part, ''PART'', 1),
     (Cmd_Pass, ''PASS'', 1),
     (Cmd_Ping, ''PING'', 1),
     (Cmd_Pong, ''PONG'', 1),
     (Cmd_PrivMsg, ''PRIVMSG'', 2),
     (Cmd_Quit, ''QUIT'', 0),
     (Cmd_Rehash, ''REHASH'', 0),
     (Cmd_SetName, ''SETNAME'', 1),
     (Cmd_TagMsg, ''TAGMSG'', 1),
     (Cmd_Time, ''TIME'', 0),
     (Cmd_Topic, ''TOPIC'', 1),
     (Cmd_User, ''USER'', 4),
     (Cmd_Version, ''VERSION'', 0),
     (Cmd_Who, ''WHO'', 0),
     (Cmd_WhoIs, ''WHOIS'', 1)]"

text \<open>\<open>str::eq_ignore_ascii_case\<close>.\<close>

definition eq_ignore_ascii_case :: "string \<Rightarrow> string \<Rightarrow> bool" where
  "eq_ignore_ascii_case s t \<longleftrightarrow> map to_ascii_lowercase s = map to_ascii_lowercase t"

definition command_parse :: "string \<Rightarrow> command option" where
  "command_parse s =
     map_option fst (find (\<lambda>(_, name, _). eq_ignore_ascii_case s name) command_table)"

definition required_params :: "command \<Rightarrow> nat" where
  "required_params c =
     (if is_Reply c then 0
      else (case map_of command_table c of Some (_, n) \<Rightarrow> n | None \<Rightarrow> 0))"

definition as_str :: "command \<Rightarrow> string" where
  "as_str c =
     (if is_Reply c then reply_str c
      else (case map_of command_table c of Some (name, _) \<Rightarrow> name | None \<Rightarrow> []))"

lemma as_str_Reply [simp]: "as_str (Reply s) = s"
  by (simp add: as_str_def)

section \<open>Facts\<close>

lemma eq_ignore_ascii_case_refl [simp]: "eq_ignore_ascii_case s s"
  by (simp add: eq_ignore_ascii_case_def)

lemma command_parse_cong:
  "eq_ignore_ascii_case s t \<Longrightarrow> command_parse s = command_parse t"
  by (simp add: command_parse_def eq_ignore_ascii_case_def)

text \<open>Every command but a reply is in the table under its own name, once.\<close>

lemma command_table_complete: "\<not> is_Reply c \<Longrightarrow> c \<in> set (map fst command_table)"
  by (cases c) (simp_all add: command_table_def)

lemma command_table_check:
  "list_all (\<lambda>(c, name, _). \<not> is_Reply c \<and> command_parse name = Some c \<and> as_str c = name
      \<and> name \<noteq> [] \<and> list_all (\<lambda>b. is_ascii b \<and> b \<notin> set ascii_whitespace
          \<and> b \<noteq> CHR '':'' \<and> b \<noteq> CHR 0x00 \<and> b \<noteq> CHR ''@'') name) command_table"
  by code_simp

lemma command_name:
  assumes "\<not> is_Reply c"
  shows "command_parse (as_str c) = Some c" and "as_str c \<noteq> []"
    and "b \<in> set (as_str c) \<Longrightarrow> is_ascii b \<and> b \<notin> set ascii_whitespace
          \<and> b \<noteq> CHR '':'' \<and> b \<noteq> CHR 0x00 \<and> b \<noteq> CHR ''@''"
proof -
  from command_table_complete [OF assms] obtain name n where "(c, name, n) \<in> set command_table"
    by auto
  from bspec [OF command_table_check [unfolded list_all_iff] this]
  have "command_parse name = Some c \<and> as_str c = name \<and> name \<noteq> []
      \<and> (\<forall>b \<in> set name. is_ascii b \<and> b \<notin> set ascii_whitespace
          \<and> b \<noteq> CHR '':'' \<and> b \<noteq> CHR 0x00 \<and> b \<noteq> CHR ''@'')"
    by simp
  then show "command_parse (as_str c) = Some c" and "as_str c \<noteq> []"
    and "b \<in> set (as_str c) \<Longrightarrow> is_ascii b \<and> b \<notin> set ascii_whitespace
          \<and> b \<noteq> CHR '':'' \<and> b \<noteq> CHR 0x00 \<and> b \<noteq> CHR ''@''"
    by blast+
qed

lemma command_parse_not_reply: "command_parse s = Some c \<Longrightarrow> \<not> is_Reply c"
proof -
  assume "command_parse s = Some c"
  then obtain e where "e \<in> set command_table" and "c = fst e"
    unfolding command_parse_def by (force simp: find_Some_iff in_set_conv_nth)
  with bspec [OF command_table_check [unfolded list_all_iff], of e] show ?thesis
    by (simp add: case_prod_beta)
qed

lemma command_parse_SomeD: "command_parse s = Some c \<Longrightarrow> eq_ignore_ascii_case s (as_str c)"
proof -
  assume "command_parse s = Some c"
  then obtain e where e: "e \<in> set command_table" "c = fst e" "eq_ignore_ascii_case s (fst (snd e))"
    unfolding command_parse_def by (force simp: find_Some_iff in_set_conv_nth)
  with bspec [OF command_table_check [unfolded list_all_iff], of e] show ?thesis
    by (simp add: case_prod_beta)
qed

text \<open>Recognising commands.  A word is recognised as a command exactly when it is the command's
  name up to the case of ASCII letters; no word is a numeric reply, and no two commands share a
  name.\<close>

lemma command_parse_iff:
  "command_parse s = Some c \<longleftrightarrow> \<not> is_Reply c \<and> eq_ignore_ascii_case s (as_str c)"
proof
  assume "command_parse s = Some c"
  then show "\<not> is_Reply c \<and> eq_ignore_ascii_case s (as_str c)"
    using command_parse_not_reply command_parse_SomeD by blast
next
  assume "\<not> is_Reply c \<and> eq_ignore_ascii_case s (as_str c)"
  then show "command_parse s = Some c"
    using command_parse_cong [of s "as_str c"] command_name(1) [of c] by simp
qed

end
