(* ===== verification/Messages.thy ===== *)
theory Messages
  imports Commands
begin

text \<open>
  \<open>ellidri-tokens/src/message.rs\<close>: the parser of IRC messages and of their tags.  Everything the
  parser compares with is an ASCII character, so it works on the bytes of the text.
\<close>

section \<open>Words, tags, prefix, command\<close>

definition MESSAGE_LENGTH :: nat where "MESSAGE_LENGTH = 512"

definition PARAMS_LENGTH :: nat where "PARAMS_LENGTH = 15"

definition parse_word :: "string \<Rightarrow> string \<times> string" where
  "parse_word s =
     (let (first, rest) = str_splitn2 (CHR '' '') s;
          pieces = first # (case rest of None \<Rightarrow> [] | Some r \<Rightarrow> [r]);
          split = filter (\<lambda>p. p \<noteq> []) (map str_trim pieces)
      in case split of
           [] \<Rightarrow> ([], [])
         | [w] \<Rightarrow> (w, [])
         | w # r # _ \<Rightarrow> (w, r))"

text \<open>\<open>&tags[1..]\<close> and \<open>&prefix[1..]\<close> drop the one-byte sigil that was just matched; see
  \<open>parse_word_hd\<close> below for why the word has it.\<close>

definition parse_tags :: "string \<Rightarrow> string \<times> string" where
  "parse_tags buf =
     (if buf \<noteq> [] \<and> hd buf = CHR ''@''
      then (let (tags, rest) = parse_word buf in (tl tags, rest))
      else ([], buf))"

definition parse_prefix :: "string \<Rightarrow> string option \<times> string" where
  "parse_prefix buf =
     (if buf \<noteq> [] \<and> hd buf = CHR '':''
      then (let (prefix, rest) = parse_word buf in (Some (tl prefix), rest))
      else (None, trim_start buf))"

text \<open>The result of \<open>Command::parse\<close> with the unknown word kept: \<^const>\<open>Inl\<close> is \<open>Err\<close>.\<close>

definition parse_command :: "string \<Rightarrow> (string + command) \<times> string" where
  "parse_command buf =
     (let (command_string, rest) = parse_word buf
      in (case command_parse command_string of
            Some c \<Rightarrow> Inr c
          | None \<Rightarrow> Inl command_string, rest))"

section \<open>Tags\<close>

definition tag_escape :: "char \<Rightarrow> char" where
  "tag_escape c =
     (if c = CHR '':'' then CHR '';''
      else if c = CHR ''s'' then CHR '' ''
      else if c = CHR ''r'' then CHR 0x0D
      else if c = CHR ''n'' then CHR 0x0A
      else c)"

record tag =
  tag_key :: string
  tag_value :: "string option"

definition tag_parse :: "string \<Rightarrow> tag" where
  "tag_parse buf =
     (let (key, value) = str_splitn2 (CHR ''='') buf
      in \<lparr>tag_key = key,
          tag_value = (case value of None \<Rightarrow> None | Some v \<Rightarrow> if v = [] then None else Some v)\<rparr>)"

definition tag_is_client :: "tag \<Rightarrow> bool" where
  "tag_is_client t \<longleftrightarrow> tag_key t \<noteq> [] \<and> hd (tag_key t) = CHR ''+''"

fun unescape_loop :: "bool \<Rightarrow> string \<Rightarrow> string" where
  "unescape_loop escape [] = []"
| "unescape_loop escape (c # cs) =
     (if c = CHR 0x5C \<and> \<not> escape then unescape_loop True cs
      else (if escape then tag_escape c else c) # unescape_loop False cs)"

definition unescape_value_into :: "tag \<Rightarrow> string \<Rightarrow> string" where
  "unescape_value_into t buf =
     (case tag_value t of None \<Rightarrow> buf | Some value \<Rightarrow> buf @ unescape_loop False value)"

definition unescape_value :: "tag \<Rightarrow> string" where
  "unescape_value t = unescape_value_into t []"

definition tag_item_ok :: "string \<Rightarrow> bool" where
  "tag_item_ok item \<longleftrightarrow>
     item \<noteq> [] \<and> hd item \<noteq> CHR ''='' \<and> take 2 item \<noteq> ''+=''"

definition tags :: "string \<Rightarrow> tag list" where
  "tags s = map tag_parse (filter tag_item_ok (str_split (CHR '';'') s))"

section \<open>Messages\<close>

text \<open>\<open>msg_params\<close> is the array of \<^const>\<open>PARAMS_LENGTH\<close> slots, of which the first
  \<open>msg_num_params\<close> are in use and the others are empty strings.\<close>

record message =
  msg_tags :: string
  msg_prefix :: "string option"
  msg_command :: "string + command"
  msg_num_params :: nat
  msg_params :: "string list"

text \<open>The loop that fills the array: at most \<open>n\<close> more parameters.\<close>

fun parse_params :: "nat \<Rightarrow> string \<Rightarrow> string list" where
  "parse_params 0 buf = []"
| "parse_params (Suc n) buf =
     (if buf = [] then []
      else if hd buf = CHR '':'' then [tl buf]
      else (let (word, rest) = parse_word buf in word # parse_params n rest))"

definition message_parse :: "string \<Rightarrow> message option" where
  "message_parse s =
     (let buf = trim_start s
      in if buf = [] \<or> CHR 0x00 \<in> set buf then None
         else
           (let (tgs, buf) = parse_tags buf;
                (prefix, buf) = parse_prefix buf;
                (command, buf) = parse_command buf
            in if command = Inl [] then None
               else
                 (let ps = parse_params PARAMS_LENGTH buf
                  in Some \<lparr>msg_tags = tgs, msg_prefix = prefix, msg_command = command,
                           msg_num_params = length ps,
                           msg_params = ps @ replicate (PARAMS_LENGTH - length ps) []\<rparr>)))"

definition param :: "message \<Rightarrow> nat \<Rightarrow> string" where
  "param m i = msg_params m ! i"

definition has_enough_params :: "message \<Rightarrow> bool" where
  "has_enough_params m \<longleftrightarrow>
     (case msg_command m of
        Inr cmd \<Rightarrow> required_params cmd \<le> msg_num_params m
      | Inl _ \<Rightarrow> False)"

section \<open>What the parser returns\<close>

lemma parse_word_no_space: "CHR '' '' \<notin> set s \<Longrightarrow> parse_word s = (str_trim s, [])"
  by (simp add: parse_word_def)

lemma parse_word_space:
  "word_ok w \<Longrightarrow> parse_word (w @ CHR '' '' # r) = (w, str_trim r)"
  by (auto simp: parse_word_def str_splitn2_append word_ok_def)

lemma str_splitn2_cases:
  obtains (no_sep) "sep \<notin> set s" "str_splitn2 sep s = (s, None)"
  | (sep) w r where "s = w @ sep # r" "sep \<notin> set w" "str_splitn2 sep s = (w, Some r)"
proof (cases "sep \<in> set s")
  case True
  then obtain w r where "s = w @ sep # r" "sep \<notin> set w" by (meson split_list_first)
  with sep show ?thesis by (simp add: str_splitn2_append)
next
  case False
  with no_sep show ?thesis by simp
qed

text \<open>The two parts of \<open>parse_word\<close> are pieces of the text, trimmed.\<close>

lemma parse_word_cases:
  assumes "parse_word s = (w, rest)"
  obtains "w = str_trim s" "rest = []"
  | a b where "s = a @ CHR '' '' # b" "CHR '' '' \<notin> set a" "w = str_trim a" "rest = str_trim b"
  | a b where "s = a @ CHR '' '' # b" "CHR '' '' \<notin> set a" "str_trim a = []" "w = str_trim b" "rest = []"
proof (cases rule: str_splitn2_cases [of "CHR '' ''" s])
  case no_sep
  with assms that(1) show ?thesis by (auto simp: parse_word_def split: if_splits)
next
  case (sep a b)
  with assms that(2,3) show ?thesis by (fastforce simp: parse_word_def split: if_splits)
qed

lemma parse_word_subset:
  assumes "parse_word s = (w, rest)" shows "set w \<subseteq> set s" and "set rest \<subseteq> set s"
  using assms set_str_trim by (auto elim!: parse_word_cases dest!: subsetD [OF set_str_trim])

text \<open>The word that follows a matched sigil starts with that sigil, so the slice after it is in
  range.\<close>

lemma trim_start_ascii_hd:
  assumes "c \<notin> set ascii_whitespace" "is_ascii c"
  shows "trim_start (c # s) = c # s"
proof -
  have "\<not> is_whitespace (c # takeWhile is_cont s)"
    using assms by (auto simp: is_whitespace_def is_ascii_def split: list.splits)
  then show ?thesis by (simp add: trim_start_idle)
qed

lemma trim_keeps_hd:
  assumes "c \<notin> set ascii_whitespace" "is_ascii c"
  shows "\<exists>t. str_trim (c # s) = c # t"
proof -
  have ws: "\<not> is_whitespace (c # takeWhile is_cont s)"
    using assms by (auto simp: is_whitespace_def is_ascii_def split: list.splits)
  have start: "trim_start (c # s) = c # s" using ws by (simp add: trim_start_idle)
  define ys where "ys = rev (dropWhile is_whitespace (rev (chars (dropWhile is_cont s))))"
  have "dropWhile is_whitespace (rev (chars (dropWhile is_cont s)) @ [c # takeWhile is_cont s])
      = rev ys @ [c # takeWhile is_cont s]"
    unfolding ys_def rev_rev_ident by (rule dropWhile_append3) (rule ws)
  then have "trim_end (c # s) = c # (takeWhile is_cont s @ concat ys)" by (simp add: trim_end_def)
  with start show ?thesis by (simp add: str_trim_def)
qed

lemma parse_word_hd:
  assumes "c \<notin> set ascii_whitespace" "is_ascii c"
  shows "\<exists>t. fst (parse_word (c # s)) = c # t"
proof -
  have nc: "c \<noteq> CHR '' ''" using assms(1) by (auto simp: ascii_whitespace_def)
  obtain w rest where p: "parse_word (c # s) = (w, rest)" by fastforce
  then show ?thesis
  proof (cases rule: parse_word_cases)
    case 1
    with p show ?thesis using trim_keeps_hd [OF assms] by simp
  next
    case (2 a b)
    then obtain a' where "a = c # a'" using nc by (cases a) auto
    with 2 p show ?thesis using trim_keeps_hd [OF assms] by simp
  next
    case (3 a b)
    then obtain a' where "a = c # a'" using nc by (cases a) auto
    with 3 show ?thesis using trim_keeps_hd [OF assms, of a'] by auto
  qed
qed

text \<open>No parsed part holds a line end or a NUL, provided the line has its line end, if any, at its
  end only, as the reader delivers it.\<close>

definition clean :: "string \<Rightarrow> bool" where
  "clean s \<longleftrightarrow> CHR 0x0D \<notin> set s \<and> CHR 0x0A \<notin> set s"

lemma clean_simps [simp]:
  "clean []" "clean (s @ t) \<longleftrightarrow> clean s \<and> clean t"
  "clean (c # s) \<longleftrightarrow> c \<noteq> CHR 0x0D \<and> c \<noteq> CHR 0x0A \<and> clean s"
  by (auto simp: clean_def)

lemma clean_subset: "clean s \<Longrightarrow> set t \<subseteq> set s \<Longrightarrow> clean t"
  by (auto simp: clean_def)

definition one_line :: "string \<Rightarrow> bool" where
  "one_line s \<longleftrightarrow> clean (butlast s)"

lemma clean_one_line: "clean s \<Longrightarrow> one_line s"
  unfolding one_line_def by (rule clean_subset) (auto dest: in_set_butlastD)

lemma one_line_suffix: "one_line (s @ t) \<Longrightarrow> one_line t"
  by (auto simp: one_line_def butlast_append split: if_splits)

lemma one_line_prefix: "one_line (s @ c # t) \<Longrightarrow> clean s"
  by (auto simp: one_line_def butlast_append split: if_splits)

lemma clean_str_trim: "one_line s \<Longrightarrow> clean (str_trim s)"
proof (cases s rule: rev_cases)
  case (snoc l c)
  assume "one_line s"
  with snoc have l: "clean l" by (simp add: one_line_def)
  show ?thesis
  proof (cases "c = CHR 0x0D \<or> c = CHR 0x0A")
    case True
    then have "str_trim s = str_trim l"
      using snoc by (auto simp: ascii_whitespace_def intro!: str_trim_snoc)
    with l show ?thesis by (simp add: clean_subset set_str_trim)
  next
    case False
    with l snoc have "clean s" by simp
    then show ?thesis by (rule clean_subset) (rule set_str_trim)
  qed
qed (simp add: str_trim_def trim_start_def trim_end_def)

lemma parse_word_clean:
  assumes "parse_word s = (w, rest)" "one_line s"
  shows "clean w \<and> clean rest"
  using assms(1)
proof (cases rule: parse_word_cases)
  case 1
  with assms(2) show ?thesis by (simp add: clean_str_trim)
next
  case (2 a b)
  with assms(2) have "clean a" "one_line b"
    using one_line_suffix [of "a @ [CHR '' '']" b] by (auto dest: one_line_prefix)
  with 2 show ?thesis by (simp add: clean_str_trim clean_one_line)
next
  case (3 a b)
  with assms(2) have "one_line b" using one_line_suffix [of "a @ [CHR '' '']" b] by auto
  with 3 show ?thesis by (simp add: clean_str_trim)
qed

lemma parse_params_length: "length (parse_params n buf) \<le> n"
  by (induction n buf rule: parse_params.induct) (auto split: prod.splits)

lemma parse_params_subset: "p \<in> set (parse_params n buf) \<Longrightarrow> set p \<subseteq> set buf"
proof (induction n buf rule: parse_params.induct)
  case (2 n buf)
  show ?case
  proof (cases "buf = [] \<or> hd buf = CHR '':''")
    case True
    then show ?thesis using "2.prems" by (cases buf) (auto split: if_splits)
  next
    case False
    obtain w rest where pw: "parse_word buf = (w, rest)" by fastforce
    with False 2 have "p = w \<or> set p \<subseteq> set rest" by auto
    then show ?thesis using parse_word_subset [OF pw] by auto
  qed
qed simp

lemma parse_params_clean: "clean buf \<Longrightarrow> p \<in> set (parse_params n buf) \<Longrightarrow> clean p"
  using parse_params_subset clean_subset by blast

text \<open>One step of the parser at a time: what \<open>parse_tags\<close>, \<open>parse_prefix\<close> and \<open>parse_command\<close>
  return is part of what they were given, and a line stays a line.\<close>

lemma parse_tags_parts:
  assumes "parse_tags s = (t, rest)"
  shows "set t \<subseteq> set s \<and> set rest \<subseteq> set s
    \<and> (one_line s \<longrightarrow> clean t \<and> one_line rest)"
proof (cases "s \<noteq> [] \<and> hd s = CHR ''@''")
  case True
  with assms obtain w where w: "parse_word s = (w, rest)" "t = tl w"
    by (auto simp: parse_tags_def split: prod.splits)
  moreover have "set (tl w) \<subseteq> set w" by (cases w) auto
  ultimately show ?thesis
    using parse_word_subset [OF w(1)] parse_word_clean [OF w(1)]
    by (auto intro: clean_subset clean_one_line)
next
  case False
  with assms show ?thesis by (auto simp: parse_tags_def)
qed

lemma one_line_trim_start: "one_line s \<Longrightarrow> one_line (trim_start s)"
proof -
  have "concat (takeWhile is_whitespace (chars s)) @ trim_start s = s"
    unfolding trim_start_def by (simp flip: concat_append)
  then show "one_line s \<Longrightarrow> one_line (trim_start s)" by (metis one_line_suffix)
qed

lemma parse_prefix_parts:
  assumes "parse_prefix s = (p, rest)"
  shows "(\<forall>x. p = Some x \<longrightarrow> set x \<subseteq> set s) \<and> set rest \<subseteq> set s
    \<and> (one_line s \<longrightarrow> (\<forall>x. p = Some x \<longrightarrow> clean x) \<and> one_line rest)"
proof (cases "s \<noteq> [] \<and> hd s = CHR '':''")
  case True
  with assms obtain w where w: "parse_word s = (w, rest)" "p = Some (tl w)"
    by (auto simp: parse_prefix_def split: prod.splits)
  moreover have "set (tl w) \<subseteq> set w" by (cases w) auto
  ultimately show ?thesis
    using parse_word_subset [OF w(1)] parse_word_clean [OF w(1)]
    by (auto intro: clean_subset clean_one_line)
next
  case False
  with assms show ?thesis
    using set_trim_start by (auto simp: parse_prefix_def one_line_trim_start)
qed

lemma parse_command_parts:
  assumes "parse_command s = (c, rest)"
  shows "(\<forall>x. c = Inl x \<longrightarrow> set x \<subseteq> set s) \<and> set rest \<subseteq> set s
    \<and> (one_line s \<longrightarrow> (\<forall>x. c = Inl x \<longrightarrow> clean x) \<and> clean rest)"
proof -
  from assms obtain w where w: "parse_word s = (w, rest)" "\<forall>x. c = Inl x \<longrightarrow> x = w"
    by (auto simp: parse_command_def split: prod.splits option.splits)
  then show ?thesis
    using parse_word_subset [OF w(1)] parse_word_clean [OF w(1)] by auto
qed

lemma message_parse_SomeE:
  assumes "message_parse s = Some m"
  obtains b1 b2 b3 where "CHR 0x00 \<notin> set (trim_start s)"
    and "parse_tags (trim_start s) = (msg_tags m, b1)"
    and "parse_prefix b1 = (msg_prefix m, b2)" and "parse_command b2 = (msg_command m, b3)"
    and "msg_command m \<noteq> Inl []"
    and "msg_num_params m = length (parse_params PARAMS_LENGTH b3)"
    and "msg_params m = parse_params PARAMS_LENGTH b3
           @ replicate (PARAMS_LENGTH - length (parse_params PARAMS_LENGTH b3)) []"
  using assms by (auto simp: message_parse_def Let_def split: if_splits prod.splits)

lemma message_parse_shape:
  assumes "message_parse s = Some m"
  shows "length (msg_params m) = PARAMS_LENGTH" and "msg_num_params m \<le> PARAMS_LENGTH"
    and "msg_num_params m \<le> i \<Longrightarrow> i < PARAMS_LENGTH \<Longrightarrow> param m i = []"
    and "msg_command m = Inr c \<Longrightarrow> \<not> is_Reply c"
proof -
  from assms obtain b2 b3 where m: "msg_num_params m = length (parse_params PARAMS_LENGTH b3)"
    "msg_params m = parse_params PARAMS_LENGTH b3
        @ replicate (PARAMS_LENGTH - length (parse_params PARAMS_LENGTH b3)) []"
    "parse_command b2 = (msg_command m, b3)"
    by (rule message_parse_SomeE)
  have "length (parse_params PARAMS_LENGTH b3) \<le> PARAMS_LENGTH" by (rule parse_params_length)
  with m show "length (msg_params m) = PARAMS_LENGTH" "msg_num_params m \<le> PARAMS_LENGTH"
    "msg_num_params m \<le> i \<Longrightarrow> i < PARAMS_LENGTH \<Longrightarrow> param m i = []"
    by (auto simp: param_def nth_append)
  show "msg_command m = Inr c \<Longrightarrow> \<not> is_Reply c"
    using m(3) command_parse_not_reply
    by (auto simp: parse_command_def split: prod.splits option.splits)
qed

text \<open>A parsed message holds no NUL, and no line end when the input is one line.\<close>

definition text_ok :: "string \<Rightarrow> bool" where
  "text_ok s \<longleftrightarrow> clean s \<and> CHR 0x00 \<notin> set s"

lemma message_parse_text_ok:
  assumes "message_parse s = Some m" and "one_line s"
  shows "text_ok (msg_tags m)" and "msg_prefix m = Some p \<Longrightarrow> text_ok p"
    and "msg_command m = Inl c \<Longrightarrow> text_ok c" and "x \<in> set (msg_params m) \<Longrightarrow> text_ok x"
proof -
  from assms(1) obtain b1 b2 b3 where nul: "CHR 0x00 \<notin> set (trim_start s)"
    and t: "parse_tags (trim_start s) = (msg_tags m, b1)"
    and p: "parse_prefix b1 = (msg_prefix m, b2)" and c: "parse_command b2 = (msg_command m, b3)"
    and ps: "msg_params m = parse_params PARAMS_LENGTH b3
           @ replicate (PARAMS_LENGTH - length (parse_params PARAMS_LENGTH b3)) []"
    by (rule message_parse_SomeE)
  have line: "one_line (trim_start s)" using assms(2) by (rule one_line_trim_start)
  note parts = parse_tags_parts [OF t] parse_prefix_parts [OF p] parse_command_parts [OF c]
  show "text_ok (msg_tags m)" using parts line nul by (auto simp: text_ok_def)
  show "text_ok p" if "msg_prefix m = Some p" using parts line nul that by (auto simp: text_ok_def)
  show "text_ok c" if "msg_command m = Inl c" using parts line nul that by (auto simp: text_ok_def)
  have "clean b3" "CHR 0x00 \<notin> set b3" using parts line nul by auto
  then show "text_ok x" if "x \<in> set (msg_params m)"
    using that ps parse_params_clean [of b3 x] parse_params_subset [of x]
    by (auto simp: text_ok_def)
qed

text \<open>C23: The message parser.  Whatever line the reader delivers, a parsed message has its fifteen
  parameter slots, the unused ones empty; its command is a known command or a non-empty unknown
  word, never a numeric; and no part of it holds a carriage return, a line feed or a NUL, so no part
  can smuggle a second line into what is relayed to other clients.\<close>

theorem parsed_message_well_formed:
  assumes "message_parse s = Some m" and "one_line s"
  shows "length (msg_params m) = PARAMS_LENGTH \<and> msg_num_params m \<le> PARAMS_LENGTH
    \<and> (\<forall>i. msg_num_params m \<le> i \<longrightarrow> i < PARAMS_LENGTH \<longrightarrow> param m i = [])
    \<and> msg_command m \<noteq> Inl [] \<and> (\<forall>r. msg_command m \<noteq> Inr (Reply r))
    \<and> text_ok (msg_tags m) \<and> (\<forall>p. msg_prefix m = Some p \<longrightarrow> text_ok p)
    \<and> (\<forall>w. msg_command m = Inl w \<longrightarrow> text_ok w) \<and> (\<forall>x \<in> set (msg_params m). text_ok x)"
proof -
  have "msg_command m \<noteq> Inr (Reply r)" for r using message_parse_shape(4) [OF assms(1)] by auto
  moreover have "msg_command m \<noteq> Inl []" by (rule message_parse_SomeE [OF assms(1)])
  ultimately show ?thesis
    using message_parse_shape(1-3) [OF assms(1)] message_parse_text_ok [OF assms] by blast
qed

theorem parsed_message_well_formed_witness:
  "\<exists>m. message_parse (''@+k=v :a JOIN #c :x y'' @ [CHR 0x0D]) = Some m
     \<and> text_ok (msg_tags m) \<and> msg_params m = [''#c'', ''x y''] @ replicate 13 []"
proof -
  let ?s = "''@+k=v :a JOIN #c :x y'' @ [CHR 0x0D]"
  have "map_option msg_params (message_parse ?s) = Some ([''#c'', ''x y''] @ replicate 13 [])"
    by code_simp
  then obtain m where m: "message_parse ?s = Some m"
    "msg_params m = [''#c'', ''x y''] @ replicate 13 []"
    by (auto simp del: append_Cons)
  have "one_line ?s" by (simp add: one_line_def)
  from parsed_message_well_formed [OF m(1) this] m show ?thesis by blast
qed

end
