(* ===== verification/Reader.thy ===== *)
theory Reader
  imports Messages
begin

text \<open>
  \<open>ellidri-reader/src/lib.rs\<close>: reading one message from a buffered connection.  The buffered reader
  is tokio's: its two operations \<open>fill\<close> (\<open>poll_fill_buf\<close>, awaited) and \<open>consume\<close> are arguments of the
  model, and the locale \<open>buffered\<close> states what its documentation promises.  A future that is not ready
  keeps its state and is polled again, so awaiting is a plain call here.
\<close>

section \<open>UTF-8\<close>

text \<open>\<open>std::str::from_utf8\<close>: the well-formed byte sequences of the Unicode standard.\<close>

definition byte_in :: "nat \<Rightarrow> nat \<Rightarrow> char \<Rightarrow> bool" where
  "byte_in lo hi c \<longleftrightarrow> lo \<le> of_char c \<and> of_char c \<le> hi"

text \<open>The range of the second byte, and the number of continuation bytes after it.\<close>

definition utf8_lead :: "char \<Rightarrow> (nat \<times> nat \<times> nat) option" where
  "utf8_lead c =
     (if byte_in 0xC2 0xDF c then Some (0x80, 0xBF, 0)
      else if byte_in 0xE0 0xE0 c then Some (0xA0, 0xBF, 1)
      else if byte_in 0xED 0xED c then Some (0x80, 0x9F, 1)
      else if byte_in 0xE1 0xEF c then Some (0x80, 0xBF, 1)
      else if byte_in 0xF0 0xF0 c then Some (0x90, 0xBF, 2)
      else if byte_in 0xF1 0xF3 c then Some (0x80, 0xBF, 2)
      else if byte_in 0xF4 0xF4 c then Some (0x80, 0x8F, 2)
      else None)"

fun utf8_loop :: "(nat \<times> nat \<times> nat) option \<Rightarrow> string \<Rightarrow> bool" where
  "utf8_loop None [] = True"
| "utf8_loop (Some _) [] = False"
| "utf8_loop None (c # cs) =
     (if of_char c < (0x80 :: nat) then utf8_loop None cs
      else case utf8_lead c of None \<Rightarrow> False | Some next \<Rightarrow> utf8_loop (Some next) cs)"
| "utf8_loop (Some (lo, hi, k)) (c # cs) =
     (byte_in lo hi c
      \<and> utf8_loop (case k of 0 \<Rightarrow> None | Suc j \<Rightarrow> Some (0x80, 0xBF, j)) cs)"

definition from_utf8_ok :: "string \<Rightarrow> bool" where
  "from_utf8_ok = utf8_loop None"

section \<open>Reading a line\<close>

definition MAX_READ_PER_MESSAGE :: nat where "MAX_READ_PER_MESSAGE = 4"
definition MAX_TAG_LENGTH :: nat where "MAX_TAG_LENGTH = 4096"

datatype 'e read_error =
    ABUSE_ERR
  | TOO_LONG_ERR
  | UTF8_ERR
  | IoError 'e

record read_info =
  ri_read :: nat
  ri_limit :: nat
  ri_message_max :: nat
  ri_count :: nat

definition read_info_new :: "nat \<Rightarrow> read_info" where
  "read_info_new message_max = \<lparr>ri_read = 0, ri_limit = 0, ri_message_max = message_max, ri_count = 0\<rparr>"

type_synonym ('r, 'e) filler = "'r \<Rightarrow> ('e + string) \<times> 'r"
type_synonym 'r consumer = "nat \<Rightarrow> 'r \<Rightarrow> 'r"

definition set_limit :: "string \<Rightarrow> read_info \<Rightarrow> read_info" where
  "set_limit available n =
     (if ri_limit n = 0 \<and> available \<noteq> [] then
        n\<lparr>ri_limit := (if hd available = CHR ''@'' then MAX_TAG_LENGTH else 0) + ri_message_max n\<rparr>
      else n)"

definition is_eol :: "char \<Rightarrow> bool" where
  "is_eol c \<longleftrightarrow> c = CHR 0x0D \<or> c = CHR 0x0A"

text \<open>\<open>memchr2\<close>: the position of the first line end.\<close>

fun memchr_eol :: "string \<Rightarrow> nat option" where
  "memchr_eol [] = None"
| "memchr_eol (c # s) = (if is_eol c then Some 0 else map_option Suc (memchr_eol s))"

text \<open>What one look at the available bytes gives: the bytes to keep, whether the line is complete, and
  how many bytes are used.\<close>

definition scan_line :: "string \<Rightarrow> string \<times> bool \<times> nat" where
  "scan_line available =
     (case memchr_eol available of
        Some i \<Rightarrow>
          (take (i + 1) available, True,
           if i + 1 < length available \<and> available ! (i + 1) = CHR 0x0A then i + 2 else i + 1)
      | None \<Rightarrow> (available, False, length available))"

function read_line ::
  "('r, 'e) filler \<Rightarrow> 'r consumer \<Rightarrow> 'r \<Rightarrow> string \<Rightarrow> read_info
   \<Rightarrow> ('e read_error + nat) \<times> 'r \<times> string \<times> read_info" where
  "read_line fill consume r bytes n =
     (if MAX_READ_PER_MESSAGE \<le> ri_count n then (Inl ABUSE_ERR, r, bytes, n)
      else if 0 < ri_limit n \<and> ri_limit n \<le> ri_read n then (Inl TOO_LONG_ERR, r, bytes, n)
      else (case fill r of
              (Inl e, r) \<Rightarrow> (Inl (IoError e), r, bytes, n)
            | (Inr available, r) \<Rightarrow>
                (let n = set_limit available n;
                     (line, done', used) = scan_line available;
                     bytes = bytes @ line;
                     r = consume used r;
                     n = n\<lparr>ri_read := ri_read n + used\<rparr>
                 in if done' \<or> used = 0 then (Inr (ri_read n), r, bytes, n\<lparr>ri_read := 0\<rparr>)
                    else read_line fill consume r bytes (n\<lparr>ri_count := ri_count n + 1\<rparr>))))"
  by pat_completeness auto

lemma set_limit_count [simp]: "ri_count (set_limit a n) = ri_count n"
  by (simp add: set_limit_def)

lemma set_limit_read [simp]: "ri_read (set_limit a n) = ri_read n"
  by (simp add: set_limit_def)

text \<open>The counter bounds the number of rounds.\<close>

termination read_line
  by (relation "measure (\<lambda>(_, _, _, _, n). MAX_READ_PER_MESSAGE - ri_count n)")
    (auto simp: MAX_READ_PER_MESSAGE_def)

declare read_line.simps [simp del]

text \<open>\<open>read_message\<close>: the bytes go to the caller's buffer when they are UTF-8, and are dropped when
  not; \<open>buf\<close> is the content of the buffer before, which the bytes start with.\<close>

definition read_message ::
  "('r, 'e) filler \<Rightarrow> 'r consumer \<Rightarrow> 'r \<Rightarrow> nat \<Rightarrow> string \<Rightarrow> ('e read_error + nat) \<times> 'r \<times> string" where
  "read_message fill consume r message_max buf =
     (case read_line fill consume r buf (read_info_new message_max) of
        (Inl e, r, _, _) \<Rightarrow> (Inl e, r, [])
      | (Inr k, r, bytes, _) \<Rightarrow>
          if \<not> from_utf8_ok bytes then (Inl UTF8_ERR, r, []) else (Inr k, r, bytes))"

section \<open>The line in a stream\<close>

lemma memchr_eol_append:
  "memchr_eol (a @ b) =
     (case memchr_eol a of Some i \<Rightarrow> Some i | None \<Rightarrow> map_option (\<lambda>i. length a + i) (memchr_eol b))"
proof (induction a)
  case Nil
  show ?case by (cases "memchr_eol b") simp_all
next
  case (Cons c a)
  then show ?case by (cases "memchr_eol a"; cases "memchr_eol b") simp_all
qed

lemma memchr_eol_Some:
  "memchr_eol s = Some i \<Longrightarrow> i < length s \<and> is_eol (s ! i) \<and> list_all (\<lambda>c. \<not> is_eol c) (take i s)"
proof (induction s arbitrary: i)
  case (Cons c s)
  then show ?case by (cases i) (auto split: if_splits)
qed simp

lemma memchr_eol_None: "memchr_eol s = None \<longleftrightarrow> list_all (\<lambda>c. \<not> is_eol c) s"
  by (induction s) auto

text \<open>\<open>line_read s l used\<close>: the first line of the stream \<open>s\<close> is \<open>l\<close>, with its line end when there is one,
  and reading it uses \<open>used\<close> bytes; the LF after a CR is used when it is at hand.\<close>

definition line_read :: "string \<Rightarrow> string \<Rightarrow> nat \<Rightarrow> bool" where
  "line_read s l used \<longleftrightarrow>
     (case memchr_eol s of
        Some i \<Rightarrow> l = take (i + 1) s
          \<and> (used = i + 1 \<or> (used = i + 2 \<and> i + 1 < length s \<and> s ! (i + 1) = CHR 0x0A))
      | None \<Rightarrow> l = s \<and> used = length s)"

lemma scan_line_used:
  "scan_line a = (l, d, used) \<Longrightarrow> length l \<le> used \<and> used \<le> length a"
  using memchr_eol_Some [of a] by (auto simp: scan_line_def min_def split: option.splits if_splits)

lemma scan_line_done:
  assumes "scan_line a = (l, True, used)"
  shows "line_read (a @ later) l used"
proof -
  obtain i where i: "memchr_eol a = Some i" "l = take (i + 1) a"
    "used = (if i + 1 < length a \<and> a ! (i + 1) = CHR 0x0A then i + 2 else i + 1)"
    using assms by (auto simp: scan_line_def split: option.splits)
  then have "i < length a" using memchr_eol_Some by blast
  with i show ?thesis by (auto simp: line_read_def memchr_eol_append nth_append)
qed

lemma scan_line_more:
  assumes "scan_line a = (l, False, used)"
  shows "l = a" and "used = length a" and "line_read later m k \<Longrightarrow> line_read (a @ later) (a @ m) (length a + k)"
proof -
  have a: "memchr_eol a = None" "l = a" "used = length a"
    using assms by (auto simp: scan_line_def split: option.splits)
  then show "l = a" "used = length a" by simp_all
  show "line_read (a @ later) (a @ m) (length a + k)" if "line_read later m k"
  proof (cases "memchr_eol later")
    case None
    with a that show ?thesis by (simp add: line_read_def memchr_eol_append)
  next
    case (Some i)
    with a that show ?thesis by (auto simp: line_read_def memchr_eol_append nth_append)
  qed
qed

text \<open>A line that was read holds a line end at its end only.\<close>

lemma line_read_one_line:
  assumes "line_read s l used"
  shows "one_line l"
proof (cases "memchr_eol s")
  case None
  then have "l = s" using assms by (simp add: line_read_def)
  moreover have "list_all (\<lambda>c. \<not> is_eol c) s" using None memchr_eol_None by blast
  ultimately have "clean l" by (auto simp: clean_def is_eol_def list_all_iff)
  then show ?thesis by (rule clean_one_line)
next
  case (Some i)
  then have i: "i < length s" "is_eol (s ! i)" "list_all (\<lambda>c. \<not> is_eol c) (take i s)"
    using memchr_eol_Some by blast+
  have "l = take i s @ [s ! i]" using Some assms i(1) by (simp add: line_read_def take_Suc_conv_app_nth)
  with i show ?thesis by (auto simp: one_line_def clean_def is_eol_def list_all_iff)
qed

section \<open>Buffered readers\<close>

text \<open>What the documentation of \<open>AsyncBufRead\<close> promises: \<open>fill\<close> shows a non-empty piece of what is to
  come, at most a capacity long, unless the stream has ended; \<open>consume\<close> takes bytes away.  \<open>rest\<close> is
  all that is to come.\<close>

locale buffered =
  fixes fill :: "('r, 'e) filler" and consume :: "'r consumer" and rest :: "'r \<Rightarrow> string"
    and capacity :: nat
  assumes fill_rest: "fill r = (res, r') \<Longrightarrow> rest r' = rest r"
    and fill_prefix: "fill r = (Inr available, r') \<Longrightarrow> \<exists>later. rest r = available @ later"
    and fill_capacity: "fill r = (Inr available, r') \<Longrightarrow> length available \<le> capacity"
    and fill_end: "fill r = (Inr [], r') \<Longrightarrow> rest r = []"
    and consume_rest: "fill r = (Inr available, r') \<Longrightarrow> used \<le> length available \<Longrightarrow>
      rest (consume used r') = drop used (rest r)"
begin

lemma fill_take: "fill r = (Inr available, r') \<Longrightarrow> available = take (length available) (rest r)"
  using fill_prefix by fastforce

lemma read_line_sound:
  "read_line fill consume r bytes n = (Inr k, r', bytes', n') \<Longrightarrow>
   \<exists>l used. bytes' = bytes @ l \<and> k = ri_read n + used \<and> line_read (rest r) l used
     \<and> rest r' = drop used (rest r)"
proof (induction "MAX_READ_PER_MESSAGE - ri_count n" arbitrary: r bytes n rule: less_induct)
  case less
  note run = less.prems [unfolded read_line.simps [of fill consume r bytes n]]
  from run obtain available r1 where f: "fill r = (Inr available, r1)"
    by (auto split: if_splits prod.splits sum.splits)
  obtain l d used where s: "scan_line available = (l, d, used)" by (cases "scan_line available")
  obtain later where later: "rest r = available @ later" using fill_prefix [OF f] by blast
  have used: "length l \<le> used" "used \<le> length available" using scan_line_used [OF s] by blast+
  have rest1: "rest (consume used r1) = drop used (rest r)" using consume_rest [OF f used(2)] .
  show ?case
  proof (cases "d \<or> used = 0")
    case True
    then have res: "k = ri_read n + used" "r' = consume used r1" "bytes' = bytes @ l"
      using run f s by (auto simp: Let_def split: if_splits)
    have "line_read (rest r) l used"
    proof (cases d)
      case True
      then show ?thesis using scan_line_done s later by simp
    next
      case False
      then have "used = 0" using True by simp
      then have "available = []" "l = []" using scan_line_more(1,2) [of available l used] s False by auto
      then show ?thesis using fill_end f \<open>used = 0\<close> by (simp add: line_read_def)
    qed
    with res rest1 show ?thesis by blast
  next
    case False
    let ?n = "(set_limit available n)\<lparr>ri_read := ri_read (set_limit available n) + used\<rparr>"
    have more: "read_line fill consume (consume used r1) (bytes @ l) (?n\<lparr>ri_count := ri_count ?n + 1\<rparr>)
        = (Inr k, r', bytes', n')"
      using run f s False by (simp add: Let_def split: if_splits)
    have guards: "\<not> MAX_READ_PER_MESSAGE \<le> ri_count n" "\<not> (0 < ri_limit n \<and> ri_limit n \<le> ri_read n)"
      using run by (auto split: if_splits)
    have "\<exists>l2 used2. bytes' = (bytes @ l) @ l2 \<and> k = ri_read (?n\<lparr>ri_count := ri_count ?n + 1\<rparr>) + used2
        \<and> line_read (rest (consume used r1)) l2 used2
        \<and> rest r' = drop used2 (rest (consume used r1))"
      by (rule less.hyps [OF _ more]) (use guards in simp)
    then obtain l2 used2 where *: "bytes' = (bytes @ l) @ l2" "k = ri_read n + used + used2"
      "line_read (rest (consume used r1)) l2 used2" "rest r' = drop used2 (rest (consume used r1))"
      by auto
    have "l = available" "used = length available"
      and ext: "line_read later m j \<Longrightarrow> line_read (available @ later) (available @ m) (length available + j)" for m j
      using scan_line_more [of available l used] s False by auto
    then have "line_read (rest r) (l @ l2) (used + used2)" using * rest1 later by simp
    with * rest1 show ?thesis by (intro exI [of _ "l @ l2"] exI [of _ "used + used2"]) (simp add: add.commute)
  qed
qed

text \<open>Whatever the outcome, the bytes kept are bounded by the limit and one piece.\<close>

lemma read_line_bound:
  assumes "0 < ri_message_max n"
  shows "read_line fill consume r bytes n = (res, r', bytes', n') \<Longrightarrow>
    (ri_limit n = 0 \<longrightarrow> ri_read n = 0) \<Longrightarrow> ri_limit n \<le> limit \<Longrightarrow>
    MAX_TAG_LENGTH + ri_message_max n \<le> limit \<Longrightarrow> ri_read n \<le> limit + capacity \<Longrightarrow>
    length bytes' + ri_read n \<le> length bytes + limit + capacity"
  using assms
proof (induction "MAX_READ_PER_MESSAGE - ri_count n" arbitrary: r bytes n rule: less_induct)
  case less
  note run = less.prems(1) [unfolded read_line.simps [of fill consume r bytes n]]
  show ?case
  proof (cases "MAX_READ_PER_MESSAGE \<le> ri_count n \<or> (0 < ri_limit n \<and> ri_limit n \<le> ri_read n)")
    case True
    then have "bytes' = bytes" using run by (auto split: if_splits)
    then show ?thesis using less.prems by simp
  next
    case guards: False
    then have fewer: "MAX_READ_PER_MESSAGE - Suc (ri_count n) < MAX_READ_PER_MESSAGE - ri_count n" by linarith
    from guards have small: "ri_read n \<le> limit" using less.prems by linarith
    obtain x r1 where f: "fill r = (x, r1)" by fastforce
    show ?thesis
    proof (cases x)
      case (Inl e)
      then have "bytes' = bytes" using run f guards by (auto split: if_splits)
      then show ?thesis using small by simp
    next
      case (Inr available)
      obtain l d used where s: "scan_line available = (l, d, used)" by (cases "scan_line available")
      have used: "length l \<le> used" "used \<le> length available" "used \<le> capacity"
        using scan_line_used [OF s] fill_capacity f Inr by fastforce+
      show ?thesis
      proof (cases "d \<or> used = 0")
        case True
        then have "bytes' = bytes @ l" using run f s Inr guards by (auto simp: Let_def split: if_splits)
        then show ?thesis using small used by simp
      next
        case False
        let ?n = "(set_limit available n)\<lparr>ri_read := ri_read (set_limit available n) + used\<rparr>"
        let ?m = "?n\<lparr>ri_count := ri_count ?n + 1\<rparr>"
        have more: "read_line fill consume (consume used r1) (bytes @ l) ?m = (res, r', bytes', n')"
          using run f s Inr guards False by (simp add: Let_def split: if_splits)
        have "available \<noteq> []" using False used by auto
        then have m: "ri_limit ?m \<noteq> 0" "ri_limit ?m \<le> limit" "ri_message_max ?m = ri_message_max n"
          "ri_read ?m = ri_read n + used"
          using less.prems by (auto simp: set_limit_def)
        have "length bytes' + ri_read ?m \<le> length (bytes @ l) + limit + capacity"
          by (rule less.hyps [OF _ more]) (use fewer m less.prems small used in simp_all)
        then show ?thesis using used m by simp
      qed
    qed
  qed
qed

end

text \<open>The number of times the connection is looked at is a ghost count.\<close>

definition counting :: "('r, 'e) filler \<Rightarrow> ('r \<times> nat, 'e) filler" where
  "counting fill = (\<lambda>(r, k). let (x, r) = fill r in (x, (r, Suc k)))"

definition counting_consume :: "'r consumer \<Rightarrow> ('r \<times> nat) consumer" where
  "counting_consume consume = (\<lambda>used (r, k). (consume used r, k))"

lemma read_line_fills:
  "read_line (counting fill) (counting_consume consume) r bytes n = (res, r', bytes', n') \<Longrightarrow>
   snd r' \<le> snd r + (MAX_READ_PER_MESSAGE - ri_count n)"
proof (induction "MAX_READ_PER_MESSAGE - ri_count n" arbitrary: r bytes n rule: less_induct)
  case less
  note run = less.prems [unfolded read_line.simps [of "counting fill" "counting_consume consume" r bytes n]]
  obtain r0 k0 where r: "r = (r0, k0)" by fastforce
  show ?case
  proof (cases "MAX_READ_PER_MESSAGE \<le> ri_count n \<or> (0 < ri_limit n \<and> ri_limit n \<le> ri_read n)")
    case True
    then show ?thesis using run by (auto split: if_splits)
  next
    case guards: False
    then have fewer: "MAX_READ_PER_MESSAGE - Suc (ri_count n) < MAX_READ_PER_MESSAGE - ri_count n" by linarith
    obtain x r1 where f: "fill r0 = (x, r1)" by fastforce
    then have cf: "counting fill r = (x, (r1, Suc k0))" by (simp add: counting_def r)
    show ?thesis
    proof (cases x)
      case (Inl e)
      then show ?thesis using run cf guards r by (auto split: if_splits)
    next
      case (Inr available)
      obtain l d used where s: "scan_line available = (l, d, used)" by (cases "scan_line available")
      have cc: "counting_consume consume used (r1, Suc k0) = (consume used r1, Suc k0)"
        by (simp add: counting_consume_def)
      show ?thesis
      proof (cases "d \<or> used = 0")
        case True
        then have "r' = (consume used r1, Suc k0)" using run cf cc s Inr guards by (auto simp: Let_def split: if_splits)
        then show ?thesis using guards r by (simp add: le_diff_conv) linarith
      next
        case False
        let ?n = "(set_limit available n)\<lparr>ri_read := ri_read (set_limit available n) + used\<rparr>"
        let ?m = "?n\<lparr>ri_count := ri_count ?n + 1\<rparr>"
        have more: "read_line (counting fill) (counting_consume consume) (consume used r1, Suc k0) (bytes @ l) ?m
            = (res, r', bytes', n')"
          using run cf cc s Inr guards False by (simp add: Let_def split: if_splits)
        have "snd r' \<le> snd (counting_consume consume used (r1, Suc k0)) + (MAX_READ_PER_MESSAGE - ri_count ?m)"
          using less.hyps [OF _ more] fewer cc by simp
        then show ?thesis using fewer r cc by simp
      qed
    qed
  qed
qed

section \<open>A reader in memory\<close>

text \<open>A connection whose bytes arrive in pieces of given sizes; the capacity is tokio's default.\<close>

record memory_reader =
  mr_rest :: string
  mr_pieces :: "nat list"

definition mem_piece :: "memory_reader \<Rightarrow> nat" where
  "mem_piece r = (case mr_pieces r of [] \<Rightarrow> 8192 | k # _ \<Rightarrow> min 8192 (max 1 k))"

definition mem_fill :: "(memory_reader, unit) filler" where
  "mem_fill r = (Inr (take (mem_piece r) (mr_rest r)), r)"

definition mem_consume :: "memory_reader consumer" where
  "mem_consume used r =
     r\<lparr>mr_rest := drop used (mr_rest r),
       mr_pieces := (if mem_piece r \<le> used then tl (mr_pieces r) else (mem_piece r - used) # tl (mr_pieces r))\<rparr>"

interpretation memory: buffered mem_fill mem_consume mr_rest 8192
proof unfold_locales
  fix r r' :: memory_reader and available used
  have piece: "1 \<le> mem_piece r" "mem_piece r \<le> 8192" by (auto simp: mem_piece_def split: list.splits)
  assume f: "mem_fill r = (Inr available, r')"
  then have a: "available = take (mem_piece r) (mr_rest r)" "r' = r" by (auto simp: mem_fill_def)
  then show "\<exists>later. mr_rest r = available @ later" using append_take_drop_id [of "mem_piece r" "mr_rest r"] by (metis (full_types))
  show "length available \<le> 8192" using a piece by simp
  show "mr_rest (mem_consume used r') = drop used (mr_rest r)" using a by (simp add: mem_consume_def)
next
  fix r r' :: memory_reader
  have "1 \<le> mem_piece r" by (auto simp: mem_piece_def split: list.splits)
  moreover assume "mem_fill r = (Inr [], r')"
  ultimately show "mr_rest r = []" by (auto simp: mem_fill_def)
qed (auto simp: mem_fill_def)

section \<open>Properties\<close>

lemma read_message_ok:
  assumes "buffered fill consume rest capacity"
    and "read_message fill consume r message_max [] = (Inr k, r', l)"
  shows "line_read (rest r) l k \<and> rest r' = drop k (rest r) \<and> from_utf8_ok l"
proof -
  obtain n where "read_line fill consume r [] (read_info_new message_max) = (Inr k, r', l, n)" "from_utf8_ok l"
    using assms(2) by (auto simp: read_message_def split: prod.splits sum.splits if_splits)
  then show ?thesis
    using buffered.read_line_sound [OF assms(1)] by (fastforce simp: read_info_new_def)
qed

text \<open>C33: The reader cuts the stream into lines.  When \<open>read_message\<close> answers with \<open>k\<close>, however the
  bytes arrived, the message is exactly the first line of the stream, up to and with its CR or LF (or
  all that is left, at the end of the stream); exactly \<open>k\<close> bytes are gone from the stream, the bytes
  of the message and at most the LF of a CRLF; the message is UTF-8, and its only line end is its
  last byte.\<close>

theorem reader_delivers_lines:
  assumes "buffered fill consume rest capacity"
    and "read_message fill consume r message_max [] = (Inr k, r', l)"
  shows "line_read (rest r) l k \<and> rest r' = drop k (rest r) \<and> from_utf8_ok l \<and> one_line l"
  using read_message_ok [OF assms] line_read_one_line by blast

theorem reader_delivers_lines_witness:
  "line_read (''PING a'' @ [CHR 0x0D, CHR 0x0A] @ ''QUIT'') (''PING a'' @ [CHR 0x0D]) 8
   \<and> one_line (''PING a'' @ [CHR 0x0D])"
proof -
  let ?r = "\<lparr>mr_rest = ''PING a'' @ [CHR 0x0D, CHR 0x0A] @ ''QUIT'', mr_pieces = [3, 100]\<rparr>"
  have "read_message mem_fill mem_consume ?r 512 [] =
      (Inr 8, \<lparr>mr_rest = ''QUIT'', mr_pieces = [95]\<rparr>, ''PING a'' @ [CHR 0x0D])"
    by (simp add: read_message_def read_info_new_def read_line.simps mem_fill_def mem_consume_def mem_piece_def
        MAX_READ_PER_MESSAGE_def MAX_TAG_LENGTH_def set_limit_def scan_line_def is_eol_def from_utf8_ok_def of_char_def)
  from reader_delivers_lines [OF memory.buffered_axioms this] show ?thesis by simp
qed

text \<open>C34: The reader's memory is bounded.  Whatever a client sends, and whatever the outcome, the line
  reader holds at most 4096 bytes for tags, the maximum length of a message and one buffer full of
  bytes; and it looks at the connection at most four times per message, so it always comes to an
  end.\<close>

theorem reader_bounded:
  assumes "buffered fill consume rest capacity" and "0 < message_max"
  shows "length (fst (snd (snd (read_line fill consume r [] (read_info_new message_max)))))
      \<le> MAX_TAG_LENGTH + message_max + capacity
    \<and> snd (fst (snd (read_line (counting fill) (counting_consume consume) (r, 0) [] (read_info_new message_max))))
      \<le> MAX_READ_PER_MESSAGE"
proof
  obtain res r' bytes' n' where run: "read_line fill consume r [] (read_info_new message_max) = (res, r', bytes', n')"
    by (cases "read_line fill consume r [] (read_info_new message_max)")
  have "length bytes' + ri_read (read_info_new message_max) \<le> length ([] :: string) + (MAX_TAG_LENGTH + message_max) + capacity"
    by (rule buffered.read_line_bound [OF assms(1) _ run]) (use assms(2) in \<open>simp_all add: read_info_new_def\<close>)
  with run show "length (fst (snd (snd (read_line fill consume r [] (read_info_new message_max)))))
      \<le> MAX_TAG_LENGTH + message_max + capacity" by simp
next
  obtain res r' bytes' n' where run: "read_line (counting fill) (counting_consume consume) (r, 0) []
      (read_info_new message_max) = (res, r', bytes', n')"
    by (cases "read_line (counting fill) (counting_consume consume) (r, 0) [] (read_info_new message_max)")
  from read_line_fills [OF run]
  show "snd (fst (snd (read_line (counting fill) (counting_consume consume) (r, 0) [] (read_info_new message_max))))
      \<le> MAX_READ_PER_MESSAGE"
    using run by simp
qed

theorem reader_bounded_witness:
  "length (fst (snd (snd (read_line mem_fill mem_consume \<lparr>mr_rest = ''PING'', mr_pieces = []\<rparr> [] (read_info_new 512)))))
    \<le> 12800"
  using reader_bounded [OF memory.buffered_axioms, of 512 "\<lparr>mr_rest = ''PING'', mr_pieces = []\<rparr>"]
  by (simp add: MAX_TAG_LENGTH_def)

text \<open>The maximum length is only checked between two looks at the connection: a longer line that is
  already there is delivered.\<close>

lemma reader_accepts_long_line:
  "\<exists>r' l. read_message mem_fill mem_consume \<lparr>mr_rest = replicate 20 (CHR ''a'') @ [CHR 0x0A], mr_pieces = []\<rparr> 10 []
     = (Inr 21, r', l)"
proof -
  have "fst (read_message mem_fill mem_consume \<lparr>mr_rest = replicate 20 (CHR ''a'') @ [CHR 0x0A], mr_pieces = []\<rparr> 10 [])
      = Inr 21"
    by (simp add: read_message_def read_info_new_def read_line.simps mem_fill_def mem_consume_def mem_piece_def
        MAX_READ_PER_MESSAGE_def MAX_TAG_LENGTH_def set_limit_def scan_line_def is_eol_def from_utf8_ok_def of_char_def
        numeral_eq_Suc)
  then show ?thesis by (metis prod.collapse)
qed

end
