(* ===== verification/ModeQuery.thy ===== *)
theory ModeQuery
  imports Prelude
begin

text \<open>
  \<open>ellidri-tokens/src/mode.rs\<close>: the parsers of mode strings.  The iterators of the source are the
  lists of their items.  A mode letter is a Rust \<open>char\<close>, so a string of one to four bytes.
\<close>

section \<open>Letters and signs\<close>

definition USER_MODES :: string where "USER_MODES = ''aio''"
definition SIMPLE_CHAN_MODES :: string where "SIMPLE_CHAN_MODES = ''imnst''"
definition EXTENDED_CHAN_MODES :: string where "EXTENDED_CHAN_MODES = ''beIkl''"
definition CHANMODES :: string where "CHANMODES = ''CHANMODES=beI,k,l,imnst''"

text \<open>\<open>SimpleQuery\<close>: its state is the rest of the text and the current sign.\<close>

fun simple_query_loop :: "bool \<Rightarrow> string list \<Rightarrow> (bool \<times> string) list" where
  "simple_query_loop value [] = []"
| "simple_query_loop value (c # cs) =
     (if c = ''+'' then simple_query_loop True cs
      else if c = ''-'' then simple_query_loop False cs
      else (value, c) # simple_query_loop value cs)"

definition simple_query :: "string \<Rightarrow> (bool \<times> string) list" where
  "simple_query modes = simple_query_loop True (chars modes)"

datatype mode_error =
    Unknown string bool
  | MissingParam string bool
  | Unchangeable string bool

section \<open>User modes\<close>

datatype user_change = Invisible bool | DeOperator

fun user_change_value :: "user_change \<Rightarrow> bool" where
  "user_change_value (Invisible v) = v"
| "user_change_value DeOperator = False"

fun user_change_symbol :: "user_change \<Rightarrow> string" where
  "user_change_symbol (Invisible _) = ''i''"
| "user_change_symbol DeOperator = ''o''"

definition user_query_item :: "bool \<times> string \<Rightarrow> mode_error + user_change" where
  "user_query_item item =
     (let (value, mode) = item
      in if mode = ''i'' then Inr (Invisible value)
         else if mode = ''o'' \<and> \<not> value then Inr DeOperator
         else if mode \<in> set (chars USER_MODES) then Inl (Unchangeable mode value)
         else Inl (Unknown mode value))"

definition user_query :: "string \<Rightarrow> (mode_error + user_change) list" where
  "user_query modes = map user_query_item (simple_query modes)"

section \<open>Channel modes\<close>

datatype channel_change =
    InviteOnly bool
  | Moderated bool
  | NoPrivMsgFromOutside bool
  | Secret bool
  | TopicRestricted bool
  | Key bool string
  | UserLimit "string option"
  | GetBans
  | GetExceptions
  | GetInvitations
  | ChangeBan bool string
  | ChangeException bool string
  | ChangeInvitation bool string
  | ChangeOperator bool string
  | ChangeHalfop bool string
  | ChangeVoice bool string

fun change_value :: "channel_change \<Rightarrow> bool" where
  "change_value (InviteOnly v) = v"
| "change_value (Moderated v) = v"
| "change_value (NoPrivMsgFromOutside v) = v"
| "change_value (Secret v) = v"
| "change_value (TopicRestricted v) = v"
| "change_value (Key v _) = v"
| "change_value (ChangeBan v _) = v"
| "change_value (ChangeException v _) = v"
| "change_value (ChangeInvitation v _) = v"
| "change_value (ChangeOperator v _) = v"
| "change_value (ChangeHalfop v _) = v"
| "change_value (ChangeVoice v _) = v"
| "change_value (UserLimit l) = (l \<noteq> None)"
| "change_value _ = False"

fun change_symbol :: "channel_change \<Rightarrow> string" where
  "change_symbol (InviteOnly _) = ''i''"
| "change_symbol (Moderated _) = ''m''"
| "change_symbol (NoPrivMsgFromOutside _) = ''n''"
| "change_symbol (Secret _) = ''s''"
| "change_symbol (TopicRestricted _) = ''t''"
| "change_symbol (Key _ _) = ''k''"
| "change_symbol (UserLimit _) = ''l''"
| "change_symbol (ChangeBan _ _) = ''b''"
| "change_symbol GetBans = ''b''"
| "change_symbol (ChangeException _ _) = ''e''"
| "change_symbol GetExceptions = ''e''"
| "change_symbol (ChangeInvitation _ _) = ''I''"
| "change_symbol GetInvitations = ''I''"
| "change_symbol (ChangeOperator _ _) = ''o''"
| "change_symbol (ChangeHalfop _ _) = ''h''"
| "change_symbol (ChangeVoice _ _) = ''v''"

fun change_param :: "channel_change \<Rightarrow> string option" where
  "change_param (Key _ p) = Some p"
| "change_param (ChangeBan _ p) = Some p"
| "change_param (ChangeException _ p) = Some p"
| "change_param (ChangeInvitation _ p) = Some p"
| "change_param (ChangeOperator _ p) = Some p"
| "change_param (ChangeHalfop _ p) = Some p"
| "change_param (ChangeVoice _ p) = Some p"
| "change_param (UserLimit l) = l"
| "change_param _ = None"

text \<open>One call of the closure: the item it returns and the parameters left in the iterator.\<close>

definition channel_query_item ::
  "bool \<times> string \<Rightarrow> string list \<Rightarrow> (mode_error + channel_change) \<times> string list" where
  "channel_query_item item params =
     (let (value, mode) = item
      in if mode = ''i'' then (Inr (InviteOnly value), params)
         else if mode = ''m'' then (Inr (Moderated value), params)
         else if mode = ''n'' then (Inr (NoPrivMsgFromOutside value), params)
         else if mode = ''s'' then (Inr (Secret value), params)
         else if mode = ''t'' then (Inr (TopicRestricted value), params)
         else if mode = ''k'' then
           (case params of
              p # ps \<Rightarrow> (Inr (Key value p), ps)
            | [] \<Rightarrow> if \<not> value then (Inr (Key False ''*''), [])
                    else (Inl (MissingParam ''k'' value), []))
         else if mode = ''l'' then
           (if value then
              (case params of
                 p # ps \<Rightarrow> (Inr (UserLimit (Some p)), ps)
               | [] \<Rightarrow> (Inl (MissingParam ''l'' value), []))
            else (Inr (UserLimit None), params))
         else if mode = ''b'' then
           (case params of
              p # ps \<Rightarrow> (Inr (ChangeBan value p), ps)
            | [] \<Rightarrow> (Inr GetBans, []))
         else if mode = ''e'' then
           (case params of
              p # ps \<Rightarrow> (Inr (ChangeException value p), ps)
            | [] \<Rightarrow> (Inr GetExceptions, []))
         else if mode = ''I'' then
           (case params of
              p # ps \<Rightarrow> (Inr (ChangeInvitation value p), ps)
            | [] \<Rightarrow> (Inr GetInvitations, []))
         else if mode = ''o'' then
           (case params of
              p # ps \<Rightarrow> (Inr (ChangeOperator value p), ps)
            | [] \<Rightarrow> (Inl (MissingParam ''o'' value), []))
         else if mode = ''h'' then
           (case params of
              p # ps \<Rightarrow> (Inr (ChangeHalfop value p), ps)
            | [] \<Rightarrow> (Inl (MissingParam ''h'' value), []))
         else if mode = ''v'' then
           (case params of
              p # ps \<Rightarrow> (Inr (ChangeVoice value p), ps)
            | [] \<Rightarrow> (Inl (MissingParam ''v'' value), []))
         else (Inl (Unknown mode value), params))"

fun channel_query_loop ::
  "(bool \<times> string) list \<Rightarrow> string list \<Rightarrow> (mode_error + channel_change) list" where
  "channel_query_loop [] params = []"
| "channel_query_loop (item # items) params =
     (let (r, params) = channel_query_item item params in r # channel_query_loop items params)"

definition channel_query :: "string \<Rightarrow> string list \<Rightarrow> (mode_error + channel_change) list" where
  "channel_query modes params =
     channel_query_loop (simple_query modes) (filter (\<lambda>p. p \<noteq> []) params)"

definition simple_channel_query :: "string \<Rightarrow> (mode_error + channel_change) list" where
  "simple_channel_query modes = channel_query modes []"

definition is_channel_mode_string :: "string \<Rightarrow> bool" where
  "is_channel_mode_string s \<longleftrightarrow> list_all (\<lambda>r. \<not> isl r) (simple_channel_query s)"

section \<open>Facts\<close>

text \<open>Every item of the text yields one result.\<close>

lemma length_channel_query: "length (channel_query modes params) = length (simple_query modes)"
proof -
  have "length (channel_query_loop items ps) = length items" for items ps
    by (induction items ps rule: channel_query_loop.induct) (auto split: prod.splits)
  then show ?thesis by (simp add: channel_query_def)
qed

text \<open>The changes are letter for letter those of the text.\<close>

lemma channel_query_item_symbol:
  "channel_query_item (v, m) ps = (Inr ch, ps') \<Longrightarrow> change_symbol ch = m"
  by (auto simp: channel_query_item_def split: if_splits list.splits)

lemma channel_query_item_value:
  "channel_query_item (v, m) ps = (Inr ch, ps') \<Longrightarrow>
     change_value ch = (v \<and> ch \<notin> {GetBans, GetExceptions, GetInvitations})"
  by (auto simp: channel_query_item_def split: if_splits list.splits)

lemma channel_query_item_params:
  "channel_query_item (v, m) ps = (r, ps') \<Longrightarrow> ps' = ps \<or> (ps \<noteq> [] \<and> ps' = tl ps)"
  by (auto simp: channel_query_item_def split: if_splits list.splits)

text \<open>A parameter of a change is one of those given, or the \<open>*\<close> that stands for a missing key.\<close>

lemma channel_query_item_param:
  "channel_query_item (v, m) ps = (Inr ch, ps') \<Longrightarrow> change_param ch = Some p \<Longrightarrow>
     (ps \<noteq> [] \<and> p = hd ps \<and> ps' = tl ps) \<or> ch = Key False ''*''"
  by (auto simp: channel_query_item_def split: if_splits list.splits)

lemma channel_query_loop_param:
  "Inr ch \<in> set (channel_query_loop items ps) \<Longrightarrow> change_param ch = Some p \<Longrightarrow>
     p \<in> set ps \<or> ch = Key False ''*''"
proof (induction items ps rule: channel_query_loop.induct)
  case (2 item items ps)
  obtain v m r ps' where i: "item = (v, m)" "channel_query_item (v, m) ps = (r, ps')"
    by (metis surj_pair)
  then have sub: "set ps' \<subseteq> set ps"
    using channel_query_item_params [OF i(2)] by (cases ps) auto
  show ?case
  proof (cases "r = Inr ch")
    case True
    then show ?thesis using channel_query_item_param [of v m ps ch ps' p] i "2.prems" by auto
  next
    case False
    then show ?thesis using 2 i sub by auto
  qed
qed simp

text \<open>Without parameters no change carries one, but for the key that is taken away.\<close>

lemma simple_channel_query_no_param:
  "Inr ch \<in> set (simple_channel_query modes) \<Longrightarrow> change_param ch = None \<or> ch = Key False ''*''"
  unfolding simple_channel_query_def channel_query_def
  by (cases "change_param ch") (auto dest: channel_query_loop_param)

end
