(* ===== verification/HashTable.thy ===== *)
theory HashTable
  imports Unicase
begin

text \<open>
  The tables of the server: \<open>HashMap\<close> and \<open>Slab\<close> as association lists.  The order of the list is
  the iteration order, which Rust leaves open: theorems quantify over the table, so they hold for
  every order of the entries it has.  Keys are compared through a function \<open>f\<close>: the identity \<open>ikey\<close> for
  the numeric identifiers, \<^const>\<open>unicase_hash\<close> for \<open>UniCase\<close> strings.

  The locale \<open>hash_map\<close> states what the server relies on; it is interpreted for both kinds of key.
\<close>

named_theorems table "rewrite rules for tables"

section \<open>Operations\<close>

type_synonym ('k, 'v) table = "('k \<times> 'v) list"
type_synonym 'v itable = "(nat, 'v) table"
type_synonym 'v utable = "(string, 'v) table"

fun tget :: "('k \<Rightarrow> 'c) \<Rightarrow> 'k \<Rightarrow> ('k, 'v) table \<Rightarrow> 'v option" where
  "tget f k [] = None"
| "tget f k (e # m) = (if f (fst e) = f k then Some (snd e) else tget f k m)"

text \<open>\<open>HashMap::insert\<close> replaces the value of a present key and keeps the stored key.\<close>

fun tput :: "('k \<Rightarrow> 'c) \<Rightarrow> 'k \<Rightarrow> 'v \<Rightarrow> ('k, 'v) table \<Rightarrow> ('k, 'v) table" where
  "tput f k v [] = [(k, v)]"
| "tput f k v (e # m) =
     (if f (fst e) = f k then (fst e, v) # m else e # tput f k v m)"

definition tdel :: "('k \<Rightarrow> 'c) \<Rightarrow> 'k \<Rightarrow> ('k, 'v) table \<Rightarrow> ('k, 'v) table" where
  "tdel f k m = filter (\<lambda>e. f (fst e) \<noteq> f k) m"

text \<open>\<open>get_mut\<close> followed by an assignment through the reference.\<close>

definition tupd :: "('k \<Rightarrow> 'c) \<Rightarrow> 'k \<Rightarrow> ('v \<Rightarrow> 'v) \<Rightarrow> ('k, 'v) table \<Rightarrow> ('k, 'v) table" where
  "tupd f k g m = map (\<lambda>e. if f (fst e) = f k then (fst e, g (snd e)) else e) m"

definition tkeys :: "('k, 'v) table \<Rightarrow> 'k list" where
  "tkeys m = map fst m"

definition thas :: "('k \<Rightarrow> 'c) \<Rightarrow> 'k \<Rightarrow> ('k, 'v) table \<Rightarrow> bool" where
  "thas f k m \<longleftrightarrow> tget f k m \<noteq> None"

definition tok :: "('k \<Rightarrow> 'c) \<Rightarrow> ('k, 'v) table \<Rightarrow> bool" where
  "tok f m \<longleftrightarrow> distinct (map (f \<circ> fst) m)"

text \<open>Numeric identifiers are their own keys.\<close>

definition ikey :: "nat \<Rightarrow> nat" where
  "ikey i = i"

lemma ikey_eq [simp]: "ikey i = ikey j \<longleftrightarrow> i = j"
  by (simp add: ikey_def)

abbreviation iget :: "nat \<Rightarrow> 'v itable \<Rightarrow> 'v option" where "iget \<equiv> tget ikey"
abbreviation iput :: "nat \<Rightarrow> 'v \<Rightarrow> 'v itable \<Rightarrow> 'v itable" where "iput \<equiv> tput ikey"
abbreviation idel :: "nat \<Rightarrow> 'v itable \<Rightarrow> 'v itable" where "idel \<equiv> tdel ikey"
abbreviation iupd :: "nat \<Rightarrow> ('v \<Rightarrow> 'v) \<Rightarrow> 'v itable \<Rightarrow> 'v itable" where "iupd \<equiv> tupd ikey"
abbreviation ihas :: "nat \<Rightarrow> 'v itable \<Rightarrow> bool" where "ihas \<equiv> thas ikey"
abbreviation uget :: "string \<Rightarrow> 'v utable \<Rightarrow> 'v option" where "uget \<equiv> tget ukey"
abbreviation uput :: "string \<Rightarrow> 'v \<Rightarrow> 'v utable \<Rightarrow> 'v utable" where "uput \<equiv> tput ukey"
abbreviation udel :: "string \<Rightarrow> 'v utable \<Rightarrow> 'v utable" where "udel \<equiv> tdel ukey"
abbreviation uupd :: "string \<Rightarrow> ('v \<Rightarrow> 'v) \<Rightarrow> 'v utable \<Rightarrow> 'v utable" where "uupd \<equiv> tupd ukey"

section \<open>Laws\<close>

lemma tget_tput [simp, table]:
  "tget f k (tput f k' v m) = (if f k = f k' then Some v else tget f k m)"
  by (induction m) auto

lemma tget_tdel [simp, table]:
  "tget f k (tdel f k' m) = (if f k = f k' then None else tget f k m)"
  by (induction m) (auto simp: tdel_def)

lemma tget_tupd [simp, table]:
  "tget f k (tupd f k' g m) = (if f k = f k' then map_option g (tget f k m) else tget f k m)"
  by (induction m) (auto simp: tupd_def)

lemma tget_cong: "f k = f k' \<Longrightarrow> tget f k m = tget f k' m"
  by (induction m) auto

lemma tget_SomeD: "tget f k m = Some v \<Longrightarrow> \<exists>k'. (k', v) \<in> set m \<and> f k' = f k"
  by (induction m) (auto split: if_splits)

lemma tget_SomeE:
  assumes "tget f k m = Some v"
  obtains k' where "(k', v) \<in> set m" and "f k' = f k"
  using tget_SomeD [OF assms] by blast

lemma tget_None_iff: "tget f k m = None \<longleftrightarrow> f k \<notin> (f \<circ> fst) ` set m"
  by (induction m) auto

lemma tok_Nil [simp]: "tok f []"
  by (simp add: tok_def)

lemma tok_tkeys: "tok f m \<longleftrightarrow> distinct (map f (tkeys m))"
  by (simp add: tok_def tkeys_def)

lemma tget_in: "tok f m \<Longrightarrow> (k, v) \<in> set m \<Longrightarrow> tget f k m = Some v"
  unfolding tok_def by (induction m) (auto simp: image_iff)

lemma tupd_cong:
  assumes "\<And>v. tget f k m = Some v \<Longrightarrow> g v = h v" and "tok f m"
  shows "tupd f k g m = tupd f k h m"
proof -
  have "g b = h b" if "(a, b) \<in> set m" "f a = f k" for a b
    using tget_in [OF assms(2) that(1)] tget_cong [of f, OF that(2), of m] assms(1) by simp
  then show ?thesis by (auto simp: tupd_def)
qed

lemma tupd_same: "tupd f k (\<lambda>v. v) m = m"
proof -
  have "(if f (fst e) = f k then (fst e, snd e) else e) = e" for e :: "'a \<times> 'b" by simp
  then show ?thesis by (simp add: tupd_def)
qed

lemma tget_iff: "tok ikey m \<Longrightarrow> tget ikey k m = Some v \<longleftrightarrow> (k, v) \<in> set m"
  by (auto dest: tget_SomeD tget_in)

lemma keys_tput: "(f \<circ> fst) ` set (tput f k v m) = insert (f k) ((f \<circ> fst) ` set m)"
  by (induction m) auto

lemma tok_tput [simp, table]: "tok f m \<Longrightarrow> tok f (tput f k v m)"
proof (induction m)
  case (Cons e m)
  then have "tok f (tput f k v m)" by (simp add: tok_def)
  moreover have "f (fst e) \<notin> (f \<circ> fst) ` set m" using Cons.prems by (simp add: tok_def comp_def)
  ultimately show ?case
    using Cons.prems keys_tput [of f k v m]
    by (cases "f (fst e) = f k") (simp_all add: tok_def comp_def)
qed (simp add: tok_def)

lemma tok_filter: "tok f m \<Longrightarrow> tok f (filter P m)"
  unfolding tok_def by (induction m) auto

lemma tok_tdel [simp, table]: "tok f m \<Longrightarrow> tok f (tdel f k m)"
  by (simp add: tdel_def tok_filter)

lemma tok_tupd [simp, table]: "tok f (tupd f k g m) = tok f m"
  by (simp add: tok_def tupd_def comp_def if_distrib [of fst] cong: if_cong)

lemma tget_filter:
  "tok f m \<Longrightarrow> tget f k (filter P m) =
     (case List.find (\<lambda>e. f (fst e) = f k) m of
        None \<Rightarrow> None | Some e \<Rightarrow> if P e then Some (snd e) else None)"
proof (induction m)
  case (Cons e m)
  have "tget f k (filter P m) = None" if "f (fst e) = f k"
    using Cons.prems that by (auto simp: tok_def tget_None_iff image_iff)
  with Cons show ?case by (auto simp: tok_def)
qed simp

lemma tget_find: "tget f k m = map_option snd (List.find (\<lambda>e. f (fst e) = f k) m)"
  by (induction m) auto

lemma tget_filter_snd:
  "tok f m \<Longrightarrow> tget f k (filter (\<lambda>e. P (snd e)) m) =
     (case tget f k m of None \<Rightarrow> None | Some v \<Rightarrow> if P v then Some v else None)"
  unfolding tget_filter by (auto simp: tget_find split: option.splits)

lemma set_tput:
  "set (tput f k v m) \<subseteq> {e. e \<in> set m} \<union> {(k', v) | k'. f k' = f k \<and> (k' = k \<or> (\<exists>w. (k', w) \<in> set m))}"
  by (induction m) auto

lemma set_tdel [simp]: "set (tdel f k m) = {e \<in> set m. f (fst e) \<noteq> f k}"
  by (auto simp: tdel_def)

lemma set_tupd: "set (tupd f k g m) =
    (\<lambda>e. if f (fst e) = f k then (fst e, g (snd e)) else e) ` set m"
  by (simp add: tupd_def)

lemma tkeys_tupd [simp]: "tkeys (tupd f k g m) = tkeys m"
  by (induction m) (auto simp: tkeys_def tupd_def)

lemma thas_tput [simp, table]: "thas f k (tput f k' v m) \<longleftrightarrow> f k = f k' \<or> thas f k m"
  by (simp add: thas_def)

lemma thas_tdel [simp, table]: "thas f k (tdel f k' m) \<longleftrightarrow> f k \<noteq> f k' \<and> thas f k m"
  by (simp add: thas_def)

lemma thas_tupd [simp, table]: "thas f k (tupd f k' g m) \<longleftrightarrow> thas f k m"
  by (simp add: thas_def)

lemma ihas_iff: "ihas k m \<longleftrightarrow> k \<in> set (tkeys m)"
  by (auto simp: thas_def tget_None_iff tkeys_def image_iff simp del: not_None_eq)

section \<open>The interface of a hash map\<close>

text \<open>What a client of a table relies on, for keys compared by \<open>same\<close>.\<close>

locale hash_map =
  fixes same :: "'k \<Rightarrow> 'k \<Rightarrow> bool"
    and get :: "'k \<Rightarrow> 'm \<Rightarrow> 'v option"
    and put :: "'k \<Rightarrow> 'v \<Rightarrow> 'm \<Rightarrow> 'm"
    and del :: "'k \<Rightarrow> 'm \<Rightarrow> 'm"
    and upd :: "'k \<Rightarrow> ('v \<Rightarrow> 'v) \<Rightarrow> 'm \<Rightarrow> 'm"
  assumes same_refl: "same k k"
    and same_sym: "same k k' \<Longrightarrow> same k' k"
    and same_trans: "same k k' \<Longrightarrow> same k' k'' \<Longrightarrow> same k k''"
    and get_same: "same k k' \<Longrightarrow> get k m = get k' m"
    and get_put: "get k (put k' v m) = (if same k k' then Some v else get k m)"
    and get_del: "get k (del k' m) = (if same k k' then None else get k m)"
    and get_upd: "get k (upd k' g m) = (if same k k' then map_option g (get k m) else get k m)"
begin

lemma put_overwrites: "get k (put a v (put a w m)) = get k (put a v m)"
  by (simp add: get_put)

lemma put_commutes:
  assumes "\<not> same a b"
  shows "get k (put a v (put b w m)) = get k (put b w (put a v m))"
proof (cases "same k a \<and> same k b")
  case True
  then have "same a b" by (blast intro: same_sym same_trans)
  with assms show ?thesis by contradiction
next
  case False
  then show ?thesis by (auto simp: get_put)
qed

lemma del_after_put: "get k (del a (put a v m)) = get k (del a m)"
  by (simp add: get_put get_del)

lemma rename_key:
  "get k (put b v (del a m)) = (if same k b then Some v else if same k a then None else get k m)"
  by (simp add: get_put get_del)

lemma upd_absent: "get a m = None \<Longrightarrow> get k (upd a g m) = get k m"
  by (cases "same k a") (simp_all add: get_upd get_same [of k a])

end

interpretation imap: hash_map "(=) :: nat \<Rightarrow> nat \<Rightarrow> bool" iget iput idel iupd
  by unfold_locales (auto simp: table)

interpretation umap: hash_map "unicase_eq Ascii" uget uput udel uupd
proof unfold_locales
  fix k k' and m :: "'v utable"
  assume "unicase_eq Ascii k k'"
  then show "uget k m = uget k' m" by (intro tget_cong) (simp add: unicase_eq_iff_hash)
qed (auto simp: unicase_eq_iff_hash)

end
