(* ===== verification/Caps.thy ===== *)
theory Caps
  imports Prelude Commands
begin

text \<open>
  \<open>src/data/cap.rs\<close> and the errors of \<open>src/data/mod.rs\<close>: the capabilities a client can negotiate.
  The macro \<open>caps!\<close> makes one field per capability in the structures \<open>Capabilities\<close> and \<open>Diff\<close>:
  here a datatype of capabilities, and functions from it for the fields.
\<close>

section \<open>Errors of request parsing\<close>

datatype request_error =
    ErroneousNickname string
  | InvalidCap
  | InvalidCapCmd string
  | NoSuchChannel string
  | NoSuchNick string
  | NeedMoreParams command nat
  | UnknownCommand string

section \<open>Capabilities\<close>

datatype version = V300 | V302

definition version_from :: "string \<Rightarrow> version" where
  "version_from val = (if val = ''302'' then V302 else V300)"

datatype cap =
    ACCOUNT_NOTIFY
  | ACCOUNT_TAG
  | AWAY_NOTIFY
  | BATCH
  | CAP_NOTIFY
  | ECHO_MESSAGE
  | EXTENDED_JOIN
  | INVITE_NOTIFY
  | LABELED_RESPONSE
  | MESSAGE_TAGS
  | MULTI_PREFIX
  | SERVER_TIME
  | SETNAME
  | USERHOST_IN_NAMES
  | SASL

fun cap_str :: "cap \<Rightarrow> string" where
  "cap_str ACCOUNT_NOTIFY = ''account-notify''"
| "cap_str ACCOUNT_TAG = ''account-tag''"
| "cap_str AWAY_NOTIFY = ''away-notify''"
| "cap_str BATCH = ''batch''"
| "cap_str CAP_NOTIFY = ''cap-notify''"
| "cap_str ECHO_MESSAGE = ''echo-message''"
| "cap_str EXTENDED_JOIN = ''extended-join''"
| "cap_str INVITE_NOTIFY = ''invite-notify''"
| "cap_str LABELED_RESPONSE = ''labeled-response''"
| "cap_str MESSAGE_TAGS = ''message-tags''"
| "cap_str MULTI_PREFIX = ''multi-prefix''"
| "cap_str SERVER_TIME = ''server-time''"
| "cap_str SETNAME = ''setname''"
| "cap_str USERHOST_IN_NAMES = ''userhost-in-names''"
| "cap_str SASL = ''sasl''"

definition common_caps :: "cap list" where
  "common_caps =
    [ACCOUNT_NOTIFY, ACCOUNT_TAG, AWAY_NOTIFY, BATCH,
     CAP_NOTIFY, ECHO_MESSAGE, EXTENDED_JOIN, INVITE_NOTIFY,
     LABELED_RESPONSE, MESSAGE_TAGS, MULTI_PREFIX, SERVER_TIME,
     SETNAME, USERHOST_IN_NAMES]"

definition all_caps :: "cap list" where
  "all_caps = common_caps @ [SASL]"

definition LS_COMMON :: string where
  "LS_COMMON = concat (map (\<lambda>c. cap_str c @ '' '') common_caps)"

definition ls_common :: string where
  "ls_common = take (length LS_COMMON - 1) LS_COMMON"

definition cap_query :: "string \<Rightarrow> (string \<times> bool) list" where
  "cap_query buf =
     map (\<lambda>word. if hd word = CHR ''-'' then (tl word, False) else (word, True))
       (split_whitespace buf)"

section \<open>Changes\<close>

type_synonym cap_diff = "cap \<Rightarrow> bool option"
type_synonym capabilities = "cap \<Rightarrow> bool"

definition cap_diff_default :: cap_diff where
  "cap_diff_default = (\<lambda>_. None)"

definition capabilities_default :: capabilities where
  "capabilities_default = (\<lambda>_. False)"

text \<open>One \<open>if let\<close> of the macro per capability, then the last space is popped.\<close>

definition pop_if_longer :: "nat \<Rightarrow> string \<Rightarrow> string" where
  "pop_if_longer len buf = (if len < length buf then butlast buf else buf)"

definition cap_diff_write :: "cap_diff \<Rightarrow> string \<Rightarrow> string" where
  "cap_diff_write diff buf =
     pop_if_longer (length buf)
       (fold (\<lambda>c buf. case diff c of
                None \<Rightarrow> buf
              | Some enable \<Rightarrow> (if \<not> enable then buf @ ''-'' else buf) @ cap_str c @ '' '')
         all_caps buf)"

fun cap_diff_loop :: "(string \<times> bool) list \<Rightarrow> cap_diff \<Rightarrow> request_error + cap_diff" where
  "cap_diff_loop [] res = Inr res"
| "cap_diff_loop ((capability, enable) # q) res =
     (case List.find (\<lambda>c. cap_str c = capability) all_caps of
        Some c \<Rightarrow> cap_diff_loop q (res(c := Some enable))
      | None \<Rightarrow> Inl InvalidCap)"

definition cap_diff_try_from :: "string \<Rightarrow> request_error + cap_diff" where
  "cap_diff_try_from val = cap_diff_loop (cap_query val) cap_diff_default"

definition capabilities_update :: "cap_diff \<Rightarrow> capabilities \<Rightarrow> capabilities" where
  "capabilities_update diff cs =
     (\<lambda>c. case diff c of Some change \<Rightarrow> change | None \<Rightarrow> cs c)"

definition capabilities_write :: "capabilities \<Rightarrow> string \<Rightarrow> string" where
  "capabilities_write cs buf =
     pop_if_longer (length buf)
       (fold (\<lambda>c buf. if cs c then buf @ cap_str c @ '' '' else buf) all_caps buf)"

definition has_labeled_response :: "capabilities \<Rightarrow> bool" where
  "has_labeled_response cs \<longleftrightarrow> cs BATCH \<and> cs LABELED_RESPONSE"

definition has_message_tags :: "capabilities \<Rightarrow> bool" where
  "has_message_tags cs \<longleftrightarrow> cs MESSAGE_TAGS \<or> cs SERVER_TIME"

definition is_capable_of :: "capabilities \<Rightarrow> command \<Rightarrow> bool" where
  "is_capable_of cs command =
     (case command of
        Cmd_Authenticate \<Rightarrow> cs SASL
      | Cmd_SetName \<Rightarrow> cs SETNAME
      | Cmd_TagMsg \<Rightarrow> cs MESSAGE_TAGS
      | _ \<Rightarrow> True)"

section \<open>Facts\<close>

lemma all_caps_complete: "c \<in> set all_caps"
  by (cases c) (simp_all add: all_caps_def common_caps_def)

lemma distinct_all_caps: "distinct all_caps"
  by (simp add: all_caps_def common_caps_def)

text \<open>Capabilities form a finite type, so that their functions can be compared by evaluation.\<close>

instantiation cap :: enum
begin

definition enum_cap :: "cap list" where "enum_cap = all_caps"
definition enum_all_cap :: "(cap \<Rightarrow> bool) \<Rightarrow> bool" where "enum_all_cap P = list_all P all_caps"
definition enum_ex_cap :: "(cap \<Rightarrow> bool) \<Rightarrow> bool" where "enum_ex_cap P = list_ex P all_caps"

instance
  by standard (auto simp: enum_cap_def enum_all_cap_def enum_ex_cap_def all_caps_complete
      distinct_all_caps list_all_iff list_ex_iff)

end

lemma find_cap_str: "List.find (\<lambda>d. cap_str d = cap_str c) all_caps = Some c"
proof -
  have "list_all (\<lambda>c. List.find (\<lambda>d. cap_str d = cap_str c) all_caps = Some c) all_caps"
    by code_simp
  then show ?thesis using all_caps_complete [of c] by (simp add: list_all_iff)
qed

lemma cap_str_ok:
  "cap_str c \<noteq> []" "hd (cap_str c) \<noteq> CHR ''-''"
  "b \<in> set (cap_str c) \<Longrightarrow> is_ascii b \<and> b \<notin> set ascii_whitespace"
proof -
  have "list_all (\<lambda>c. cap_str c \<noteq> [] \<and> hd (cap_str c) \<noteq> CHR ''-''
      \<and> list_all (\<lambda>b. is_ascii b \<and> b \<notin> set ascii_whitespace) (cap_str c)) all_caps"
    by code_simp
  then have "cap_str c \<noteq> [] \<and> hd (cap_str c) \<noteq> CHR ''-''
      \<and> (\<forall>b \<in> set (cap_str c). is_ascii b \<and> b \<notin> set ascii_whitespace)"
    using all_caps_complete [of c] by (simp add: list_all_iff)
  then show "cap_str c \<noteq> []" "hd (cap_str c) \<noteq> CHR ''-''"
    "b \<in> set (cap_str c) \<Longrightarrow> is_ascii b \<and> b \<notin> set ascii_whitespace"
    by blast+
qed

text \<open>Words with single spaces between them are split into these words.\<close>

definition plain_word :: "string \<Rightarrow> bool" where
  "plain_word w \<longleftrightarrow> w \<noteq> [] \<and> (\<forall>b \<in> set w. is_ascii b \<and> b \<notin> set ascii_whitespace)"

lemma split_chars_word:
  "\<forall>ch \<in> set w. \<not> p ch \<Longrightarrow>
     split_chars p (w @ chs) = (case split_chars p chs of [] \<Rightarrow> [concat w] | v # vs \<Rightarrow> (concat w @ v) # vs)"
proof (induction w)
  case Nil
  then show ?case by (cases chs) (auto split: list.splits)
qed (auto split: list.splits)

lemma split_whitespace_join:
  "\<forall>w \<in> set ws. plain_word w \<Longrightarrow> split_whitespace (str_join (CHR '' '') ws) = ws"
proof (induction "CHR '' ''" ws rule: str_join.induct)
  case 1
  then show ?case by (simp add: split_whitespace_def)
next
  case (2 p)
  then have "ascii_str p" "\<forall>ch \<in> set (map (\<lambda>c. [c]) p). \<not> is_whitespace ch" "p \<noteq> []"
    by (auto simp: plain_word_def list_all_iff)
  then show ?case
    using split_chars_word [of "map (\<lambda>c. [c]) p" is_whitespace "[]"]
    by (simp add: split_whitespace_def chars_ascii)
next
  case (3 p q ps)
  then have p: "ascii_str p" "\<forall>ch \<in> set (map (\<lambda>c. [c]) p). \<not> is_whitespace ch" "p \<noteq> []"
    by (auto simp: plain_word_def list_all_iff)
  let ?r = "str_join (CHR '' '') (q # ps)"
  have ascii: "ascii_str ?r"
    using "3.prems" set_str_join [of _ "CHR '' ''" "q # ps"]
    by (fastforce simp: plain_word_def list_all_iff is_ascii_def)
  then have "chars (p @ CHR '' '' # ?r) = map (\<lambda>c. [c]) p @ [CHR '' ''] # chars ?r"
    using p(1) by (subst chars_ascii) (simp_all add: chars_ascii is_ascii_def)
  moreover have "split_chars is_whitespace ([CHR '' ''] # chars ?r) = [] # split_chars is_whitespace (chars ?r)"
    by (simp add: ascii_whitespace_def)
  ultimately show ?case
    using p 3 split_chars_word [OF p(2), of "[CHR '' ''] # chars ?r"]
    by (simp add: split_whitespace_def)
qed

lemma plain_word_cap: "plain_word (cap_str c)" "plain_word (CHR ''-'' # cap_str c)"
  using cap_str_ok by (auto simp: plain_word_def is_ascii_def ascii_whitespace_def)

definition diff_word :: "cap \<times> bool \<Rightarrow> string" where
  "diff_word ce = (if snd ce then cap_str (fst ce) else CHR ''-'' # cap_str (fst ce))"

definition diff_items :: "cap_diff \<Rightarrow> cap list \<Rightarrow> (cap \<times> bool) list" where
  "diff_items diff cs = concat (map (\<lambda>c. case diff c of None \<Rightarrow> [] | Some e \<Rightarrow> [(c, e)]) cs)"

lemma cap_diff_write_join:
  "cap_diff_write diff [] = str_join (CHR '' '') (map diff_word (diff_items diff all_caps))"
proof -
  have written: "fold (\<lambda>c buf. case diff c of
                None \<Rightarrow> buf
              | Some enable \<Rightarrow> (if \<not> enable then buf @ ''-'' else buf) @ cap_str c @ '' '')
         cs buf = buf @ concat (map (\<lambda>w. w @ '' '') (map diff_word (diff_items diff cs)))" for cs buf
    by (induction cs arbitrary: buf) (auto simp: diff_items_def diff_word_def split: option.splits)
  have "pop_if_longer 0 (concat (map (\<lambda>w. w @ [b]) ws)) = str_join b ws" for b ws
    by (induction b ws rule: str_join.induct) (auto simp: pop_if_longer_def butlast_append)
  from this [of "CHR '' ''" "map diff_word (diff_items diff all_caps)"] written
  show ?thesis by (simp add: cap_diff_write_def comp_def)
qed

lemma cap_query_write:
  "cap_query (cap_diff_write diff []) = map (\<lambda>ce. (cap_str (fst ce), snd ce)) (diff_items diff all_caps)"
proof -
  have "\<forall>w \<in> set (map diff_word (diff_items diff all_caps)). plain_word w"
    using plain_word_cap by (auto simp: diff_word_def)
  from split_whitespace_join [OF this] show ?thesis
    using cap_str_ok by (auto simp: cap_query_def cap_diff_write_join diff_word_def)
qed

lemma cap_diff_loop_items:
  "cap_diff_loop (map (\<lambda>ce. (cap_str (fst ce), snd ce)) ces) res =
     Inr (fold (\<lambda>ce r. r(fst ce := Some (snd ce))) ces res)"
  by (induction ces arbitrary: res) (auto simp: find_cap_str)

lemma fold_diff_items:
  "distinct cs \<Longrightarrow> fold (\<lambda>ce r. r(fst ce := Some (snd ce))) (diff_items diff cs) res
     = (\<lambda>c. if c \<in> set cs \<and> diff c \<noteq> None then diff c else res c)"
  by (induction cs arbitrary: res) (auto simp: diff_items_def fun_eq_iff split: option.splits)

section \<open>The round trip\<close>

text \<open>Capability requests survive the wire.  The list of capability changes that the server
  echoes in its acknowledgement parses back to the very changes it applied.\<close>

lemma cap_diff_roundtrip: "cap_diff_try_from (cap_diff_write diff []) = Inr diff"
  by (auto simp: cap_diff_try_from_def cap_query_write cap_diff_loop_items fold_diff_items
      distinct_all_caps all_caps_complete cap_diff_default_def)

end
