(* ===== verification/Masks.thy ===== *)
theory Masks
  imports Prelude "HOL-Library.Sublist"
begin

text \<open>
  \<open>src/util.rs\<close>: matching of masks with \<open>*\<close> and \<open>?\<close>, and the sets of masks that channels keep for
  bans and their exceptions.  The matcher slices its text at every byte offset, so it panics on
  texts with characters of several bytes; on ASCII texts it agrees with the usual meaning of the
  wildcards, stated by \<open>glob\<close>.
\<close>

section \<open>The matcher\<close>

definition scan_chunk :: "string \<Rightarrow> bool \<times> string \<times> string" where
  "scan_chunk pat =
     (let initial_len = length pat;
          pat = concat (dropWhile (\<lambda>c. c = ''*'') (chars pat));
          star = (length pat < initial_len)
      in (star, concat (takeWhile (\<lambda>c. c \<noteq> ''*'') (chars pat)),
            concat (dropWhile (\<lambda>c. c \<noteq> ''*'') (chars pat))))"

fun match_chunk_loop :: "string list \<Rightarrow> string \<Rightarrow> string \<times> bool" where
  "match_chunk_loop [] s = (s, True)"
| "match_chunk_loop (fc # fcs) s =
     (case chars s of
        [] \<Rightarrow> ([], False)
      | fs # _ \<Rightarrow>
          if fc \<noteq> ''?'' \<and> fc \<noteq> fs then ([], False)
          else match_chunk_loop fcs (drop (length fs) s))"

definition match_chunk :: "string \<Rightarrow> string \<Rightarrow> string \<times> bool" where
  "match_chunk chunk s = match_chunk_loop (chars chunk) s"

text \<open>The \<open>for\<close> loop of \<open>match_mask\<close> over the offsets \<open>i\<close>: the inner \<^const>\<open>None\<close> is falling off its
  end, the outer one the panic of the slice.\<close>

fun match_mask_from :: "string \<Rightarrow> bool \<Rightarrow> string \<Rightarrow> nat list \<Rightarrow> string option option" where
  "match_mask_from chunk last_chunk s [] = Some None"
| "match_mask_from chunk last_chunk s (i # is) =
     (case str_from s (i + 1) of
        None \<Rightarrow> None
      | Some t \<Rightarrow>
          (let (rest, ok) = match_chunk chunk t
           in if ok \<and> \<not> (last_chunk \<and> rest \<noteq> []) then Some (Some rest)
              else match_mask_from chunk last_chunk s is))"

lemma length_concat_dropWhile: "length (concat (dropWhile P xs)) \<le> length (concat xs)"
  by (induction xs) auto

lemma concat_take_drop_While: "concat (takeWhile P xs) @ concat (dropWhile P xs) = concat xs"
  by (simp flip: concat_append)

lemma scan_chunk_shorter:
  assumes "pat \<noteq> []" and "scan_chunk pat = (star, chunk, rest)"
  shows "length rest < length pat"
proof -
  define m where "m = concat (dropWhile (\<lambda>c. c = ''*'') (chars pat))"
  have m: "star = (length m < length pat)" "chunk = concat (takeWhile (\<lambda>c. c \<noteq> ''*'') (chars m))"
    "rest = concat (dropWhile (\<lambda>c. c \<noteq> ''*'') (chars m))"
    using assms(2) by (auto simp: scan_chunk_def Let_def m_def)
  have lm: "length m \<le> length pat"
    using length_concat_dropWhile [of "\<lambda>c. c = ''*''" "chars pat"] by (simp add: m_def)
  have lr: "length chunk + length rest = length m"
    using concat_take_drop_While [of "\<lambda>c. c \<noteq> ''*''" "chars m"] by (metis m(2,3) concat_chars length_append)
  show ?thesis
  proof (cases star)
    case True
    then show ?thesis using m(1) lr by simp
  next
    case False
    then have "length m = length pat" using m(1) lm by simp
    then have hd: "hd (chars pat) \<noteq> ''*''"
    proof (rule contrapos_pn)
      assume "hd (chars pat) = ''*''"
      then obtain cs where cs: "chars pat = ''*'' # cs" using assms(1) by (cases "chars pat") auto
      then have "length pat = 1 + length (concat cs)" by (metis concat_chars concat.simps(2) length_append One_nat_def list.size(3) list.size(4) add_Suc add_0)
      moreover have "length m \<le> length (concat cs)"
        using length_concat_dropWhile [of "\<lambda>c. c = ''*''" cs] cs by (simp add: m_def)
      ultimately show "length m \<noteq> length pat" by simp
    qed
    then have "dropWhile (\<lambda>c. c = ''*'') (chars pat) = chars pat" by (cases "chars pat") auto
    then have "m = pat" by (simp add: m_def)
    then have "chunk \<noteq> []"
      using m(2) hd assms(1) chars_nonempty [of "hd (chars pat)" pat] by (cases "chars pat") auto
    then show ?thesis using lr lm by (cases chunk) auto
  qed
qed

function match_mask :: "string \<Rightarrow> string \<Rightarrow> bool option" where
  "match_mask pat s =
     (if pat = [] then Some (s = [])
      else
        (let (star, chunk, pat') = scan_chunk pat
         in if star \<and> chunk = [] then Some True
            else
              (let (rest, ok) = match_chunk chunk s
               in if ok \<and> (rest = [] \<or> pat' \<noteq> []) then match_mask pat' rest
                  else if star then
                    (case match_mask_from chunk (pat' = []) s [0..<length s] of
                       None \<Rightarrow> None
                     | Some (Some rest) \<Rightarrow> match_mask pat' rest
                     | Some None \<Rightarrow> Some False)
                  else Some False)))"
  by pat_completeness auto
termination
  by (relation "measure (length \<circ> fst)") (auto intro: scan_chunk_shorter [OF _ sym])

declare match_mask.simps [simp del]

section \<open>Sets of masks\<close>

text \<open>\<open>MaskSet\<close>: the masks with commas between them.\<close>

type_synonym mask_set = string

definition mask_set_new :: mask_set where
  "mask_set_new = []"

definition masks :: "mask_set \<Rightarrow> string list" where
  "masks raw = str_split (CHR '','') raw"

text \<open>\<open>Iterator::any\<close> stops at the first mask that matches.\<close>

fun any_match :: "string list \<Rightarrow> string \<Rightarrow> bool option" where
  "any_match [] s = Some False"
| "any_match (m # ms) s =
     (case match_mask m s of
        None \<Rightarrow> None
      | Some True \<Rightarrow> Some True
      | Some False \<Rightarrow> any_match ms s)"

definition mask_set_is_match :: "mask_set \<Rightarrow> string \<Rightarrow> bool option" where
  "mask_set_is_match raw s = any_match (masks raw) s"

definition mask_set_insert :: "string \<Rightarrow> mask_set \<Rightarrow> bool \<times> mask_set" where
  "mask_set_insert pat raw =
     (if pat \<in> set (masks raw) then (False, raw)
      else (True, (if raw \<noteq> [] then raw @ '','' else raw) @ pat))"

text \<open>The byte offset of the first piece that equals the mask.\<close>

fun piece_start :: "string \<Rightarrow> string list \<Rightarrow> nat \<Rightarrow> nat option" where
  "piece_start pat [] at = None"
| "piece_start pat (p # ps) at =
     (if p = pat then Some at else piece_start pat ps (at + length p + 1))"

definition mask_set_remove :: "string \<Rightarrow> mask_set \<Rightarrow> bool \<times> mask_set" where
  "mask_set_remove pat raw =
     (case piece_start pat (masks raw) 0 of
        None \<Rightarrow> (False, raw)
      | Some start \<Rightarrow>
          (let end' = start + length pat;
               end' = (if end' < length raw then end' + 1 else end')
           in (True, take start raw @ drop end' raw)))"


section \<open>The meaning of masks\<close>

text \<open>On lists of characters: \<open>*\<close> stands for any text, \<open>?\<close> for any character, every other
  character for itself.\<close>

fun glob :: "string list \<Rightarrow> string list \<Rightarrow> bool" where
  "glob [] s = (s = [])"
| "glob (c # p) s =
     (if c = ''*'' then \<exists>t \<in> set (suffixes s). glob p t
      else s \<noteq> [] \<and> (c = ''?'' \<or> c = hd s) \<and> glob p (tl s))"

lemma suffixes_drop: "t \<in> set (suffixes s) \<longleftrightarrow> (\<exists>k \<le> length s. t = drop k s)"
proof
  assume "t \<in> set (suffixes s)"
  then obtain r where "s = r @ t" by (auto simp: suffix_def)
  then show "\<exists>k \<le> length s. t = drop k s" by (intro exI [of _ "length r"]) simp
qed (auto simp: suffix_drop)

lemma glob_star: "glob (''*'' # p) s \<longleftrightarrow> (\<exists>k \<le> length s. glob p (drop k s))"
  unfolding glob.simps Bex_def suffixes_drop by auto

lemma glob_char:
  "c \<noteq> ''*'' \<Longrightarrow> glob (c # p) s \<longleftrightarrow> s \<noteq> [] \<and> (c = ''?'' \<or> c = hd s) \<and> glob p (tl s)"
  by simp

declare glob.simps(2) [simp del]

text \<open>A star-free piece of a pattern matches a prefix of fixed length.\<close>

fun fits :: "string list \<Rightarrow> string list \<Rightarrow> bool" where
  "fits [] s = True"
| "fits (c # p) s = (s \<noteq> [] \<and> (c = ''?'' \<or> c = hd s) \<and> fits p (tl s))"

lemma fits_length: "fits p s \<Longrightarrow> length p \<le> length s"
proof (induction p arbitrary: s)
  case (Cons c p)
  then have "length p \<le> length (tl s)" "s \<noteq> []" using Cons.IH [of "tl s"] by simp_all
  then show ?case by (cases s) simp_all
qed simp

lemma glob_fits:
  "''*'' \<notin> set p \<Longrightarrow> glob (p @ q) s \<longleftrightarrow> fits p s \<and> glob q (drop (length p) s)"
proof (induction p arbitrary: s)
  case (Cons c p)
  then have c: "c \<noteq> ''*''" and p: "''*'' \<notin> set p" by auto
  have "glob ((c # p) @ q) s \<longleftrightarrow> s \<noteq> [] \<and> (c = ''?'' \<or> c = hd s) \<and> glob (p @ q) (tl s)"
    unfolding append_Cons by (rule glob_char [OF c])
  also have "glob (p @ q) (tl s) \<longleftrightarrow> fits p (tl s) \<and> glob q (drop (length p) (tl s))"
    by (rule Cons.IH [OF p])
  finally show ?case by (simp only: fits.simps conj_assoc length_Cons drop_Suc)
qed simp

text \<open>A pattern that starts with a star keeps matching when the text grows in front, so a leftmost
  match of the piece before it is as good as any.\<close>

lemma glob_star_mono: "glob (''*'' # q) (drop b s) \<Longrightarrow> a \<le> b \<Longrightarrow> glob (''*'' # q) (drop a s)"
proof -
  assume "glob (''*'' # q) (drop b s)" "a \<le> b"
  then obtain k where k: "k \<le> length s - b" "glob q (drop (k + b) s)" by (auto simp: glob_star)
  show ?thesis
  proof (cases "b \<le> length s")
    case True
    then show ?thesis
      using k \<open>a \<le> b\<close> unfolding glob_star by (intro exI [of _ "k + b - a"]) simp
  next
    case False
    then have "glob q (drop (length s) s)" using k by simp
    then show ?thesis unfolding glob_star
      by (intro exI [of _ "length s - a"]) (cases "a \<le> length s"; simp)
  qed
qed

lemma glob_leftmost:
  assumes "''*'' \<notin> set p" and "fits p (drop k s)" and "\<forall>j < k. \<not> fits p (drop j s)" and "k \<le> length s"
  shows "glob (''*'' # p @ ''*'' # q) s \<longleftrightarrow> glob (''*'' # q) (drop (k + length p) s)"
proof
  assume "glob (''*'' # p @ ''*'' # q) s"
  then obtain j where j: "j \<le> length s" "fits p (drop j s)" "glob (''*'' # q) (drop (length p) (drop j s))"
    unfolding glob_star glob_fits [OF assms(1)] by blast
  moreover have "k \<le> j" using j(2) assms(3) by (meson not_le)
  moreover have "drop (length p) (drop j s) = drop (j + length p) s" by (simp add: add.commute)
  ultimately have "glob (''*'' # q) (drop (j + length p) s)" by (simp only:)
  then show "glob (''*'' # q) (drop (k + length p) s)"
    by (rule glob_star_mono) (use \<open>k \<le> j\<close> in simp)
next
  assume "glob (''*'' # q) (drop (k + length p) s)"
  moreover have "drop (length p) (drop k s) = drop (k + length p) s" by (simp add: add.commute)
  ultimately have "glob (p @ ''*'' # q) (drop k s)" using assms(2) by (simp only: glob_fits [OF assms(1)] simp_thms)
  then show "glob (''*'' # p @ ''*'' # q) s" using assms(4) unfolding glob_star by blast
qed

section \<open>The matcher computes the meaning\<close>

text \<open>Taking a piece off a text between characters and grouping it again gives the same characters.\<close>

lemma chars_concat_drop: "chars (concat (drop k (chars s))) = drop k (chars s)"
proof (induction s arbitrary: k rule: chars.induct)
  case (2 c cs)
  then show ?case by (cases k) simp_all
qed simp

lemma chars_drop_prefix:
  "chars s = xs @ ys \<Longrightarrow> chars (concat xs) = xs \<and> chars (concat ys) = ys"
proof (induction s arbitrary: xs rule: chars.induct)
  case (2 c cs)
  have ys: "chars (concat ys) = ys"
    using chars_concat_drop [of "length xs" "c # cs"] "2.prems" by simp
  show ?case
  proof (cases xs)
    case (Cons x xs')
    then have x: "x = c # takeWhile is_cont cs" and cs: "chars (dropWhile is_cont cs) = xs' @ ys"
      using "2.prems" by simp_all
    from "2.IH" [OF cs] have IH: "chars (concat xs') = xs'" by simp
    have "concat xs' = [] \<or> \<not> is_cont (hd (concat xs'))"
    proof (cases xs')
      case (Cons z zs)
      then have "hd (chars (dropWhile is_cont cs)) = z" and "chars (dropWhile is_cont cs) \<noteq> []"
        using cs by simp_all
      then obtain d ds where d: "dropWhile is_cont cs = d # ds" "z = d # takeWhile is_cont ds"
        by (cases "dropWhile is_cont cs") auto
      then have "\<not> is_cont d" using hd_dropWhile [of is_cont cs] by (metis list.distinct(1) list.sel(1))
      with d Cons show ?thesis by simp
    qed simp
    then have "chars (x @ concat xs') = chars x @ chars (concat xs')" by (rule chars_append)
    moreover have t: "takeWhile is_cont (takeWhile is_cont cs) = takeWhile is_cont cs"
      by (auto simp: takeWhile_eq_all_conv dest: set_takeWhileD)
    have "dropWhile is_cont (takeWhile is_cont cs) = []" by (auto dest: set_takeWhileD)
    with t have "chars x = [x]" by (simp only: x chars.simps)
    ultimately show ?thesis using Cons IH ys by simp
  qed (use ys in simp)
qed simp

lemma scan_chunk_chars:
  assumes "scan_chunk pat = (star, chunk, rest)"
  obtains n where "chars pat = replicate n ''*'' @ chars chunk @ chars rest"
    and "star = (n \<noteq> 0)" and "''*'' \<notin> set (chars chunk)"
    and "rest = [] \<or> (\<exists>q. chars rest = ''*'' # q)" and "chunk = [] \<longrightarrow> rest = []"
proof -
  define st where "st = takeWhile (\<lambda>c. c = ''*'') (chars pat)"
  define d where "d = dropWhile (\<lambda>c. c = ''*'') (chars pat)"
  have pat: "chars pat = st @ d" by (simp add: st_def d_def)
  have d: "chars (concat d) = d" using chars_drop_prefix [OF pat] by simp
  define ck where "ck = takeWhile (\<lambda>c. c \<noteq> ''*'') d"
  define rs where "rs = dropWhile (\<lambda>c. c \<noteq> ''*'') d"
  have drs: "d = ck @ rs" by (simp add: ck_def rs_def)
  then have "chars (concat d) = ck @ rs" using d by simp
  from chars_drop_prefix [OF this] have ckrs: "chars (concat ck) = ck" "chars (concat rs) = rs" by simp_all
  have parts: "star = (length (concat d) < length pat)" "chunk = concat ck" "rest = concat rs"
    using assms d by (auto simp: scan_chunk_def Let_def ck_def rs_def d_def)
  have st: "st = replicate (length st) ''*''"
    unfolding st_def by (auto intro!: replicate_eqI dest: set_takeWhileD)
  have "length pat = length (concat st) + length (concat d)"
    using pat by (metis concat_append concat_chars length_append)
  moreover have "length (concat st) = length st"
  proof -
    have "length (concat (replicate n ''*'')) = n" for n :: nat by (induction n) simp_all
    then show ?thesis using st by metis
  qed
  ultimately have star: "star = (length st \<noteq> 0)" using parts(1) by auto
  have "''*'' \<notin> set ck" unfolding ck_def by (auto dest: set_takeWhileD)
  moreover have "rs = [] \<or> hd rs = ''*''"
    using hd_dropWhile [of "\<lambda>c. c \<noteq> ''*''" d] unfolding rs_def by blast
  then have "rs = [] \<or> (\<exists>q. rs = ''*'' # q)" by (cases rs) simp_all
  moreover have "chunk = [] \<longrightarrow> rest = []"
  proof
    assume "chunk = []"
    then have "ck = []" using parts(2) ckrs(1) by (metis chars.simps(1))
    then have "d = [] \<or> hd d = ''*''" by (cases d) (auto simp: ck_def split: if_splits)
    then have "d = []" using hd_dropWhile [of "\<lambda>c. c = ''*''" "chars pat"] unfolding d_def by blast
    then show "rest = []" using parts(3) by (simp add: rs_def)
  qed
  ultimately show ?thesis
    using that [of "length st"] pat drs st star parts ckrs by (metis concat.simps(1))
qed

abbreviation bytes :: "string \<Rightarrow> string list" where
  "bytes s \<equiv> map (\<lambda>c. [c]) s"

lemma match_chunk_ascii:
  "ascii_str s \<Longrightarrow> match_chunk_loop p s =
     (if fits p (bytes s) then (drop (length p) s, True) else ([], False))"
proof (induction p arbitrary: s)
  case (Cons c p)
  show ?case
  proof (cases s)
    case (Cons a t)
    then have "chars s = [a] # bytes t" "ascii_str t"
      using Cons.prems chars_ascii [of "a # t"] Cons by (simp_all del: chars.simps)
    then show ?thesis using Cons.IH [of t] Cons by auto
  qed simp
qed simp

definition mask_hit :: "string list \<Rightarrow> bool \<Rightarrow> string \<Rightarrow> nat \<Rightarrow> bool" where
  "mask_hit p lst s j \<longleftrightarrow> fits p (drop j (bytes s)) \<and> (lst \<longrightarrow> drop (j + length p) s = [])"

lemma match_mask_from_ascii:
  assumes "ascii_str s" and "\<forall>i \<in> set is. i < length s"
  shows "match_mask_from chunk lst s is = Some (map_option (\<lambda>i. drop (Suc i + length (chars chunk)) s)
      (List.find (\<lambda>i. mask_hit (chars chunk) lst s (Suc i)) is))"
  using assms(2)
proof (induction "is")
  case (Cons i "is")
  then have i: "i < length s" by simp
  then have sl: "str_from s (i + 1) = Some (drop (Suc i) s)"
    using assms(1) by (simp add: str_from_def is_char_boundary_ascii)
  have a: "ascii_str (drop (Suc i) s)" using assms(1) by (auto simp: list_all_iff dest: in_set_dropD)
  have "match_chunk chunk (drop (Suc i) s) =
      (if fits (chars chunk) (drop (Suc i) (bytes s))
       then (drop (Suc i + length (chars chunk)) s, True) else ([], False))"
    unfolding match_chunk_def match_chunk_ascii [OF a] by (simp add: drop_map add.commute)
  then show ?case using sl Cons by (auto simp: mask_hit_def Let_def)
qed simp

text \<open>A chunk without a star before it must match here; with one, at the first hit.\<close>

lemma glob_here:
  assumes "''*'' \<notin> set p" and "q = [] \<or> (\<exists>q'. q = ''*'' # q')"
  shows "glob (p @ q) (bytes s) \<longleftrightarrow>
    mask_hit p (q = []) s 0 \<and> glob q (bytes (drop (length p) s))"
  using assms by (auto simp: glob_fits mask_hit_def drop_map)

lemma glob_nowhere:
  assumes "''*'' \<notin> set p" and "\<forall>j \<le> length s. \<not> mask_hit p (q = []) s j"
  shows "\<not> glob (''*'' # p @ q) (bytes s)"
proof
  assume "glob (''*'' # p @ q) (bytes s)"
  then obtain k where k: "k \<le> length s" "fits p (drop k (bytes s))"
    "glob q (drop (length p) (drop k (bytes s)))"
    by (auto simp: glob_star glob_fits [OF assms(1)])
  then have "mask_hit p (q = []) s k" by (auto simp: mask_hit_def drop_map add.commute)
  with k assms(2) show False by blast
qed

lemma glob_first_hit:
  assumes "''*'' \<notin> set p" and q: "q = [] \<or> (\<exists>q'. q = ''*'' # q')" and "j \<le> length s"
    and hit: "mask_hit p (q = []) s j" and first: "\<forall>k < j. \<not> mask_hit p (q = []) s k"
  shows "glob (''*'' # p @ q) (bytes s) \<longleftrightarrow> glob q (bytes (drop (j + length p) s))"
proof (cases "q = []")
  case True
  then have "fits p (drop j (bytes s))" "drop (j + length p) s = []" using hit by (auto simp: mask_hit_def)
  then have "glob (p @ []) (drop j (bytes s))"
    unfolding glob_fits [OF assms(1)] by (simp add: add.commute)
  then show ?thesis using True hit assms(3) by (auto simp: glob_star mask_hit_def)
next
  case False
  then obtain q' where q': "q = ''*'' # q'" using q by auto
  have "glob (''*'' # p @ ''*'' # q') (bytes s) \<longleftrightarrow> glob (''*'' # q') (drop (j + length p) (bytes s))"
    using hit first assms(1,3) False by (intro glob_leftmost) (auto simp: mask_hit_def)
  then show ?thesis by (simp add: q' drop_map)
qed

lemma glob_stars: "glob (replicate (Suc n) ''*'' @ p) s \<longleftrightarrow> glob (''*'' # p) s"
proof (induction n)
  case (Suc n)
  have "glob (''*'' # ''*'' # r) s \<longleftrightarrow> glob (''*'' # r) s" for r
  proof
    assume "glob (''*'' # ''*'' # r) s"
    then obtain k where "glob (''*'' # r) (drop k s)" by (auto simp: glob_star [of "''*'' # r"])
    then show "glob (''*'' # r) s" using glob_star_mono [of r k s 0] by simp
  next
    assume "glob (''*'' # r) s"
    then show "glob (''*'' # ''*'' # r) s"
      unfolding glob_star [of "''*'' # r"] by (intro exI [of _ 0]) simp
  qed
  with Suc show ?case by simp
qed simp

lemma match_mask_glob:
  "ascii_str s \<Longrightarrow> match_mask pat s = Some (glob (chars pat) (bytes s))"
proof (induction "length pat" arbitrary: pat s rule: less_induct)
  case less
  show ?case
  proof (cases "pat = []")
    case True
    then show ?thesis by (subst match_mask.simps) simp
  next
    case False
    obtain star chunk rest where sc: "scan_chunk pat = (star, chunk, rest)" using prod_cases3 by blast
    obtain n where n: "chars pat = replicate n ''*'' @ chars chunk @ chars rest" "star = (n \<noteq> 0)"
      "''*'' \<notin> set (chars chunk)" "rest = [] \<or> (\<exists>q. chars rest = ''*'' # q)" "chunk = [] \<longrightarrow> rest = []"
      using scan_chunk_chars [OF sc] .
    let ?p = "chars chunk" and ?q = "chars rest" and ?lst = "rest = []"
    have q: "?q = [] \<or> (\<exists>q'. ?q = ''*'' # q')" and lst: "(?q = []) = ?lst" using n(4) by auto
    have IH: "match_mask rest (drop k s) = Some (glob ?q (bytes (drop k s)))" for k
      using less.hyps [OF scan_chunk_shorter [OF False sc], of "drop k s"] less.prems
      by (auto simp: list_all_iff dest: in_set_dropD)
    have mc: "match_chunk chunk s =
        (if fits ?p (bytes s) then (drop (length ?p) s, True) else ([], False))"
      unfolding match_chunk_def by (rule match_chunk_ascii [OF less.prems])
    have first: "(snd (match_chunk chunk s) \<and> (fst (match_chunk chunk s) = [] \<or> rest \<noteq> []))
        \<longleftrightarrow> mask_hit ?p ?lst s 0"
      unfolding mc by (auto simp: mask_hit_def)
    have eq: "match_mask pat s =
        (if star \<and> chunk = [] then Some True
         else if mask_hit ?p ?lst s 0 then match_mask rest (fst (match_chunk chunk s))
         else if star then
           (case match_mask_from chunk ?lst s [0..<length s] of
              None \<Rightarrow> None
            | Some (Some rest') \<Rightarrow> match_mask rest rest'
            | Some None \<Rightarrow> Some False)
         else Some False)"
      unfolding match_mask.simps [of pat s] sc first [symmetric] Let_def case_prod_beta fst_conv snd_conv
        if_not_P [OF False] by (rule refl)
    consider (all) "star" "chunk = []" | (here) "\<not> (star \<and> chunk = [])" "mask_hit ?p ?lst s 0"
      | (later) "star" "chunk \<noteq> []" "\<not> mask_hit ?p ?lst s 0" | (no) "\<not> star" "\<not> mask_hit ?p ?lst s 0"
      by blast
    then show ?thesis
    proof cases
      case all
      then obtain m where m: "n = Suc m" using n(2) by (cases n) auto
      have "glob (''*'' # []) (bytes s)"
        unfolding glob_star by (intro exI [of _ "length s"]) simp
      then have "glob (chars pat) (bytes s)" using all n(1,5) m glob_stars [of m "[]"] by simp
      then show ?thesis using all by (simp add: eq)
    next
      case here
      then have mm: "match_mask pat s = match_mask rest (drop (length ?p) s)"
        unfolding eq if_not_P [OF here(1)] if_P [OF here(2)] using mc by (auto simp: mask_hit_def)
      have "glob (chars pat) (bytes s) = glob ?q (bytes (drop (length ?p) s))"
      proof (cases n)
        case 0
        then show ?thesis using n(1) here(2) glob_here [OF n(3) q, of s] lst by simp
      next
        case (Suc m)
        then have "glob (chars pat) (bytes s) = glob (''*'' # ?p @ ?q) (bytes s)"
          using n(1) glob_stars by simp
        then show ?thesis using here(2) glob_first_hit [OF n(3) q, of 0 s] lst by simp
      qed
      then show ?thesis using mm IH by simp
    next
      case later
      then obtain m where m: "n = Suc m" using n(2) by (cases n) auto
      have pat: "glob (chars pat) (bytes s) = glob (''*'' # ?p @ ?q) (bytes s)"
        using n(1) glob_stars m by simp
      let ?find = "List.find (\<lambda>i. mask_hit ?p ?lst s (Suc i)) [0..<length s]"
      have mm: "match_mask pat s = (case map_option (\<lambda>i. drop (Suc i + length ?p) s) ?find of
          Some rest' \<Rightarrow> match_mask rest rest' | None \<Rightarrow> Some False)"
        using later match_mask_from_ascii [OF less.prems, of "[0..<length s]" chunk ?lst]
        by (simp add: eq split: option.split)
      show ?thesis
      proof (cases ?find)
        case None
        then have "\<not> mask_hit ?p ?lst s (Suc i)" if "i < length s" for i
          using that by (auto simp: find_None_iff)
        then have "\<not> mask_hit ?p (?q = []) s j" if "j \<le> length s" for j
          unfolding lst using later(3) that by (cases j) (simp_all only: Suc_le_eq not_False_eq_True)
        then have "\<forall>j \<le> length s. \<not> mask_hit ?p (?q = []) s j" by blast
        from glob_nowhere [OF n(3) this] pat None mm show ?thesis by simp
      next
        case (Some i)
        then have i: "i < length s" "mask_hit ?p ?lst s (Suc i)"
          "\<forall>k < i. \<not> mask_hit ?p ?lst s (Suc k)"
          by (auto simp: find_Some_iff)
        have "\<forall>k < Suc i. \<not> mask_hit ?p (?q = []) s k"
        proof (intro allI impI)
          fix k assume "k < Suc i"
          then show "\<not> mask_hit ?p (?q = []) s k"
            using later(3) i(3) lst by (cases k) auto
        qed
        then have "glob (''*'' # ?p @ ?q) (bytes s) = glob ?q (bytes (drop (Suc i + length ?p) s))"
          using i lst by (intro glob_first_hit [OF n(3) q]) auto
        then show ?thesis using mm pat Some IH by simp
      qed
    next
      case no
      then have "match_mask pat s = Some False"
        by (simp add: eq)
      moreover have "\<not> glob (chars pat) (bytes s)"
        using no n(1,2) glob_here [OF n(3) q, of s] lst by simp
      ultimately show ?thesis by simp
    qed
  qed
qed

section \<open>The interface of a set of masks\<close>

text \<open>What a channel relies on: a set with insertion and removal that report whether they changed
  it, on the elements \<open>ok\<close>.\<close>

locale set_store =
  fixes ok :: "'e \<Rightarrow> bool"
    and inv :: "'r \<Rightarrow> bool"
    and elems :: "'r \<Rightarrow> 'e set"
    and new :: 'r
    and ins :: "'e \<Rightarrow> 'r \<Rightarrow> bool \<times> 'r"
    and rem :: "'e \<Rightarrow> 'r \<Rightarrow> bool \<times> 'r"
  assumes new_inv: "inv new"
    and new_elems: "elems new = {}"
    and ins_inv: "ok e \<Longrightarrow> inv r \<Longrightarrow> inv (snd (ins e r))"
    and ins_elems: "ok e \<Longrightarrow> inv r \<Longrightarrow> elems (snd (ins e r)) = insert e (elems r)"
    and ins_new: "ok e \<Longrightarrow> inv r \<Longrightarrow> fst (ins e r) \<longleftrightarrow> e \<notin> elems r"
    and rem_inv: "ok e \<Longrightarrow> inv r \<Longrightarrow> inv (snd (rem e r))"
    and rem_elems: "ok e \<Longrightarrow> inv r \<Longrightarrow> elems (snd (rem e r)) = elems r - {e}"
    and rem_old: "ok e \<Longrightarrow> inv r \<Longrightarrow> fst (rem e r) \<longleftrightarrow> e \<in> elems r"
begin

definition step :: "bool \<times> 'e \<Rightarrow> 'r \<Rightarrow> 'r" where
  "step op r = snd (if fst op then ins (snd op) r else rem (snd op) r)"

lemma run_elems:
  assumes "\<forall>op \<in> set ops. ok (snd op)" and "inv r"
  shows "inv (fold step ops r)
    \<and> elems (fold step ops r) = fold (\<lambda>op S. if fst op then insert (snd op) S else S - {snd op}) ops (elems r)"
  using assms
  by (induction ops arbitrary: r) (auto simp: step_def ins_inv ins_elems rem_inv rem_elems)

lemma reported_changes:
  assumes "ok e" and "inv r"
  shows "\<not> fst (ins e (snd (ins e r)))" and "fst (rem e (snd (ins e r)))"
    and "e \<notin> elems r \<Longrightarrow> elems (snd (rem e (snd (ins e r)))) = elems r"
  using assms by (auto simp: ins_new rem_old rem_elems ins_inv ins_elems)

end

section \<open>Sets of masks are sets\<close>

text \<open>The packed string denotes the list of its non-empty pieces.\<close>

definition mask_list :: "mask_set \<Rightarrow> string list" where
  "mask_list raw = filter (\<lambda>m. m \<noteq> []) (masks raw)"

definition mask_elems :: "mask_set \<Rightarrow> string set" where
  "mask_elems raw = {m \<in> set (masks raw). m \<noteq> []}"

lemma mask_list_elems: "set (mask_list raw) = mask_elems raw"
  by (auto simp: mask_list_def mask_elems_def)

definition mask_ok :: "string \<Rightarrow> bool" where
  "mask_ok m \<longleftrightarrow> m \<noteq> [] \<and> CHR '','' \<notin> set m"

definition mask_set_inv :: "mask_set \<Rightarrow> bool" where
  "mask_set_inv raw \<longleftrightarrow> distinct (mask_list raw)"

lemma masks_pieces: "\<forall>p \<in> set (masks raw). CHR '','' \<notin> set p"
  using str_split_pieces [of _ "CHR '',''" raw] by (auto simp: masks_def)

lemma masks_append: "masks (raw @ CHR '','' # pat) = masks raw @ masks pat"
proof -
  let ?c = "CHR '',''"
  have "str_join ?c (ps @ qs) = str_join ?c ps @ ?c # str_join ?c qs" if "ps \<noteq> []" "qs \<noteq> []" for ps qs
    using that by (induction ?c ps rule: str_join.induct) (auto simp: str_join_Cons)
  then have "raw @ ?c # pat = str_join ?c (masks raw @ masks pat)"
    by (simp add: masks_def)
  then have "masks (raw @ ?c # pat) = str_split ?c (str_join ?c (masks raw @ masks pat))"
    by (simp add: masks_def)
  also have "\<dots> = masks raw @ masks pat"
    using masks_pieces by (intro str_split_join) (auto simp: masks_def)
  finally show ?thesis .
qed

lemma masks_Nil [simp]: "masks [] = [[]]"
  by (simp add: masks_def)

lemma masks_single: "CHR '','' \<notin> set m \<Longrightarrow> masks m = [m]"
  by (simp add: masks_def str_split_no_sep)

lemma mask_set_insert_masks:
  assumes "mask_ok m"
  shows "masks (snd (mask_set_insert m raw)) =
    (if m \<in> set (masks raw) then masks raw else if raw = [] then [m] else masks raw @ [m])"
  using assms by (auto simp: mask_set_insert_def mask_ok_def masks_append masks_single)

lemma piece_start_found:
  "m \<notin> set ps \<Longrightarrow> piece_start m (ps @ m # qs) at = Some (at + length (concat (map (\<lambda>p. p @ '','') ps)))"
  by (induction ps arbitrary: at) auto

lemma piece_start_none: "m \<notin> set ps \<Longrightarrow> piece_start m ps at = None"
  by (induction ps arbitrary: at) auto

lemma str_join_append:
  "qs \<noteq> [] \<Longrightarrow> str_join c (ps @ qs) = concat (map (\<lambda>p. p @ [c]) ps) @ str_join c qs"
  by (induction ps) (auto simp: str_join_Cons)

lemma mask_set_remove_masks:
  assumes "masks raw = ps @ m # qs" and "m \<notin> set ps"
  shows "mask_set_remove m raw = (True, str_join (CHR '','') (ps @ (if qs = [] then [[]] else qs)))"
    and "masks (snd (mask_set_remove m raw)) = ps @ (if qs = [] then [[]] else qs)"
proof -
  let ?c = "CHR '',''"
  define P where "P = concat (map (\<lambda>p. p @ [?c]) ps)"
  have raw: "raw = P @ m @ (if qs = [] then [] else ?c # str_join ?c qs)"
  proof -
    have "raw = str_join ?c (ps @ m # qs)" by (metis assms(1) masks_def str_join_split)
    then show ?thesis by (cases qs) (simp_all add: str_join_append P_def)
  qed
  have start: "piece_start m (masks raw) 0 = Some (length P)"
    using assms by (simp add: piece_start_found P_def)
  have new: "str_join ?c (ps @ (if qs = [] then [[]] else qs)) =
      P @ (if qs = [] then [] else str_join ?c qs)"
    by (auto simp: str_join_append P_def)
  show r: "mask_set_remove m raw = (True, str_join ?c (ps @ (if qs = [] then [[]] else qs)))"
    unfolding mask_set_remove_def start new by (simp add: raw Let_def)
  have "\<forall>p \<in> set (ps @ m # qs). ?c \<notin> set p"
    using str_split_pieces [of _ ?c raw] assms(1) by (auto simp: masks_def)
  then show "masks (snd (mask_set_remove m raw)) = ps @ (if qs = [] then [[]] else qs)"
    unfolding r masks_def by (simp add: str_split_join)
qed

interpretation mask_sets: set_store mask_ok mask_set_inv mask_elems mask_set_new mask_set_insert mask_set_remove
proof unfold_locales
  fix m raw assume m: "mask_ok m" and inv: "mask_set_inv raw"
  show "mask_set_inv (snd (mask_set_insert m raw))"
    using inv by (auto simp: mask_set_inv_def mask_list_def mask_set_insert_masks [OF m])
  show "mask_elems (snd (mask_set_insert m raw)) = insert m (mask_elems raw)"
    using m by (auto simp: mask_elems_def mask_set_insert_masks [OF m] mask_ok_def)
  show "fst (mask_set_insert m raw) \<longleftrightarrow> m \<notin> mask_elems raw"
    using m by (auto simp: mask_elems_def mask_set_insert_def mask_ok_def)
  have gone: "mask_set_remove m raw = (False, raw)" if "m \<notin> set (masks raw)"
    using that by (simp add: mask_set_remove_def piece_start_none)
  have "mask_set_inv (snd (mask_set_remove m raw))
      \<and> mask_elems (snd (mask_set_remove m raw)) = mask_elems raw - {m}
      \<and> (fst (mask_set_remove m raw) \<longleftrightarrow> m \<in> mask_elems raw)"
  proof (cases "m \<in> set (masks raw)")
    case True
    then obtain ps qs where pq: "masks raw = ps @ m # qs" "m \<notin> set ps" by (meson split_list_first)
    moreover have "m \<notin> set qs" using inv m pq by (auto simp: mask_set_inv_def mask_list_def mask_ok_def)
    ultimately show ?thesis
      using inv m mask_set_remove_masks [OF pq] by (auto simp: mask_set_inv_def mask_list_def mask_elems_def mask_ok_def)
  next
    case False
    then show ?thesis using gone inv by (auto simp: mask_elems_def)
  qed
  then show "mask_set_inv (snd (mask_set_remove m raw))"
    "mask_elems (snd (mask_set_remove m raw)) = mask_elems raw - {m}"
    "fst (mask_set_remove m raw) \<longleftrightarrow> m \<in> mask_elems raw"
    by blast+
qed (simp_all add: mask_set_inv_def mask_list_def mask_elems_def mask_set_new_def)

lemma any_match_ascii:
  "ascii_str s \<Longrightarrow> any_match ms s = Some (\<exists>m \<in> set ms. glob (chars m) (bytes s))"
  by (induction ms) (auto simp: match_mask_glob split: bool.splits)

lemma is_match_ascii:
  assumes "ascii_str s" and "s \<noteq> []"
  shows "mask_set_is_match raw s = Some (\<exists>m \<in> mask_elems raw. glob (chars m) (bytes s))"
proof -
  have "(\<exists>m \<in> set (masks raw). glob (chars m) (bytes s)) =
      (\<exists>m \<in> mask_elems raw. glob (chars m) (bytes s))"
    using assms(2) by (auto simp: mask_elems_def)
  then show ?thesis by (simp add: mask_set_is_match_def any_match_ascii [OF assms(1)])
qed

section \<open>Properties\<close>

text \<open>C28: Mask matching.  On an ASCII text the matcher never panics and decides exactly the usual
  meaning of the mask, in which \<open>*\<close> stands for any text and \<open>?\<close> for any character; the greedy search
  for the leftmost occurrence of each piece loses nothing.\<close>

theorem match_mask_correct:
  assumes "ascii_str s"
  shows "match_mask pat s = Some (glob (chars pat) (chars s))"
  using match_mask_glob [OF assms] chars_ascii [OF assms] by simp

theorem match_mask_correct_witness:
  "match_mask ''a*b?c*x'' ''abxbbxdbxebxczzx'' = Some True
   \<and> match_mask ''a*b?c*x'' ''abxbbxdbxebxczzy'' = Some False"
proof -
  have a: "ascii_str ''abxbbxdbxebxczzx''" "ascii_str ''abxbbxdbxebxczzy''" by code_simp+
  have "glob (chars ''a*b?c*x'') (chars ''abxbbxdbxebxczzx'')"
    "\<not> glob (chars ''a*b?c*x'') (chars ''abxbbxdbxebxczzy'')"
    by code_simp+
  then show ?thesis
    using match_mask_correct [OF a(1), of "''a*b?c*x''"] match_mask_correct [OF a(2), of "''a*b?c*x''"]
    by simp
qed

text \<open>Any text may be added, and commas in it are not looked at: the operations on the list of pieces.\<close>

definition mask_op :: "bool \<times> string \<Rightarrow> mask_set \<Rightarrow> mask_set" where
  "mask_op op raw =
     snd (if fst op then mask_set_insert (snd op) raw else mask_set_remove (snd op) raw)"

definition list_op :: "bool \<times> string \<Rightarrow> string list \<Rightarrow> string list" where
  "list_op op L =
     (if fst op then (if snd op \<in> set L then L else L @ mask_list (snd op)) else remove1 (snd op) L)"

lemma mask_list_insert: "mask_list (snd (mask_set_insert pat raw)) = list_op (True, pat) (mask_list raw)"
proof (cases "pat \<in> set (masks raw)")
  case True
  then have "masks pat = [pat]" using masks_pieces by (intro masks_single) blast
  then show ?thesis using True by (auto simp: list_op_def mask_set_insert_def mask_list_def)
next
  case False
  then show ?thesis by (cases "raw = []") (auto simp: list_op_def mask_set_insert_def mask_list_def masks_append)
qed

lemma mask_list_remove: "mask_list (snd (mask_set_remove pat raw)) = list_op (False, pat) (mask_list raw)"
proof (cases "pat \<in> set (masks raw)")
  case True
  then obtain ps qs where pq: "masks raw = ps @ pat # qs" "pat \<notin> set ps" by (meson split_list_first)
  then show ?thesis
    by (auto simp: list_op_def mask_list_def mask_set_remove_masks(2) [OF pq] remove1_append remove1_idem)
next
  case False
  then show ?thesis by (simp add: list_op_def mask_list_def mask_set_remove_def piece_start_none remove1_idem)
qed

lemma mask_list_run: "mask_list (fold mask_op ops raw) = fold list_op ops (mask_list raw)"
  by (induction ops arbitrary: raw) (auto simp: mask_op_def mask_list_insert mask_list_remove list_op_def)

text \<open>C29: What a ban list denotes.  After any sequence of additions and removals of any texts, the packed
  string of a \<open>MaskSet\<close> denotes a list of masks: a text that is added, unless it is in the list, appends
  its pieces between commas; a removal takes away the first mask that equals the text, so a text with a
  comma is never removed.  As long as no text is empty or holds a comma the list is a set, with the
  usual insertion and removal.  Testing a non-empty ASCII text tells whether some mask of the list
  matches.\<close>

theorem mask_set_denotes:
  shows "mask_list (fold mask_op ops mask_set_new) = fold list_op ops []
    \<and> ((\<forall>op \<in> set ops. mask_ok (snd op)) \<longrightarrow>
        distinct (mask_list (fold mask_op ops mask_set_new))
        \<and> set (mask_list (fold mask_op ops mask_set_new)) =
            fold (\<lambda>op S. if fst op then insert (snd op) S else S - {snd op}) ops {})
    \<and> (ascii_str s \<longrightarrow> s \<noteq> [] \<longrightarrow>
        mask_set_is_match (fold mask_op ops mask_set_new) s =
          Some (\<exists>m \<in> set (fold list_op ops []). glob (chars m) (chars s)))"
proof -
  have run: "mask_list (fold mask_op ops mask_set_new) = fold list_op ops []"
    using mask_list_run [of ops mask_set_new] by (simp add: mask_list_def mask_set_new_def)
  have "mask_op = mask_sets.step" by (intro ext) (simp add: mask_op_def mask_sets.step_def)
  moreover note mask_sets.run_elems [OF _ mask_sets.new_inv, of ops]
  ultimately have set: "(\<forall>op \<in> set ops. mask_ok (snd op)) \<longrightarrow>
        distinct (mask_list (fold mask_op ops mask_set_new))
        \<and> set (mask_list (fold mask_op ops mask_set_new)) =
            fold (\<lambda>op S. if fst op then insert (snd op) S else S - {snd op}) ops {}"
    by (simp add: mask_sets.new_elems mask_set_inv_def mask_list_elems)
  have "ascii_str s \<longrightarrow> s \<noteq> [] \<longrightarrow> mask_set_is_match (fold mask_op ops mask_set_new) s =
      Some (\<exists>m \<in> set (fold list_op ops []). glob (chars m) (chars s))"
    by (simp add: is_match_ascii chars_ascii flip: mask_list_elems run)
  then show ?thesis using run set by blast
qed

theorem mask_set_denotes_witness:
  "set (mask_list (fold mask_op [(True, ''a!*''), (True, ''b*''), (False, ''b*''), (True, ''c?'')] mask_set_new))
     = {''a!*'', ''c?''}
   \<and> mask_set_is_match
       (fold mask_op [(True, ''a!*''), (True, ''b*''), (False, ''b*''), (True, ''c?'')] mask_set_new) ''bob''
     = Some False
   \<and> mask_list (fold mask_op [(True, ''a,b''), (False, ''a,b''), (False, ''a'')] mask_set_new) = [''b'']"
proof -
  let ?ops = "[(True, ''a!*''), (True, ''b*''), (False, ''b*''), (True, ''c?'')]"
  have ok: "\<forall>op \<in> set ?ops. mask_ok (snd op)" by (simp add: mask_ok_def)
  have el: "set (mask_list (fold mask_op ?ops mask_set_new)) = {''a!*'', ''c?''}"
    using mask_set_denotes [of ?ops "''bob''", THEN conjunct2, THEN conjunct1] ok by auto
  moreover have "mask_set_is_match (fold mask_op ?ops mask_set_new) ''bob'' = Some False"
  proof -
    have "ascii_str ''bob''" by code_simp
    moreover have "\<not> glob (chars ''a!*'') (chars ''bob'')" "\<not> glob (chars ''c?'') (chars ''bob'')"
      by code_simp+
    moreover have "set (fold list_op ?ops []) = {''a!*'', ''c?''}"
      using el mask_set_denotes [of ?ops "''bob''"] by simp
    ultimately show ?thesis using mask_set_denotes [of ?ops "''bob''"] by simp
  qed
  moreover have "fold list_op [(True, ''a,b''), (False, ''a,b''), (False, ''a'')] [] = [''b'']" by code_simp
  ultimately show ?thesis
    using mask_set_denotes [of "[(True, ''a,b''), (False, ''a,b''), (False, ''a'')]" "''bob''"] by metis
qed

text \<open>A text with a comma is accepted and reported as added, stands for two masks, and cannot be removed;
  a mask that is in the list can come into it a second time that way, and removing it once leaves it
  there.\<close>

lemma mask_with_comma:
  "mask_set_insert ''a,b'' mask_set_new = (True, ''a,b'')"
  "mask_set_remove ''a,b'' ''a,b'' = (False, ''a,b'')"
  "mask_list (fold mask_op [(True, ''a''), (True, ''a,b''), (False, ''a'')] mask_set_new) = [''a'', ''b'']"
  by code_simp+

text \<open>The matcher is partial: a star that has to skip a character of several bytes panics, although
  the mask does not match, or matches further on.\<close>

lemma match_mask_panics:
  "match_mask ''*b'' [CHR 0xC3, CHR 0xA9] = None"
  "match_mask ''*b'' [CHR 0xC3, CHR 0xA9, CHR ''b''] = None"
  by code_simp+

text \<open>An emptied set still holds the empty mask, which the ban list of a channel shows; removing the
  last of several masks leaves the comma before it.\<close>

lemma mask_set_residue:
  "masks mask_set_new = [[]]"
  "snd (mask_set_remove ''b'' (snd (mask_set_insert ''b'' (snd (mask_set_insert ''a'' mask_set_new))))) = ''a,''"
  by code_simp+

end
