(* ===== verification/Names.thy ===== *)
theory Names
  imports Caps Masks
begin

text \<open>
  \<open>src/data/strings.rs\<close>: the checked strings of requests - masks, nicknames, channel names, keys,
  host names - and lists of them.  A value of one of these types is its string; the \<open>try_from\<close>
  functions are the only way to make one, so requests hold checked strings only (see \<open>request_ok\<close>).
\<close>

section \<open>Character classes\<close>

definition is_namespace :: "string \<Rightarrow> bool" where
  "is_namespace c \<longleftrightarrow> c = ''#'' \<or> c = ''&''"

definition is_wildcard :: "string \<Rightarrow> bool" where
  "is_wildcard c \<longleftrightarrow> c = ''?'' \<or> c = ''*''"

definition is_prefix :: "string \<Rightarrow> bool" where
  "is_prefix c \<longleftrightarrow> c = ''~'' \<or> c = ''&'' \<or> c = ''@'' \<or> c = ''%'' \<or> c = ''+''"

definition is_valid :: "string \<Rightarrow> bool" where
  "is_valid c \<longleftrightarrow> c \<noteq> '' '' \<and> c \<noteq> '','' \<and> c \<noteq> '':''"

definition is_valid_mask :: "string \<Rightarrow> bool" where
  "is_valid_mask s \<longleftrightarrow>
     (case chars s of
        [] \<Rightarrow> False
      | first # rest \<Rightarrow>
          is_valid first \<and> list_all (\<lambda>c. is_valid c \<and> \<not> is_namespace c) rest)"

definition is_valid_name :: "string \<Rightarrow> bool" where
  "is_valid_name s \<longleftrightarrow>
     (case chars s of
        [] \<Rightarrow> False
      | first # _ \<Rightarrow>
          \<not> is_prefix first
          \<and> list_all (\<lambda>c. is_valid c \<and> \<not> is_namespace c \<and> \<not> is_wildcard c) (chars s))"

text \<open>The slice \<open>&s[1..]\<close> is reached after a first character of one byte.\<close>

definition is_valid_channel_name :: "string \<Rightarrow> bool" where
  "is_valid_channel_name s \<longleftrightarrow>
     (case chars s of
        [] \<Rightarrow> False
      | first # _ \<Rightarrow> is_namespace first \<and> is_valid_name (drop 1 s))"

definition is_restricted_nickname :: "string \<Rightarrow> bool" where
  "is_restricted_nickname s \<longleftrightarrow> length s < 9 \<and> suffix ''Serv'' s"

section \<open>Checked strings\<close>

definition mask_try_from :: "string \<Rightarrow> request_error + string" where
  "mask_try_from val = (if is_valid_mask val then Inr val else Inl (NoSuchNick val))"

text \<open>\<open>Mask::is_channel\<close> unwraps the first character.\<close>

definition mask_is_channel :: "string \<Rightarrow> bool option" where
  "mask_is_channel s =
     (case chars s of [] \<Rightarrow> None | first # _ \<Rightarrow> Some (is_namespace first))"

definition nickname_ok :: "string \<Rightarrow> bool" where
  "nickname_ok val \<longleftrightarrow> is_valid_name val \<and> \<not> is_restricted_nickname val"

definition nickname_try_from :: "string \<Rightarrow> request_error + string" where
  "nickname_try_from val = (if nickname_ok val then Inr val else Inl (NoSuchNick val))"

definition channel_name_try_from :: "string \<Rightarrow> request_error + string" where
  "channel_name_try_from val =
     (if is_valid_channel_name val then Inr val else Inl (NoSuchChannel val))"

definition key_try_from :: "string \<Rightarrow> unit + string" where
  "key_try_from val = (if is_valid_name val then Inr val else Inl ())"

definition host_name_try_from :: "string \<Rightarrow> unit + string" where
  "host_name_try_from val = (if is_valid_name val then Inr val else Inl ())"

section \<open>Lists\<close>

text \<open>\<open>List::iter\<close>: the pieces that pass the check, the others silently dropped.\<close>

definition list_iter :: "(string \<Rightarrow> 'e + string) \<Rightarrow> char \<Rightarrow> string \<Rightarrow> string list" where
  "list_iter try_from sep raw =
     concat (map (\<lambda>p. case try_from p of Inr x \<Rightarrow> [x] | Inl _ \<Rightarrow> []) (str_split sep raw))"

abbreviation channel_names :: "string \<Rightarrow> string list" where
  "channel_names \<equiv> list_iter channel_name_try_from (CHR '','')"

abbreviation nicknames :: "string \<Rightarrow> string list" where
  "nicknames \<equiv> list_iter nickname_try_from (CHR '','')"

text \<open>\<open>JoinList::iter\<close> zips the names with the keys, then with \<open>None\<close>.\<close>

fun zip_keys :: "string list \<Rightarrow> string list \<Rightarrow> (string \<times> string option) list" where
  "zip_keys [] keys = []"
| "zip_keys (n # ns) [] = (n, None) # zip_keys ns []"
| "zip_keys (n # ns) (k # ks) = (n, Some k) # zip_keys ns ks"

definition join_list_iter :: "string \<Rightarrow> string \<Rightarrow> (string \<times> string option) list" where
  "join_list_iter names keys =
     zip_keys (channel_names names) (list_iter key_try_from (CHR '','') keys)"

section \<open>Facts\<close>

named_theorems names "facts about checked strings"

lemma nickname_channel_disjoint [names]: "nickname_ok s \<Longrightarrow> \<not> is_valid_channel_name s"
  by (auto simp: nickname_ok_def is_valid_name_def is_valid_channel_name_def is_namespace_def
      split: list.splits)

lemma nickname_nonempty [names]: "nickname_ok s \<Longrightarrow> s \<noteq> []"
  by (auto simp: nickname_ok_def is_valid_name_def)

lemma channel_name_nonempty [names]: "is_valid_channel_name s \<Longrightarrow> s \<noteq> []"
  by (auto simp: is_valid_channel_name_def)

lemma try_from_simps [simp]:
  "nickname_try_from s = Inr t \<longleftrightarrow> t = s \<and> nickname_ok s"
  "channel_name_try_from s = Inr t \<longleftrightarrow> t = s \<and> is_valid_channel_name s"
  "mask_try_from s = Inr t \<longleftrightarrow> t = s \<and> is_valid_mask s"
  "key_try_from s = Inr t \<longleftrightarrow> t = s \<and> is_valid_name s"
  by (auto simp: nickname_try_from_def channel_name_try_from_def mask_try_from_def key_try_from_def)

lemma list_iter_filter:
  assumes "\<And>p x. try_from p = Inr x \<longleftrightarrow> x = p \<and> ok p"
  shows "list_iter try_from sep raw = filter ok (str_split sep raw)"
proof -
  have "(case try_from p of Inr x \<Rightarrow> [x] | Inl _ \<Rightarrow> []) = (if ok p then [p] else [])" for p
    using assms [of p] by (cases "try_from p") auto
  moreover have "concat (map (\<lambda>p. if ok p then [p] else []) xs) = filter ok xs" for xs
    by (induction xs) simp_all
  ultimately show ?thesis by (simp add: list_iter_def)
qed

lemma channel_names_filter: "channel_names raw = filter is_valid_channel_name (str_split (CHR '','') raw)"
  by (rule list_iter_filter) simp

lemma nicknames_filter: "nicknames raw = filter nickname_ok (str_split (CHR '','') raw)"
  by (rule list_iter_filter) simp

lemma channel_names_ok [names]: "n \<in> set (channel_names raw) \<Longrightarrow> is_valid_channel_name n"
  by (simp add: channel_names_filter)

lemma nicknames_ok [names]: "n \<in> set (nicknames raw) \<Longrightarrow> nickname_ok n"
  by (simp add: nicknames_filter)

lemma zip_keys_names: "map fst (zip_keys ns ks) = ns"
  by (induction ns ks rule: zip_keys.induct) auto

lemma zip_keys_nth:
  "i < length ns \<Longrightarrow> zip_keys ns ks ! i = (ns ! i, if i < length ks then Some (ks ! i) else None)"
proof (induction ns ks arbitrary: i rule: zip_keys.induct)
  case (2 n ns)
  then show ?case by (cases i) auto
next
  case (3 n ns k ks)
  then show ?case by (cases i) auto
qed simp

lemma join_list_names [names]:
  "(n, k) \<in> set (join_list_iter names keys) \<Longrightarrow> is_valid_channel_name n"
proof -
  assume "(n, k) \<in> set (join_list_iter names keys)"
  then have "n \<in> fst ` set (zip_keys (channel_names names) (list_iter key_try_from (CHR '','') keys))"
    by (force simp: join_list_iter_def)
  then have "n \<in> set (channel_names names)" unfolding set_map [symmetric] zip_keys_names .
  then show ?thesis by (rule channel_names_ok)
qed

text \<open>Joining several channels.  When all the names and all the keys of a \<open>JOIN\<close> are valid, the
  n-th key goes to the n-th channel, and the channels after the last key get none.\<close>

lemma join_list_pairs:
  assumes "ns \<noteq> []" and "\<forall>n \<in> set ns. is_valid_channel_name n \<and> CHR '','' \<notin> set n"
    and "ks \<noteq> []" and "\<forall>k \<in> set ks. is_valid_name k \<and> CHR '','' \<notin> set k"
    and "i < length ns"
  shows "join_list_iter (str_join (CHR '','') ns) (str_join (CHR '','') ks) ! i =
    (ns ! i, if i < length ks then Some (ks ! i) else None)"
proof -
  have "list_iter key_try_from (CHR '','') raw = filter is_valid_name (str_split (CHR '','') raw)" for raw
    by (rule list_iter_filter) simp
  then show ?thesis
    using assms
    by (simp add: join_list_iter_def channel_names_filter str_split_join zip_keys_nth filter_id_conv)
qed

lemma join_list_pairs_sample:
  "join_list_iter ''#a,#b'' ''k'' ! 1 = (''#b'', None)"
proof -
  have "\<forall>n \<in> set [''#a'', ''#b'']. is_valid_channel_name n \<and> CHR '','' \<notin> set n"
    "\<forall>k \<in> set [''k'']. is_valid_name k \<and> CHR '','' \<notin> set k"
    by code_simp+
  from join_list_pairs [OF _ this(1) _ this(2), of 1] show ?thesis by simp
qed

text \<open>An invalid name is dropped from its list, but its key is not.\<close>

lemma join_list_mispairs:
  "join_list_iter ''bad,#b'' ''k1,k2'' = [(''#b'', Some ''k1'')]"
  by code_simp

end
