(* ===== verification/Requests.thy ===== *)
theory Requests
  imports Names Messages ModeQuery
begin

text \<open>
  \<open>src/data/req.rs\<close>, \<open>auth.rs\<close> and \<open>modes.rs\<close>: from a parsed message to a typed request, and the
  price of each request for the rate limiter.  The structures that hold the arguments of a request
  are the arguments of its constructor, in the order of their fields; a list of names is its raw
  text, as in the source, and is split where it is used.
\<close>

section \<open>Authentication payloads\<close>

datatype mechanism = Plain | External

datatype payload = Abort | Mechanism mechanism | Chunk string

definition payload_from :: "string \<Rightarrow> payload" where
  "payload_from val =
     (if val = ''*'' then Abort
      else if val = ''+'' then Chunk []
      else if val = ''PLAIN'' then Mechanism Plain
      else if val = ''EXTERNAL'' then Mechanism External
      else Chunk val)"

section \<open>Requests\<close>

record who_filter =
  wf_operator :: bool

definition who_filter_from :: "string \<Rightarrow> who_filter" where
  "who_filter_from val = \<lparr>wf_operator = (''o'' \<in> set (chars val))\<rparr>"

text \<open>\<open>modes::Channel\<close> is the mode text with the parameters after it, \<open>modes::User\<close> the mode text.\<close>

datatype (plugins only: code) request =
    Req_Admin
  | Req_Info
  | Req_LUsers
  | Req_Motd
  | Req_Time
  | Req_Version
  | Req_WhoChannel string who_filter
  | Req_WhoMask string who_filter
  | Req_WhoUser string who_filter
  | Req_WhoAll who_filter
  | Req_WhoIs string
  | Req_Kill string string
  | Req_Oper string string
  | Req_Rehash
  | Req_List string
  | Req_ListAll
  | Req_Names string
  | Req_NamesAll
  | Req_TopicGet string
  | Req_TopicSet string string
  | Req_Authenticate payload
  | Req_CapLs version
  | Req_CapList
  | Req_CapReq cap_diff
  | Req_CapEnd
  | Req_Pass string
  | Req_Ping string
  | Req_Pong string
  | Req_Quit "string option"
  | Req_User string string
  | Req_Away "string option"
  | Req_ModeUserGet string
  | Req_ModeUserSet string string
  | Req_Nick string
  | Req_SetName string
  | Req_Invite string string
  | Req_Join string string
  | Req_Kick string string "string option"
  | Req_MessageAll bool command "string option"
  | Req_MessageChannel bool command string "string option"
  | Req_MessageUser bool command string "string option"
  | Req_ModeChannelGet string
  | Req_ModeChannelSet string string "string list"
  | Req_Part string "string option"
  | Req_PartAll

section \<open>Request::new\<close>

text \<open>The two ways a result is mapped: \<open>?\<close> on the error, and \<open>if s.is_empty() { None } else
  { Some(s) }\<close>.\<close>

definition map_ok :: "('a \<Rightarrow> 'b) \<Rightarrow> 'e + 'a \<Rightarrow> 'e + 'b" where
  "map_ok f r = (case r of Inl e \<Rightarrow> Inl e | Inr x \<Rightarrow> Inr (f x))"

definition none_if_empty :: "string \<Rightarrow> string option" where
  "none_if_empty s = (if s = [] then None else Some s)"

definition request_who :: "message \<Rightarrow> request_error + request" where
  "request_who msg =
     (let msk = param msg 0; flt = who_filter_from (param msg 1)
      in if msk = [] \<or> msk = ''*'' then Inr (Req_WhoAll flt)
         else case channel_name_try_from msk of
           Inr msk \<Rightarrow> Inr (Req_WhoChannel msk flt)
         | Inl _ \<Rightarrow>
             (case nickname_try_from msk of
                Inr msk \<Rightarrow> Inr (Req_WhoUser msk flt)
              | Inl _ \<Rightarrow> map_ok (\<lambda>msk. Req_WhoMask msk flt) (mask_try_from msk)))"

definition request_cap :: "message \<Rightarrow> request_error + request" where
  "request_cap msg =
     (let sub = param msg 0
      in if sub = ''LS'' then Inr (Req_CapLs (version_from (param msg 1)))
         else if sub = ''LIST'' then Inr Req_CapList
         else if sub = ''REQ'' then map_ok Req_CapReq (cap_diff_try_from (param msg 1))
         else if sub = ''END'' then Inr Req_CapEnd
         else Inl (InvalidCapCmd sub))"

text \<open>The slice \<open>params[2..num_params]\<close>, which panics when its bounds are out of order or out of range.\<close>

definition params_from_2 :: "message \<Rightarrow> string list option" where
  "params_from_2 msg =
     (if 2 \<le> msg_num_params msg \<and> msg_num_params msg \<le> length (msg_params msg)
      then Some (drop 2 (take (msg_num_params msg) (msg_params msg))) else None)"

definition request_mode :: "message \<Rightarrow> (request_error + request) option" where
  "request_mode msg =
     (let n = msg_num_params msg
      in case channel_name_try_from (param msg 0) of
           Inr channel \<Rightarrow>
             if n = 1 then Some (Inr (Req_ModeChannelGet channel))
             else map_option (\<lambda>ps. Inr (Req_ModeChannelSet channel (param msg 1) ps)) (params_from_2 msg)
         | Inl _ \<Rightarrow>
             Some (map_ok (\<lambda>user. if n = 1 then Req_ModeUserGet user
                                  else Req_ModeUserSet user (param msg 1))
                     (nickname_try_from (param msg 0))))"

text \<open>\<open>PRIVMSG\<close>, \<open>NOTICE\<close> and \<open>TAGMSG\<close>, with the early return for an empty content.\<close>

definition request_message :: "message \<Rightarrow> command \<Rightarrow> request_error + request" where
  "request_message msg command =
     (let feedback = (command \<noteq> Cmd_Notice);
          to = param msg 0
      in if command \<noteq> Cmd_TagMsg \<and> param msg 1 = [] then Inl (NeedMoreParams command 1)
         else
           (let content = (if command = Cmd_TagMsg then None else Some (param msg 1))
            in if to = ''*'' then Inr (Req_MessageAll feedback command content)
               else case channel_name_try_from to of
                 Inr to \<Rightarrow> Inr (Req_MessageChannel feedback command to content)
               | Inl _ \<Rightarrow>
                   map_ok (\<lambda>to. Req_MessageUser feedback command to content)
                     (nickname_try_from to)))"

definition request_join :: "message \<Rightarrow> request" where
  "request_join msg =
     (if param msg 0 = ''0'' then Req_PartAll else Req_Join (param msg 0) (param msg 1))"

definition request_kick :: "message \<Rightarrow> request_error + request" where
  "request_kick msg =
     map_ok (\<lambda>from'. Req_Kick (param msg 1) from' (none_if_empty (param msg 2)))
       (channel_name_try_from (param msg 0))"

definition request_part :: "message \<Rightarrow> request" where
  "request_part msg = Req_Part (param msg 0) (none_if_empty (param msg 1))"

declare request_join_def [simp] request_kick_def [simp] request_part_def [simp]

text \<open>The panics are the \<open>unreachable!()\<close> for numeric replies and the slice of \<open>MODE\<close>.\<close>

definition request_of :: "message \<Rightarrow> command \<Rightarrow> (request_error + request) option" where
  "request_of msg command =
     (let p = param msg
      in case command of
        Cmd_Admin \<Rightarrow> Some (Inr Req_Admin)
      | Cmd_Info \<Rightarrow> Some (Inr Req_Info)
      | Cmd_LUsers \<Rightarrow> Some (Inr Req_LUsers)
      | Cmd_Motd \<Rightarrow> Some (Inr Req_Motd)
      | Cmd_Time \<Rightarrow> Some (Inr Req_Time)
      | Cmd_Version \<Rightarrow> Some (Inr Req_Version)
      | Cmd_Who \<Rightarrow> Some (request_who msg)
      | Cmd_WhoIs \<Rightarrow> Some (map_ok Req_WhoIs (nickname_try_from (p 0)))
      | Cmd_Kill \<Rightarrow> Some (map_ok (\<lambda>who. Req_Kill who (p 1)) (nickname_try_from (p 0)))
      | Cmd_Oper \<Rightarrow> Some (Inr (Req_Oper (p 0) (p 1)))
      | Cmd_Rehash \<Rightarrow> Some (Inr Req_Rehash)
      | Cmd_List \<Rightarrow> Some (Inr (if p 0 = [] then Req_ListAll else Req_List (p 0)))
      | Cmd_Names \<Rightarrow> Some (Inr (if p 0 = [] then Req_NamesAll else Req_Names (p 0)))
      | Cmd_Topic \<Rightarrow>
          Some (map_ok (\<lambda>channel. if msg_num_params msg = 1 then Req_TopicGet channel
                                   else Req_TopicSet channel (p 1))
                  (channel_name_try_from (p 0)))
      | Cmd_Authenticate \<Rightarrow> Some (Inr (Req_Authenticate (payload_from (p 0))))
      | Cmd_Cap \<Rightarrow> Some (request_cap msg)
      | Cmd_Pass \<Rightarrow> Some (Inr (Req_Pass (p 0)))
      | Cmd_Ping \<Rightarrow> Some (Inr (Req_Ping (p 0)))
      | Cmd_Pong \<Rightarrow> Some (Inr (Req_Pong (p 0)))
      | Cmd_Quit \<Rightarrow> Some (Inr (Req_Quit (none_if_empty (p 0))))
      | Cmd_User \<Rightarrow> Some (Inr (Req_User (p 0) (p 3)))
      | Cmd_Away \<Rightarrow> Some (Inr (Req_Away (none_if_empty (p 0))))
      | Cmd_Mode \<Rightarrow> request_mode msg
      | Cmd_Nick \<Rightarrow>
          Some (case nickname_try_from (p 0) of
                  Inl _ \<Rightarrow> Inl (ErroneousNickname (p 0))
                | Inr nickname \<Rightarrow> Inr (Req_Nick nickname))
      | Cmd_SetName \<Rightarrow> Some (Inr (Req_SetName (p 0)))
      | Cmd_Invite \<Rightarrow>
          Some (case nickname_try_from (p 0) of
                  Inl e \<Rightarrow> Inl e
                | Inr who \<Rightarrow> map_ok (Req_Invite who) (channel_name_try_from (p 1)))
      | Cmd_Join \<Rightarrow> Some (Inr (request_join msg))
      | Cmd_Kick \<Rightarrow> Some (request_kick msg)
      | Cmd_PrivMsg \<Rightarrow> Some (request_message msg command)
      | Cmd_Notice \<Rightarrow> Some (request_message msg command)
      | Cmd_TagMsg \<Rightarrow> Some (request_message msg command)
      | Cmd_Part \<Rightarrow> Some (Inr (request_part msg))
      | Reply _ \<Rightarrow> None)"

definition request_new :: "message \<Rightarrow> (request_error + request) option" where
  "request_new msg =
     (case msg_command msg of
        Inl unknown \<Rightarrow> Some (Inl (UnknownCommand unknown))
      | Inr command \<Rightarrow>
          if \<not> has_enough_params msg
          then Some (Inl (NeedMoreParams command (msg_num_params msg)))
          else request_of msg command)"

section \<open>Points\<close>

fun points :: "request \<Rightarrow> 32 word" where
  "points Req_Admin = 2"
| "points Req_Info = 3"
| "points Req_LUsers = 3"
| "points Req_Motd = 3"
| "points Req_Time = 2"
| "points Req_Version = 2"
| "points (Req_WhoChannel _ _) = 5"
| "points (Req_WhoMask _ _) = 10"
| "points (Req_WhoUser _ _) = 4"
| "points (Req_WhoAll _) = 8"
| "points (Req_WhoIs _) = 4"
| "points (Req_Kill _ _) = 16"
| "points (Req_Oper _ _) = 16"
| "points Req_Rehash = 16"
| "points (Req_List _) = 4"
| "points Req_ListAll = 8"
| "points (Req_Names _) = 4"
| "points Req_NamesAll = 2"
| "points (Req_TopicGet _) = 4"
| "points (Req_TopicSet _ _) = 7"
| "points (Req_Authenticate _) = 16"
| "points (Req_CapLs _) = 1"
| "points Req_CapList = 1"
| "points (Req_CapReq _) = 1"
| "points Req_CapEnd = 1"
| "points (Req_Pass _) = 2"
| "points (Req_Ping _) = 2"
| "points (Req_Pong _) = 2"
| "points (Req_Quit _) = 2"
| "points (Req_User _ _) = 2"
| "points (Req_Away _) = 8"
| "points (Req_ModeUserGet _) = 4"
| "points (Req_ModeUserSet _ _) = 7"
| "points (Req_Nick _) = 8"
| "points (Req_SetName _) = 8"
| "points (Req_Invite _ _) = 10"
| "points (Req_Join _ _) = 8"
| "points (Req_Kick _ _ _) = 6"
| "points (Req_MessageAll _ _ _) = 24"
| "points (Req_MessageChannel _ _ _ _) = 8"
| "points (Req_MessageUser _ _ _ _) = 8"
| "points (Req_ModeChannelGet _) = 4"
| "points (Req_ModeChannelSet _ _ _) = 7"
| "points (Req_Part _ _) = 6"
| "points Req_PartAll = 12"

section \<open>Facts\<close>

lemma points_range: "1 \<le> points r" "points r \<le> 24"
  by (cases r; simp)+

text \<open>The invariant that the types of the source give a request: names have been checked.\<close>

fun request_ok :: "request \<Rightarrow> bool" where
  "request_ok (Req_WhoChannel c _) = is_valid_channel_name c"
| "request_ok (Req_WhoMask m _) = is_valid_mask m"
| "request_ok (Req_WhoUser n _) = nickname_ok n"
| "request_ok (Req_WhoIs n) = nickname_ok n"
| "request_ok (Req_Kill n _) = nickname_ok n"
| "request_ok (Req_TopicGet c) = is_valid_channel_name c"
| "request_ok (Req_TopicSet c _) = is_valid_channel_name c"
| "request_ok (Req_ModeUserGet n) = nickname_ok n"
| "request_ok (Req_ModeUserSet n _) = nickname_ok n"
| "request_ok (Req_Nick n) = nickname_ok n"
| "request_ok (Req_Invite n c) = (nickname_ok n \<and> is_valid_channel_name c)"
| "request_ok (Req_Kick _ c _) = is_valid_channel_name c"
| "request_ok (Req_MessageChannel _ cmd c content) =
     (is_valid_channel_name c \<and> (content = None \<longleftrightarrow> cmd = Cmd_TagMsg) \<and> content \<noteq> Some [])"
| "request_ok (Req_MessageUser _ cmd n content) =
     (nickname_ok n \<and> (content = None \<longleftrightarrow> cmd = Cmd_TagMsg) \<and> content \<noteq> Some [])"
| "request_ok (Req_MessageAll _ cmd content) =
     ((content = None \<longleftrightarrow> cmd = Cmd_TagMsg) \<and> content \<noteq> Some [])"
| "request_ok (Req_ModeChannelGet c) = is_valid_channel_name c"
| "request_ok (Req_ModeChannelSet c _ _) = is_valid_channel_name c"
| "request_ok _ = True"

lemma map_ok_Inr [simp]: "map_ok f r = Inr y \<longleftrightarrow> (\<exists>x. r = Inr x \<and> y = f x)"
  by (cases r) (auto simp: map_ok_def)

lemma request_parts_ok:
  "request_who msg = Inr r \<Longrightarrow> request_ok r"
  "request_cap msg = Inr r \<Longrightarrow> request_ok r"
  "request_mode msg = Some (Inr r) \<Longrightarrow> request_ok r"
  "request_message msg command = Inr r \<Longrightarrow> request_ok r"
  by (auto simp: request_who_def request_cap_def request_mode_def request_message_def Let_def
      split: sum.splits if_splits)

lemma request_of_ok: "request_of msg command = Some (Inr r) \<Longrightarrow> request_ok r"
  by (cases command)
    (auto simp: request_of_def Let_def request_parts_ok split: sum.splits if_splits)

lemma request_mode_total:
  assumes "length (msg_params msg) = PARAMS_LENGTH" and "1 \<le> msg_num_params msg" and "msg_num_params msg \<le> PARAMS_LENGTH"
  shows "request_mode msg \<noteq> None"
  using assms by (auto simp: request_mode_def params_from_2_def Let_def split: sum.splits)

lemma request_of_total:
  assumes "\<not> is_Reply command" and "command = Cmd_Mode \<Longrightarrow> request_mode msg \<noteq> None"
  shows "request_of msg command \<noteq> None"
  using assms by (cases command) (simp_all add: request_of_def Let_def)

text \<open>The check of the number of parameters is what keeps the slice of \<open>MODE\<close> in range.\<close>

lemma request_of_parsed:
  assumes "message_parse s = Some msg" and "msg_command msg = Inr command" and "has_enough_params msg"
  shows "request_of msg command \<noteq> None"
proof (rule request_of_total)
  show "\<not> is_Reply command" by (rule message_parse_shape(4) [OF assms(1,2)])
next
  assume "command = Cmd_Mode"
  moreover have "required_params Cmd_Mode = 1" by code_simp
  ultimately have "1 \<le> msg_num_params msg" using assms(2,3) by (simp add: has_enough_params_def)
  then show "request_mode msg \<noteq> None"
    using request_mode_total message_parse_shape(1,2) [OF assms(1)] by simp
qed

lemma request_new_cases:
  assumes "message_parse s = Some msg"
  obtains res where "request_new msg = Some res" and "\<And>r. res = Inr r \<Longrightarrow> request_ok r"
proof (cases "msg_command msg")
  case (Inr command)
  show ?thesis
  proof (cases "has_enough_params msg")
    case True
    then obtain res where "request_of msg command = Some res"
      using request_of_parsed [OF assms Inr] by blast
    then show ?thesis using Inr True request_of_ok [of msg command] that by (simp add: request_new_def)
  qed (use Inr that in \<open>simp add: request_new_def\<close>)
qed (use that in \<open>simp add: request_new_def\<close>)

text \<open>C26: Requests are checked.  Turning a parsed message into a request never panics, and every
  name a request carries has passed the check of its type: nicknames, channel names and masks are
  valid, and a message has a content exactly when it is no \<open>TAGMSG\<close>, never an empty one.\<close>

theorem request_new_checked:
  assumes "message_parse s = Some msg"
  shows "\<exists>res. request_new msg = Some res \<and> (\<forall>r. res = Inr r \<longrightarrow> request_ok r)"
  by (rule request_new_cases [OF assms]) simp

theorem request_new_checked_witness:
  "\<exists>msg. message_parse ''INVITE bob #rust'' = Some msg
     \<and> request_new msg = Some (Inr (Req_Invite ''bob'' ''#rust''))
     \<and> request_ok (Req_Invite ''bob'' ''#rust'')"
proof -
  have "map_option request_new (message_parse ''INVITE bob #rust'')
      = Some (Some (Inr (Req_Invite ''bob'' ''#rust'')))"
    by code_simp
  then obtain msg where m: "message_parse ''INVITE bob #rust'' = Some msg"
    "request_new msg = Some (Inr (Req_Invite ''bob'' ''#rust''))"
    by auto
  with request_new_checked [OF m(1)] show ?thesis by auto
qed

end
