(* ===== verification/Buffers.thy ===== *)
theory Buffers
  imports Messages
begin

text \<open>
  \<open>ellidri-tokens/src/buffers.rs\<close>: the builders of messages.  A builder borrows the buffer's
  \<open>String\<close> mutably; in the model every call takes the text and returns the new one.  One Rust
  statement such as \<open>b.message(p, c).param(x).trailing_param(y);\<close> builds one message, whose drop
  appends the line end: here a list of \<open>mb_call\<close>s, applied in order and closed by \<open>mb_drop\<close>.
\<close>

section \<open>MessageBuffer\<close>

definition crlf :: string where
  "crlf = [CHR 0x0D, CHR 0x0A]"

definition mb_with_prefix :: "string \<Rightarrow> string \<Rightarrow> command \<Rightarrow> string" where
  "mb_with_prefix buf prefix command =
     (if prefix \<noteq> [] then buf @ '':'' @ prefix @ '' '' else buf) @ as_str command"

definition mb_param :: "string \<Rightarrow> string \<Rightarrow> string" where
  "mb_param p buf = (let p = str_trim p in if p = [] then buf else buf @ '' '' @ p)"

definition mb_fmt_param :: "string \<Rightarrow> string \<Rightarrow> string" where
  "mb_fmt_param p buf = buf @ '' '' @ p"

text \<open>\<open>raw_param\<close> hands the text out after the space: \<open>p\<close> is what the caller pushes.\<close>

definition mb_raw_param :: "string \<Rightarrow> string \<Rightarrow> string" where
  "mb_raw_param p buf = buf @ '' '' @ p"

definition mb_trailing_param :: "string \<Rightarrow> string \<Rightarrow> string" where
  "mb_trailing_param p buf = buf @ '' '' @ '':'' @ p"

definition mb_fmt_trailing_param :: "string \<Rightarrow> string \<Rightarrow> string" where
  "mb_fmt_trailing_param p buf = buf @ '' :'' @ p"

definition mb_raw_trailing_param :: "string \<Rightarrow> string \<Rightarrow> string" where
  "mb_raw_trailing_param p buf = buf @ '' '' @ '':'' @ p"

definition mb_drop :: "string \<Rightarrow> string" where
  "mb_drop buf = buf @ crlf"

datatype mb_call =
    Param string
  | FmtParam string
  | RawParam string
  | TrailingParam string
  | FmtTrailingParam string
  | RawTrailingParam string

fun mb_apply :: "mb_call \<Rightarrow> string \<Rightarrow> string" where
  "mb_apply (Param p) = mb_param p"
| "mb_apply (FmtParam p) = mb_fmt_param p"
| "mb_apply (RawParam p) = mb_raw_param p"
| "mb_apply (TrailingParam p) = mb_trailing_param p"
| "mb_apply (FmtTrailingParam p) = mb_fmt_trailing_param p"
| "mb_apply (RawTrailingParam p) = mb_raw_trailing_param p"

definition mb_statement :: "mb_call list \<Rightarrow> string \<Rightarrow> string" where
  "mb_statement calls buf = mb_drop (fold mb_apply calls buf)"

section \<open>TagBuffer\<close>

definition escape_char :: "char \<Rightarrow> string" where
  "escape_char c =
     (if c = CHR '';'' then [CHR 0x5C, CHR '':'']
      else if c = CHR '' '' then [CHR 0x5C, CHR ''s'']
      else if c = CHR 0x0D then [CHR 0x5C, CHR ''r'']
      else if c = CHR 0x0A then [CHR 0x5C, CHR ''n'']
      else if c = CHR 0x5C then [CHR 0x5C, CHR 0x5C]
      else [c])"

definition write_escaped :: "string \<Rightarrow> string \<Rightarrow> string" where
  "write_escaped buf value = buf @ concat (map escape_char value)"

record tag_buffer =
  tb_buf :: string
  tb_start :: nat

definition tb_new :: "string \<Rightarrow> tag_buffer" where
  "tb_new buf = \<lparr>tb_buf = buf @ ''@'', tb_start = length buf\<rparr>"

definition tb_is_empty :: "tag_buffer \<Rightarrow> bool" where
  "tb_is_empty tb \<longleftrightarrow> length (tb_buf tb) = tb_start tb + 1"

definition tb_sep :: "tag_buffer \<Rightarrow> string" where
  "tb_sep tb = (if \<not> tb_is_empty tb then tb_buf tb @ '';'' else tb_buf tb)"

definition tb_tag :: "string \<Rightarrow> string option \<Rightarrow> tag_buffer \<Rightarrow> tag_buffer" where
  "tb_tag key value tb =
     (let buf = tb_sep tb @ key
      in tb\<lparr>tb_buf := (case value of
                          None \<Rightarrow> buf
                        | Some v \<Rightarrow> write_escaped (buf @ ''='') v)\<rparr>)"

definition tb_raw_tag :: "string \<Rightarrow> tag_buffer \<Rightarrow> tag_buffer" where
  "tb_raw_tag s tb = tb\<lparr>tb_buf := tb_sep tb @ s\<rparr>"

definition tb_save_tag_len :: "tag_buffer \<Rightarrow> nat" where
  "tb_save_tag_len tb =
     (if tb_buf tb \<noteq> [] \<and> last (tb_buf tb) = CHR ''@'' then 0
      else length (tb_buf tb) + 1 - tb_start tb)"

definition tb_prefixed_command :: "string \<Rightarrow> command \<Rightarrow> tag_buffer \<Rightarrow> string" where
  "tb_prefixed_command prefix cmd tb =
     mb_with_prefix
       (if tb_is_empty tb then butlast (tb_buf tb) else tb_buf tb @ '' '') prefix cmd"

section \<open>Buffer\<close>

definition buffer_message :: "string \<Rightarrow> command \<Rightarrow> mb_call list \<Rightarrow> string \<Rightarrow> string" where
  "buffer_message prefix cmd calls buf = mb_statement calls (mb_with_prefix buf prefix cmd)"

definition client_tag_ok :: "string \<Rightarrow> bool" where
  "client_tag_ok s \<longleftrightarrow> s \<noteq> [] \<and> hd s = CHR ''+'' \<and> take 2 s \<noteq> ''+=''"

definition buffer_tagged_message :: "string \<Rightarrow> string \<Rightarrow> tag_buffer" where
  "buffer_tagged_message client_tags buf =
     fold tb_raw_tag (filter client_tag_ok (str_split (CHR '';'') client_tags)) (tb_new buf)"

section \<open>ReplyBuffer\<close>

text \<open>
  The thread-local \<open>DOMAIN\<close>, \<open>NICKNAME\<close> and \<open>LABEL\<close> are fields of the record: \<open>handle_message\<close>
  makes one \<open>ReplyBuffer\<close>, which sets them, and drops it before it returns, and nothing else on
  that thread runs in between.
\<close>

record reply_buffer =
  rb_buf :: string
  rb_batch :: "nat option"
  rb_has_label :: bool
  rb_domain :: string
  rb_nick :: string
  rb_label :: string

definition rb_new :: "string \<Rightarrow> string \<Rightarrow> string \<Rightarrow> reply_buffer" where
  "rb_new domain nickname label =
     \<lparr>rb_buf = [], rb_batch = None, rb_has_label = (label \<noteq> []),
      rb_domain = domain, rb_nick = nickname, rb_label = label\<rparr>"

definition rb_is_empty :: "reply_buffer \<Rightarrow> bool" where
  "rb_is_empty rb \<longleftrightarrow> rb_buf rb = []"

definition rb_set_nick :: "string \<Rightarrow> reply_buffer \<Rightarrow> reply_buffer" where
  "rb_set_nick nickname rb = rb\<lparr>rb_nick := nickname\<rparr>"

definition rb_tagged_message :: "string \<Rightarrow> reply_buffer \<Rightarrow> tag_buffer \<times> reply_buffer" where
  "rb_tagged_message tgs rb =
     (let msg = buffer_tagged_message tgs (rb_buf rb);
          msg = (if rb_has_label rb then tb_tag ''label'' (Some (rb_label rb)) msg else msg);
          msg = (case rb_batch rb of
                   Some batch \<Rightarrow> tb_tag ''batch'' (Some (show_nat batch)) msg
                 | None \<Rightarrow> msg)
      in (msg, rb\<lparr>rb_has_label := False\<rparr>))"

text \<open>One statement \<open>rb.tagged_message(tgs).tag(..)...prefixed_command(prefix, cmd)...;\<close>.\<close>

definition rb_tagged_statement ::
  "string \<Rightarrow> (string \<times> string option) list \<Rightarrow> string \<Rightarrow> command \<Rightarrow> mb_call list
   \<Rightarrow> reply_buffer \<Rightarrow> reply_buffer" where
  "rb_tagged_statement tgs kvs prefix cmd calls rb =
     (let (msg, rb) = rb_tagged_message tgs rb;
          msg = fold (\<lambda>(k, v). tb_tag k v) kvs msg
      in rb\<lparr>rb_buf := mb_statement calls (tb_prefixed_command prefix cmd msg)\<rparr>)"

definition rb_message :: "string \<Rightarrow> command \<Rightarrow> mb_call list \<Rightarrow> reply_buffer \<Rightarrow> reply_buffer" where
  "rb_message prefix cmd calls rb = rb_tagged_statement [] [] prefix cmd calls rb"

definition rb_prefixed_message :: "command \<Rightarrow> mb_call list \<Rightarrow> reply_buffer \<Rightarrow> reply_buffer" where
  "rb_prefixed_message cmd calls rb = rb_message (rb_domain rb) cmd calls rb"

definition rb_reply :: "command \<Rightarrow> mb_call list \<Rightarrow> reply_buffer \<Rightarrow> reply_buffer" where
  "rb_reply r calls rb = rb_prefixed_message r (Param (rb_nick rb) # calls) rb"

definition rb_new_batch :: "reply_buffer \<Rightarrow> nat \<times> reply_buffer" where
  "rb_new_batch rb =
     (let next_id = (case rb_batch rb of None \<Rightarrow> 0 | Some prev \<Rightarrow> prev + 1)
      in (next_id, rb\<lparr>rb_batch := Some next_id\<rparr>))"

definition rb_lr_batch_begin :: "reply_buffer \<Rightarrow> reply_buffer" where
  "rb_lr_batch_begin rb =
     (if \<not> rb_has_label rb then rb
      else
        (let rb = rb\<lparr>rb_has_label := False\<rparr>;
             (new_batch, rb) = rb_new_batch rb;
             msg = tb_tag ''label'' (Some (rb_label rb)) (buffer_tagged_message [] (rb_buf rb))
         in rb\<lparr>rb_buf := mb_statement
                 [FmtParam (''+'' @ show_nat new_batch), Param ''labeled-response'']
                 (tb_prefixed_command (rb_domain rb) (Reply ''BATCH'') msg)\<rparr>))"

definition rb_batch_begin :: "string \<Rightarrow> reply_buffer \<Rightarrow> reply_buffer" where
  "rb_batch_begin name rb =
     (let (new_batch, rb) = rb_new_batch rb
      in rb_prefixed_message (Reply ''BATCH'') [FmtParam (''+'' @ show_nat new_batch), Param name] rb)"

definition rb_batch_end :: "reply_buffer \<Rightarrow> reply_buffer" where
  "rb_batch_end rb =
     (case rb_batch rb of
        None \<Rightarrow> rb
      | Some prev \<Rightarrow>
          rb_prefixed_message (Reply ''BATCH'') [FmtParam (''-'' @ show_nat prev)]
            (rb\<lparr>rb_batch := (if prev = 0 then None else Some (prev - 1))\<rparr>))"

text \<open>\<open>lr_end\<close> panics when a batch is still open after it closed one.\<close>

definition rb_lr_end :: "reply_buffer \<Rightarrow> reply_buffer option" where
  "rb_lr_end rb =
     (if \<not> rb_has_label rb \<and> rb_batch rb = None then Some rb
      else
        (let rb = (if rb_batch rb \<noteq> None then rb_batch_end rb else rb)
         in if rb_batch rb \<noteq> None then None
            else
              (let rb = (if rb_is_empty rb then rb_prefixed_message (Reply ''ACK'') [] rb else rb)
               in Some (rb\<lparr>rb_has_label := False\<rparr>))))"

section \<open>Escaping round trip\<close>

lemma unescape_escape_char: "unescape_loop False (escape_char c @ s) = c # unescape_loop False s"
  by (simp add: escape_char_def tag_escape_def)

lemma unescape_escape: "unescape_loop False (concat (map escape_char v)) = v"
  by (induction v) (simp_all add: unescape_escape_char)

text \<open>An escaped value holds none of the characters that delimit tags.\<close>

lemma escape_char_safe:
  "d \<in> set (escape_char c) \<Longrightarrow> d \<noteq> CHR '';'' \<and> d \<noteq> CHR '' '' \<and> d \<noteq> CHR 0x0D \<and> d \<noteq> CHR 0x0A"
  by (auto simp: escape_char_def split: if_splits)

section \<open>Message round trip\<close>

text \<open>The parameters of a message: words, then possibly one trailing text.\<close>

definition middle :: "string \<Rightarrow> bool" where
  "middle w \<longleftrightarrow> word_ok w \<and> hd w \<noteq> CHR '':''"

definition trailing_ok :: "string \<Rightarrow> bool" where
  "trailing_ok t \<longleftrightarrow> trimmed (CHR '':'' # t)"

definition call_list :: "string list \<Rightarrow> string option \<Rightarrow> mb_call list" where
  "call_list ws t = map Param ws @ (case t of None \<Rightarrow> [] | Some x \<Rightarrow> [TrailingParam x])"

definition pieces :: "string list \<Rightarrow> string option \<Rightarrow> string list" where
  "pieces ws t = ws @ (case t of None \<Rightarrow> [] | Some x \<Rightarrow> [CHR '':'' # x])"

definition param_values :: "string list \<Rightarrow> string option \<Rightarrow> string list" where
  "param_values ws t = ws @ (case t of None \<Rightarrow> [] | Some x \<Rightarrow> [x])"

lemma pieces_line:
  assumes "\<forall>w \<in> set ws. middle w" and "\<forall>x. t = Some x \<longrightarrow> trailing_ok x" and "p \<in> set (pieces ws t)"
  shows "line_piece p"
proof (cases "p \<in> set ws")
  case True
  with assms(1) show ?thesis by (auto simp: middle_def intro: word_ok_piece)
next
  case False
  with assms(3) obtain x where "t = Some x" "p = CHR '':'' # x"
    by (auto simp: pieces_def split: option.splits)
  with assms(2) show ?thesis by (simp add: line_piece_def trailing_ok_def is_cont_def)
qed

lemma fold_param_words:
  "\<forall>w \<in> set ws. word_ok w \<Longrightarrow>
     fold mb_apply (map Param ws) buf = buf @ concat (map (\<lambda>p. CHR '' '' # p) ws)"
  by (induction ws arbitrary: buf) (auto simp: mb_param_def word_ok_def)

lemma fold_call_list:
  assumes "\<forall>w \<in> set ws. middle w"
  shows "fold mb_apply (call_list ws t) buf = buf @ concat (map (\<lambda>p. CHR '' '' # p) (pieces ws t))"
  using assms fold_param_words [of ws buf]
  by (auto simp: call_list_def pieces_def middle_def mb_trailing_param_def split: option.splits)

lemma concat_join:
  "concat (map (\<lambda>p. c # p) ps) = (if ps = [] then [] else c # str_join c ps)"
  by (induction c ps rule: str_join.induct) auto

lemma str_trim_crlf: "str_trim (s @ crlf) = str_trim s"
proof -
  have "s @ crlf = (s @ [CHR 0x0D]) @ [CHR 0x0A]" by (simp add: crlf_def)
  also have "str_trim \<dots> = str_trim (s @ [CHR 0x0D])"
    by (rule str_trim_snoc) (simp add: ascii_whitespace_def)
  also have "\<dots> = str_trim s" by (rule str_trim_snoc) (simp add: ascii_whitespace_def)
  finally show ?thesis .
qed

lemma parse_params_pieces:
  assumes "\<forall>w \<in> set ws. middle w" and "\<forall>x. t = Some x \<longrightarrow> trailing_ok x"
    and "length (pieces ws t) \<le> n"
  shows "parse_params n (str_join (CHR '' '') (pieces ws t)) = param_values ws t"
  using assms(1,3)
proof (induction ws arbitrary: n)
  case Nil
  then show ?case by (cases n; cases t) (auto simp: pieces_def param_values_def)
next
  case (Cons w ws)
  then obtain m where n: "n = Suc m" by (cases n) (auto simp: pieces_def)
  have w: "word_ok w" "w \<noteq> []" "hd w \<noteq> CHR '':''" using Cons.prems by (auto simp: middle_def word_ok_def)
  have IH: "parse_params m (str_join (CHR '' '') (pieces ws t)) = param_values ws t"
    using Cons n by (simp add: pieces_def)
  show ?case
  proof (cases "pieces ws t = []")
    case True
    then have "ws = []" "t = None" by (auto simp: pieces_def split: option.splits)
    moreover have "parse_word w = (w, [])" using w by (simp add: parse_word_no_space word_ok_def)
    ultimately show ?thesis using w n by (cases m) (simp_all add: pieces_def param_values_def)
  next
    case False
    have "line_piece (str_join (CHR '' '') (pieces ws t))"
      using False pieces_line [of ws t] assms(2) Cons.prems by (intro line_piece_join) auto
    then have "str_trim (str_join (CHR '' '') (pieces ws t)) = str_join (CHR '' '') (pieces ws t)"
      by (simp add: line_piece_def)
    then have "parse_word (w @ CHR '' '' # str_join (CHR '' '') (pieces ws t))
        = (w, str_join (CHR '' '') (pieces ws t))"
      using w by (simp add: parse_word_space)
    moreover have "str_join (CHR '' '') (pieces (w # ws) t)
        = w @ CHR '' '' # str_join (CHR '' '') (pieces ws t)"
      using False by (simp add: pieces_def str_join_Cons)
    ultimately show ?thesis using w n IH by (simp add: param_values_def)
  qed
qed

lemma command_word_ok: "\<not> is_Reply c \<Longrightarrow> word_ok (as_str c)"
  using command_name(2,3) by (intro word_ok_ascii) blast+

lemma parse_command_text:
  assumes "\<not> is_Reply c" "\<forall>p \<in> set ps. line_piece p" "e = [] \<or> e = crlf"
  shows "parse_command (str_join (CHR '' '') (as_str c # ps) @ e) = (Inr c, str_join (CHR '' '') ps)"
proof -
  have c: "word_ok (as_str c)" using assms(1) by (rule command_word_ok)
  have "parse_word (str_join (CHR '' '') (as_str c # ps) @ e) = (as_str c, str_join (CHR '' '') ps)"
  proof (cases "ps = []")
    case True
    have "CHR '' '' \<notin> set (as_str c @ e)" using c assms(3) by (auto simp: word_ok_def crlf_def)
    then show ?thesis using True c assms(3) by (auto simp: parse_word_no_space str_trim_crlf)
  next
    case False
    then have "line_piece (str_join (CHR '' '') ps)" using assms(2) by (intro line_piece_join)
    then have "str_trim (str_join (CHR '' '') ps @ e) = str_join (CHR '' '') ps"
      using assms(3) by (auto simp: str_trim_crlf line_piece_def)
    then show ?thesis using False c by (simp add: str_join_Cons parse_word_space)
  qed
  then show ?thesis using command_name(1) [OF assms(1)] by (simp add: parse_command_def)
qed

definition prefix_ok :: "string \<Rightarrow> bool" where
  "prefix_ok p \<longleftrightarrow> p = [] \<or> word_ok (CHR '':'' # p)"

lemma message_roundtrip_parse:
  assumes cmd: "\<not> is_Reply c" and pre: "prefix_ok p" and nul: "CHR 0x00 \<notin> set p"
    and ws: "\<forall>w \<in> set ws. middle w \<and> CHR 0x00 \<notin> set w"
    and t: "\<forall>x. t = Some x \<longrightarrow> trailing_ok x \<and> CHR 0x00 \<notin> set x"
    and len: "length (param_values ws t) \<le> PARAMS_LENGTH"
  shows "message_parse (buffer_message p c (call_list ws t) []) =
    Some \<lparr>msg_tags = [], msg_prefix = (if p = [] then None else Some p), msg_command = Inr c,
          msg_num_params = length (param_values ws t),
          msg_params = param_values ws t
            @ replicate (PARAMS_LENGTH - length (param_values ws t)) []\<rparr>"
proof -
  let ?line = "str_join (CHR '' '') (as_str c # pieces ws t)"
  have lp: "\<forall>q \<in> set (pieces ws t). line_piece q" using ws t pieces_line by blast
  have built: "buffer_message p c (call_list ws t) [] =
      (if p = [] then [] else CHR '':'' # p @ '' '') @ ?line @ crlf"
    using ws by (simp add: buffer_message_def mb_statement_def mb_drop_def mb_with_prefix_def
        fold_call_list concat_join str_join_Cons)
  obtain a l where al: "as_str c = a # l" using command_name(2) [OF cmd] by (cases "as_str c") auto
  then have a: "is_ascii a" "a \<notin> set ascii_whitespace" "a \<noteq> CHR '':''" "a \<noteq> CHR ''@''"
    using command_name(3) [OF cmd, of a] by auto
  have line: "\<exists>l'. ?line = a # l'" using al by (cases "pieces ws t") simp_all
  have "line_piece ?line"
    using lp command_word_ok [OF cmd] by (intro line_piece_join) (auto intro: word_ok_piece)
  then have trim: "str_trim (?line @ crlf) = ?line" by (simp add: str_trim_crlf line_piece_def)
  have nulline: "CHR 0x00 \<notin> set (?line @ crlf)"
  proof
    assume "CHR 0x00 \<in> set (?line @ crlf)"
    then obtain q where "q \<in> set (as_str c # pieces ws t)" "CHR 0x00 \<in> set q"
      by (auto simp: crlf_def dest: set_str_join)
    then show False using ws t command_name(3) [OF cmd, of "CHR 0x00"]
      by (auto simp: pieces_def split: option.splits)
  qed
  have params: "parse_params PARAMS_LENGTH (str_join (CHR '' '') (pieces ws t)) = param_values ws t"
    using ws t len by (intro parse_params_pieces) (auto simp: pieces_def param_values_def split: option.splits)
  show ?thesis
  proof (cases "p = []")
    case True
    obtain l' where l': "?line @ crlf = a # l'" using line by auto
    have ts: "trim_start (?line @ crlf) = ?line @ crlf" unfolding l' by (rule trim_start_ascii_hd [OF a(2,1)])
    have tags: "parse_tags (?line @ crlf) = ([], ?line @ crlf)" unfolding l' by (simp add: parse_tags_def a)
    have prefix: "parse_prefix (?line @ crlf) = (None, ?line @ crlf)"
      using ts unfolding l' by (simp add: parse_prefix_def a)
    have nonempty: "?line @ crlf \<noteq> []" unfolding l' by simp
    have b: "buffer_message p c (call_list ws t) [] = ?line @ crlf" using True built by simp
    show ?thesis
      unfolding b using True nulline nonempty parse_command_text [OF cmd lp, of crlf]
      by (simp add: message_parse_def ts tags prefix params Let_def del: append_is_Nil_conv Un_iff set_append)
  next
    case False
    let ?b = "CHR '':'' # p @ CHR '' '' # (?line @ crlf)"
    have ts: "trim_start ?b = ?b"
      by (rule trim_start_ascii_hd) (simp_all add: ascii_whitespace_def is_ascii_def)
    have tags: "parse_tags ?b = ([], ?b)" by (simp add: parse_tags_def)
    have "word_ok (CHR '':'' # p)" using pre False by (simp add: prefix_ok_def)
    from parse_word_space [OF this, of "?line @ crlf"]
    have "parse_word ((CHR '':'' # p) @ CHR '' '' # (?line @ crlf)) = (CHR '':'' # p, ?line)"
      unfolding trim .
    then have prefix: "parse_prefix ?b = (Some p, ?line)" by (simp add: parse_prefix_def)
    have nul_b: "CHR 0x00 \<notin> set ?b" using nul nulline by simp
    have b: "buffer_message p c (call_list ws t) [] = ?b" using False by (simp add: built)
    show ?thesis
      unfolding b using False nul_b parse_command_text [OF cmd lp, of "[]"]
      by (simp add: message_parse_def ts tags prefix params Let_def)
  qed
qed

section \<open>Properties\<close>

text \<open>C24: Messages survive the wire.  A message built by the server from a command, an optional
  prefix, middle parameters and an optional trailing text parses back to exactly these parts.\<close>

theorem message_roundtrip:
  assumes "\<not> is_Reply c" and "prefix_ok p" and "CHR 0x00 \<notin> set p"
    and "\<forall>w \<in> set ws. middle w \<and> CHR 0x00 \<notin> set w"
    and "\<forall>x. t = Some x \<longrightarrow> trailing_ok x \<and> CHR 0x00 \<notin> set x"
    and "length (param_values ws t) \<le> PARAMS_LENGTH"
  shows "message_parse (buffer_message p c (call_list ws t) []) =
    Some \<lparr>msg_tags = [], msg_prefix = (if p = [] then None else Some p), msg_command = Inr c,
          msg_num_params = length (param_values ws t),
          msg_params = param_values ws t
            @ replicate (PARAMS_LENGTH - length (param_values ws t)) []\<rparr>"
  using assms by (rule message_roundtrip_parse)

theorem message_roundtrip_witness:
  "map_option msg_params (message_parse
      (buffer_message ''irc.example'' Cmd_PrivMsg (call_list [''#rust''] (Some ''hi there'')) []))
   = Some ([''#rust'', ''hi there''] @ replicate 13 [])"
proof -
  have "prefix_ok ''irc.example''" "middle ''#rust''" "trailing_ok ''hi there''" by code_simp+
  then show ?thesis
    by (subst message_roundtrip) (simp_all add: param_values_def PARAMS_LENGTH_def)
qed

text \<open>Tags are written one after the other with \<open>;\<close> between them; reading splits there.\<close>

definition tag_text :: "string \<times> string \<Rightarrow> string" where
  "tag_text kv = fst kv @ CHR ''='' # concat (map escape_char (snd kv))"

definition tag_key_ok :: "string \<Rightarrow> bool" where
  "tag_key_ok k \<longleftrightarrow> k \<noteq> [] \<and> k \<noteq> ''+'' \<and> CHR ''='' \<notin> set k \<and> CHR '';'' \<notin> set k"

lemma fold_tb_tag:
  "tb_start tb = 0 \<Longrightarrow> tb_buf tb = CHR ''@'' # str_join (CHR '';'') ps \<Longrightarrow> \<forall>p \<in> set ps. p \<noteq> []
   \<Longrightarrow> \<forall>kv \<in> set kvs. tag_key_ok (fst kv)
   \<Longrightarrow> tb_buf (fold (\<lambda>(k, v). tb_tag k (Some v)) kvs tb)
       = CHR ''@'' # str_join (CHR '';'') (ps @ map tag_text kvs)"
proof (induction kvs arbitrary: tb ps)
  case (Cons kv kvs)
  obtain k v where kv: "kv = (k, v)" by fastforce
  have join_snoc: "str_join c (qs @ [q]) = (if qs = [] then q else str_join c qs @ c # q)" for c qs q
    by (induction c qs rule: str_join.induct) auto
  have nonempty: "str_join (CHR '';'') ps = [] \<longleftrightarrow> ps = []"
    using Cons.prems(3) by (cases ps; cases "tl ps") auto
  have "tb_buf (tb_tag k (Some v) tb) = CHR ''@'' # str_join (CHR '';'') (ps @ [tag_text kv])"
    using Cons.prems nonempty
    by (simp add: kv tb_tag_def tb_sep_def tb_is_empty_def write_escaped_def tag_text_def join_snoc)
  moreover have "tb_start (tb_tag k (Some v) tb) = 0"
    using Cons.prems by (simp add: tb_tag_def Let_def)
  moreover have "tag_text kv \<noteq> []" by (simp add: tag_text_def)
  ultimately show ?case using Cons.IH [of "tb_tag k (Some v) tb" "ps @ [tag_text kv]"] Cons.prems kv
    by auto
qed simp

lemma escape_char_nonempty [simp]: "escape_char c \<noteq> []"
  by (simp add: escape_char_def)

lemma tag_text_parse:
  assumes "tag_key_ok k"
  shows "tag_item_ok (tag_text (k, v))" and "tag_key (tag_parse (tag_text (k, v))) = k"
    and "unescape_value (tag_parse (tag_text (k, v))) = v" and "CHR '';'' \<notin> set (tag_text (k, v))"
proof -
  obtain a k' where k: "k = a # k'" using assms by (cases k) (auto simp: tag_key_ok_def)
  show "tag_item_ok (tag_text (k, v))"
    using assms k by (cases k') (auto simp: tag_item_ok_def tag_text_def tag_key_ok_def)
  have p: "str_splitn2 (CHR ''='') (tag_text (k, v)) = (k, Some (concat (map escape_char v)))"
    using assms by (simp add: tag_text_def tag_key_ok_def str_splitn2_append)
  then show "tag_key (tag_parse (tag_text (k, v))) = k" by (simp add: tag_parse_def)
  show "unescape_value (tag_parse (tag_text (k, v))) = v"
    using p unescape_escape [of v]
    by (cases v) (simp_all add: tag_parse_def unescape_value_def unescape_value_into_def)
  show "CHR '';'' \<notin> set (tag_text (k, v))"
    using assms escape_char_safe by (auto simp: tag_text_def tag_key_ok_def)
qed

text \<open>C25: Tags survive the wire.  Whatever values the server attaches to tags - with spaces,
  semicolons, backslashes and line ends in them - a reader of the tags gets the same keys and,
  after unescaping, the same values, in the same order.\<close>

theorem tags_roundtrip:
  assumes "\<forall>kv \<in> set kvs. tag_key_ok (fst kv)"
  shows "map (\<lambda>t. (tag_key t, unescape_value t))
      (tags (tl (tb_buf (fold (\<lambda>(k, v). tb_tag k (Some v)) kvs (tb_new []))))) = kvs"
proof (cases "kvs = []")
  case True
  then show ?thesis by (simp add: tb_new_def tags_def tag_item_ok_def)
next
  case False
  have ok: "tag_item_ok (tag_text kv) \<and> tag_key (tag_parse (tag_text kv)) = fst kv
      \<and> unescape_value (tag_parse (tag_text kv)) = snd kv \<and> CHR '';'' \<notin> set (tag_text kv)"
    if "kv \<in> set kvs" for kv
    using assms that tag_text_parse [of "fst kv" "snd kv"] by auto
  have "tl (tb_buf (fold (\<lambda>(k, v). tb_tag k (Some v)) kvs (tb_new [])))
      = str_join (CHR '';'') (map tag_text kvs)"
    using fold_tb_tag [of "tb_new []" "[]" kvs] assms by (simp add: tb_new_def)
  moreover have "str_split (CHR '';'') (str_join (CHR '';'') (map tag_text kvs)) = map tag_text kvs"
    using False ok by (intro str_split_join) auto
  moreover have "filter tag_item_ok (map tag_text kvs) = map tag_text kvs"
    using ok by (auto simp: filter_id_conv)
  ultimately show ?thesis using ok by (simp add: tags_def comp_def map_idI)
qed

theorem tags_roundtrip_witness:
  "map (\<lambda>t. (tag_key t, unescape_value t))
     (tags (tl (tb_buf (fold (\<lambda>(k, v). tb_tag k (Some v))
        [(''time'', ''12:00''), (''label'', ''a; b'')] (tb_new [])))))
   = [(''time'', ''12:00''), (''label'', ''a; b'')]"
  by (rule tags_roundtrip) (simp add: tag_key_ok_def)

end
