(* ===== verification/Rpl.thy ===== *)
theory Rpl
  imports Main
begin

text \<open>
  \<open>ellidri-tokens/src/rpl.rs\<close>: the numerics of the replies.
\<close>

definition rpl_WELCOME :: string where "rpl_WELCOME = ''001''"
definition rpl_YOURHOST :: string where "rpl_YOURHOST = ''002''"
definition rpl_CREATED :: string where "rpl_CREATED = ''003''"
definition rpl_MYINFO :: string where "rpl_MYINFO = ''004''"
definition rpl_ISUPPORT :: string where "rpl_ISUPPORT = ''005''"
definition rpl_UMODEIS :: string where "rpl_UMODEIS = ''221''"
definition rpl_LUSERCLIENT :: string where "rpl_LUSERCLIENT = ''251''"
definition rpl_LUSEROP :: string where "rpl_LUSEROP = ''252''"
definition rpl_LUSERUNKNOWN :: string where "rpl_LUSERUNKNOWN = ''253''"
definition rpl_LUSERCHANNELS :: string where "rpl_LUSERCHANNELS = ''254''"
definition rpl_LUSERME :: string where "rpl_LUSERME = ''255''"
definition rpl_ADMINME :: string where "rpl_ADMINME = ''256''"
definition rpl_ADMINLOC1 :: string where "rpl_ADMINLOC1 = ''257''"
definition rpl_ADMINLOC2 :: string where "rpl_ADMINLOC2 = ''258''"
definition rpl_ADMINMAIL :: string where "rpl_ADMINMAIL = ''259''"
definition rpl_AWAY :: string where "rpl_AWAY = ''301''"
definition rpl_UNAWAY :: string where "rpl_UNAWAY = ''305''"
definition rpl_NOWAWAY :: string where "rpl_NOWAWAY = ''306''"
definition rpl_WHOISUSER :: string where "rpl_WHOISUSER = ''311''"
definition rpl_WHOISSERVER :: string where "rpl_WHOISSERVER = ''312''"
definition rpl_WHOISOPERATOR :: string where "rpl_WHOISOPERATOR = ''313''"
definition rpl_ENDOFWHO :: string where "rpl_ENDOFWHO = ''315''"
definition rpl_WHOISIDLE :: string where "rpl_WHOISIDLE = ''317''"
definition rpl_ENDOFWHOIS :: string where "rpl_ENDOFWHOIS = ''318''"
definition rpl_WHOISCHANNELS :: string where "rpl_WHOISCHANNELS = ''319''"
definition rpl_LIST :: string where "rpl_LIST = ''322''"
definition rpl_LISTEND :: string where "rpl_LISTEND = ''323''"
definition rpl_CHANNELMODEIS :: string where "rpl_CHANNELMODEIS = ''324''"
definition rpl_NOTOPIC :: string where "rpl_NOTOPIC = ''331''"
definition rpl_TOPIC :: string where "rpl_TOPIC = ''332''"
definition rpl_TOPICWHOTIME :: string where "rpl_TOPICWHOTIME = ''333''"
definition rpl_INVITING :: string where "rpl_INVITING = ''341''"
definition rpl_INVITELIST :: string where "rpl_INVITELIST = ''346''"
definition rpl_ENDOFINVITELIST :: string where "rpl_ENDOFINVITELIST = ''347''"
definition rpl_EXCEPTLIST :: string where "rpl_EXCEPTLIST = ''348''"
definition rpl_ENDOFEXCEPTLIST :: string where "rpl_ENDOFEXCEPTLIST = ''349''"
definition rpl_VERSION :: string where "rpl_VERSION = ''351''"
definition rpl_WHOREPLY :: string where "rpl_WHOREPLY = ''352''"
definition rpl_NAMREPLY :: string where "rpl_NAMREPLY = ''353''"
definition rpl_ENDOFNAMES :: string where "rpl_ENDOFNAMES = ''366''"
definition rpl_BANLIST :: string where "rpl_BANLIST = ''367''"
definition rpl_ENDOFBANLIST :: string where "rpl_ENDOFBANLIST = ''368''"
definition rpl_INFO :: string where "rpl_INFO = ''371''"
definition rpl_MOTD :: string where "rpl_MOTD = ''372''"
definition rpl_ENDOFINFO :: string where "rpl_ENDOFINFO = ''374''"
definition rpl_MOTDSTART :: string where "rpl_MOTDSTART = ''375''"
definition rpl_ENDOFMOTD :: string where "rpl_ENDOFMOTD = ''376''"
definition rpl_YOUREOPER :: string where "rpl_YOUREOPER = ''381''"
definition rpl_REHASHING :: string where "rpl_REHASHING = ''382''"
definition rpl_TIME :: string where "rpl_TIME = ''391''"
definition rpl_ERR_NOSUCHNICK :: string where "rpl_ERR_NOSUCHNICK = ''401''"
definition rpl_ERR_NOSUCHCHANNEL :: string where "rpl_ERR_NOSUCHCHANNEL = ''403''"
definition rpl_ERR_CANNOTSENDTOCHAN :: string where "rpl_ERR_CANNOTSENDTOCHAN = ''404''"
definition rpl_ERR_INVALIDCAPCMD :: string where "rpl_ERR_INVALIDCAPCMD = ''410''"
definition rpl_ERR_NORECIPIENT :: string where "rpl_ERR_NORECIPIENT = ''411''"
definition rpl_ERR_NOTEXTTOSEND :: string where "rpl_ERR_NOTEXTTOSEND = ''412''"
definition rpl_ERR_INPUTTOOLONG :: string where "rpl_ERR_INPUTTOOLONG = ''417''"
definition rpl_ERR_UNKNOWNCOMMAND :: string where "rpl_ERR_UNKNOWNCOMMAND = ''421''"
definition rpl_ERR_NOMOTD :: string where "rpl_ERR_NOMOTD = ''422''"
definition rpl_ERR_NONICKNAMEGIVEN :: string where "rpl_ERR_NONICKNAMEGIVEN = ''431''"
definition rpl_ERR_ERRONEUSNICKNAME :: string where "rpl_ERR_ERRONEUSNICKNAME = ''432''"
definition rpl_ERR_NICKNAMEINUSE :: string where "rpl_ERR_NICKNAMEINUSE = ''433''"
definition rpl_ERR_USERNOTINCHANNEL :: string where "rpl_ERR_USERNOTINCHANNEL = ''441''"
definition rpl_ERR_NOTONCHANNEL :: string where "rpl_ERR_NOTONCHANNEL = ''442''"
definition rpl_ERR_USERONCHANNEL :: string where "rpl_ERR_USERONCHANNEL = ''443''"
definition rpl_ERR_NOTREGISTERED :: string where "rpl_ERR_NOTREGISTERED = ''451''"
definition rpl_ERR_NEEDMOREPARAMS :: string where "rpl_ERR_NEEDMOREPARAMS = ''461''"
definition rpl_ERR_ALREADYREGISTRED :: string where "rpl_ERR_ALREADYREGISTRED = ''462''"
definition rpl_ERR_PASSWDMISMATCH :: string where "rpl_ERR_PASSWDMISMATCH = ''464''"
definition rpl_ERR_YOUREBANNEDCREEP :: string where "rpl_ERR_YOUREBANNEDCREEP = ''465''"
definition rpl_ERR_KEYSET :: string where "rpl_ERR_KEYSET = ''467''"
definition rpl_ERR_CHANNELISFULL :: string where "rpl_ERR_CHANNELISFULL = ''471''"
definition rpl_ERR_UNKNOWNMODE :: string where "rpl_ERR_UNKNOWNMODE = ''472''"
definition rpl_ERR_INVITEONLYCHAN :: string where "rpl_ERR_INVITEONLYCHAN = ''473''"
definition rpl_ERR_BANNEDFROMCHAN :: string where "rpl_ERR_BANNEDFROMCHAN = ''474''"
definition rpl_ERR_BADCHANKEY :: string where "rpl_ERR_BADCHANKEY = ''475''"
definition rpl_ERR_NOPRIVILEDGES :: string where "rpl_ERR_NOPRIVILEDGES = ''481''"
definition rpl_ERR_CHANOPRIVSNEEDED :: string where "rpl_ERR_CHANOPRIVSNEEDED = ''482''"
definition rpl_ERR_UMODEUNKNOWNFLAG :: string where "rpl_ERR_UMODEUNKNOWNFLAG = ''501''"
definition rpl_ERR_USERSDONTMATCH :: string where "rpl_ERR_USERSDONTMATCH = ''502''"
definition rpl_LOGGEDIN :: string where "rpl_LOGGEDIN = ''900''"
definition rpl_LOGGEDOUT :: string where "rpl_LOGGEDOUT = ''901''"
definition rpl_ERR_NICKLOCKED :: string where "rpl_ERR_NICKLOCKED = ''902''"
definition rpl_SASLSUCCESS :: string where "rpl_SASLSUCCESS = ''903''"
definition rpl_ERR_SASLFAIL :: string where "rpl_ERR_SASLFAIL = ''904''"
definition rpl_ERR_SASLTOOLONG :: string where "rpl_ERR_SASLTOOLONG = ''905''"
definition rpl_ERR_SASLABORTED :: string where "rpl_ERR_SASLABORTED = ''906''"
definition rpl_ERR_SASLALREADY :: string where "rpl_ERR_SASLALREADY = ''907''"
definition rpl_SASLMECHS :: string where "rpl_SASLMECHS = ''908''"

end
