(* ===== verification/Channels.thy ===== *)
theory Channels
  imports HashTable Requests Buffers Rpl
begin

text \<open>
  \<open>src/channel.rs\<close>: the data of a channel, who may do what in it, and the effect of mode changes.
\<close>

section \<open>Modes of a member\<close>

record member_modes =
  mm_founder :: bool
  mm_protected :: bool
  mm_operator :: bool
  mm_halfop :: bool
  mm_voice :: bool

definition member_modes_default :: member_modes where
  "member_modes_default =
     \<lparr>mm_founder = False, mm_protected = False, mm_operator = False, mm_halfop = False,
      mm_voice = False\<rparr>"

definition all_symbols :: "member_modes \<Rightarrow> string \<Rightarrow> string" where
  "all_symbols m out =
     (let out = (if mm_founder m then out @ ''~'' else out);
          out = (if mm_protected m then out @ ''&'' else out);
          out = (if mm_operator m then out @ ''@'' else out);
          out = (if mm_halfop m then out @ ''%'' else out)
      in if mm_voice m then out @ ''+'' else out)"

definition member_symbol :: "member_modes \<Rightarrow> char option" where
  "member_symbol m =
     (if mm_founder m then Some (CHR ''~'')
      else if mm_protected m then Some (CHR ''&'')
      else if mm_operator m then Some (CHR ''@'')
      else if mm_halfop m then Some (CHR ''%'')
      else if mm_voice m then Some (CHR ''+'')
      else None)"

definition is_at_least_op :: "member_modes \<Rightarrow> bool" where
  "is_at_least_op m \<longleftrightarrow> mm_operator m \<or> mm_founder m"

definition is_at_least_halfop :: "member_modes \<Rightarrow> bool" where
  "is_at_least_halfop m \<longleftrightarrow> mm_halfop m \<or> mm_operator m \<or> mm_founder m"

definition has_voice :: "member_modes \<Rightarrow> bool" where
  "has_voice m \<longleftrightarrow>
     mm_voice m \<or> mm_halfop m \<or> mm_operator m \<or> mm_protected m \<or> mm_founder m"

fun can_make :: "member_modes \<Rightarrow> channel_change \<Rightarrow> bool" where
  "can_make m GetBans = True"
| "can_make m GetExceptions = True"
| "can_make m GetInvitations = True"
| "can_make m (Moderated _) = is_at_least_halfop m"
| "can_make m (TopicRestricted _) = is_at_least_halfop m"
| "can_make m (UserLimit _) = is_at_least_halfop m"
| "can_make m (ChangeBan _ _) = is_at_least_halfop m"
| "can_make m (ChangeException _ _) = is_at_least_halfop m"
| "can_make m (ChangeInvitation _ _) = is_at_least_halfop m"
| "can_make m (ChangeVoice _ _) = is_at_least_halfop m"
| "can_make m (InviteOnly _) = is_at_least_op m"
| "can_make m (NoPrivMsgFromOutside _) = is_at_least_op m"
| "can_make m (Secret _) = is_at_least_op m"
| "can_make m (Key _ _) = is_at_least_op m"
| "can_make m (ChangeOperator _ _) = is_at_least_op m"
| "can_make m (ChangeHalfop _ _) = is_at_least_op m"

text \<open>\<open>modes\<close> is the mode text and its parameters.\<close>

definition can_change :: "member_modes \<Rightarrow> string \<Rightarrow> string list \<Rightarrow> bool" where
  "can_change m modes params \<longleftrightarrow>
     list_all (\<lambda>r. case r of Inl _ \<Rightarrow> True | Inr change \<Rightarrow> can_make m change)
       (channel_query modes params)"

section \<open>Channels\<close>

record topic =
  tp_content :: string
  tp_who :: string
  tp_time :: "64 word"

record channel =
  ch_members :: "member_modes itable"
  ch_invites :: "nat set"
  ch_topic :: "topic option"
  ch_user_limit :: "nat option"
  ch_key :: "string option"
  ch_ban_mask :: mask_set
  ch_exception_mask :: mask_set
  ch_invex_mask :: mask_set
  ch_invite_only :: bool
  ch_moderated :: bool
  ch_no_msg_from_outside :: bool
  ch_secret :: bool
  ch_topic_restricted :: bool

definition channel_empty :: channel where
  "channel_empty =
     \<lparr>ch_members = [], ch_invites = {}, ch_topic = None, ch_user_limit = None, ch_key = None,
      ch_ban_mask = mask_set_new, ch_exception_mask = mask_set_new, ch_invex_mask = mask_set_new,
      ch_invite_only = False, ch_moderated = False, ch_no_msg_from_outside = False,
      ch_secret = False, ch_topic_restricted = False\<rparr>"

definition add_member :: "nat \<Rightarrow> channel \<Rightarrow> channel" where
  "add_member i ch =
     (let modes = (if ch_members ch = [] then member_modes_default\<lparr>mm_operator := True\<rparr>
                   else member_modes_default)
      in ch\<lparr>ch_members := iput i modes (ch_members ch), ch_invites := ch_invites ch - {i}\<rparr>)"

text \<open>\<open>list_entry\<close> and \<open>modes\<close> write into a message: the model gives the calls they make on it.\<close>

definition list_entry :: "channel \<Rightarrow> mb_call list" where
  "list_entry ch =
     [FmtParam (show_nat (length (ch_members ch))),
      TrailingParam (case ch_topic ch of None \<Rightarrow> [] | Some t \<Rightarrow> tp_content t)]"

text \<open>\<open>&&\<close>, \<open>||\<close> and \<open>!\<close> with operands that may panic.\<close>

definition opt_and :: "bool option \<Rightarrow> bool option \<Rightarrow> bool option" where
  "opt_and a b = (case a of None \<Rightarrow> None | Some False \<Rightarrow> Some False | Some True \<Rightarrow> b)"

definition opt_or :: "bool option \<Rightarrow> bool option \<Rightarrow> bool option" where
  "opt_or a b = (case a of None \<Rightarrow> None | Some True \<Rightarrow> Some True | Some False \<Rightarrow> b)"

definition opt_not :: "bool option \<Rightarrow> bool option" where
  "opt_not a = map_option Not a"

definition is_banned :: "channel \<Rightarrow> string \<Rightarrow> bool option" where
  "is_banned ch nick =
     opt_and (mask_set_is_match (ch_ban_mask ch) nick)
       (opt_and (opt_not (mask_set_is_match (ch_exception_mask ch) nick))
          (opt_not (mask_set_is_match (ch_invex_mask ch) nick)))"

definition is_invited :: "channel \<Rightarrow> nat \<Rightarrow> string \<Rightarrow> bool option" where
  "is_invited ch i nick =
     (if \<not> ch_invite_only ch \<or> i \<in> ch_invites ch then Some True
      else mask_set_is_match (ch_invex_mask ch) nick)"

definition can_talk :: "channel \<Rightarrow> nat \<Rightarrow> bool" where
  "can_talk ch i \<longleftrightarrow>
     (if ch_moderated ch
      then (case iget i (ch_members ch) of None \<Rightarrow> False | Some m \<Rightarrow> has_voice m)
      else \<not> ch_no_msg_from_outside ch \<or> ihas i (ch_members ch))"

definition can_invite :: "channel \<Rightarrow> nat \<Rightarrow> bool" where
  "can_invite ch i \<longleftrightarrow>
     (case iget i (ch_members ch) of
        None \<Rightarrow> False
      | Some member \<Rightarrow> if ch_invite_only ch then is_at_least_halfop member else True)"

definition modes_letters :: "channel \<Rightarrow> string" where
  "modes_letters ch =
     ''+'' @ (if ch_invite_only ch then ''i'' else [])
     @ (if ch_moderated ch then ''m'' else [])
     @ (if ch_no_msg_from_outside ch then ''n'' else [])
     @ (if ch_secret ch then ''s'' else [])
     @ (if ch_topic_restricted ch then ''t'' else [])
     @ (if ch_user_limit ch \<noteq> None then ''l'' else [])
     @ (if ch_key ch \<noteq> None then ''k'' else [])"

definition channel_modes :: "channel \<Rightarrow> bool \<Rightarrow> mb_call list" where
  "channel_modes ch full_info =
     RawParam (modes_letters ch)
     # (if full_info
        then (case ch_user_limit ch of None \<Rightarrow> [] | Some l \<Rightarrow> [FmtParam (show_nat l)])
          @ (case ch_key ch of None \<Rightarrow> [] | Some k \<Rightarrow> [Param k])
        else [])"

definition channel_symbol :: "channel \<Rightarrow> string" where
  "channel_symbol ch = (if ch_secret ch then ''@'' else ''='')"

section \<open>Mode changes\<close>

text \<open>The loop over the members: \<open>nick_of\<close> may panic; the inner \<^const>\<open>None\<close> is \<open>!has_it\<close>.\<close>

fun member_flag_loop ::
  "(nat \<Rightarrow> string option) \<Rightarrow> string \<Rightarrow> (member_modes \<Rightarrow> bool \<times> member_modes)
   \<Rightarrow> member_modes itable \<Rightarrow> (bool \<times> member_modes itable) option option" where
  "member_flag_loop nick_of p f [] = Some None"
| "member_flag_loop nick_of p f ((member, modes) # ms) =
     (case nick_of member of
        None \<Rightarrow> None
      | Some nick \<Rightarrow>
          if nick = p then (let (applied, modes) = f modes in Some (Some (applied, (member, modes) # ms)))
          else
            (case member_flag_loop nick_of p f ms of
               None \<Rightarrow> None
             | Some None \<Rightarrow> Some None
             | Some (Some (applied, ms)) \<Rightarrow> Some (Some (applied, (member, modes) # ms))))"

definition change_member ::
  "(nat \<Rightarrow> string option) \<Rightarrow> string \<Rightarrow> (member_modes \<Rightarrow> bool \<times> member_modes)
   \<Rightarrow> channel \<Rightarrow> ((string + bool) \<times> channel) option" where
  "change_member nick_of p f ch =
     (case member_flag_loop nick_of p f (ch_members ch) of
        None \<Rightarrow> None
      | Some None \<Rightarrow> Some (Inl rpl_ERR_USERNOTINCHANNEL, ch)
      | Some (Some (applied, ms)) \<Rightarrow> Some (Inr applied, ch\<lparr>ch_members := ms\<rparr>))"

definition change_mask :: "bool \<Rightarrow> string \<Rightarrow> mask_set \<Rightarrow> bool \<times> mask_set" where
  "change_mask value p ms = (if value then mask_set_insert p ms else mask_set_remove p ms)"

fun channel_apply_mode_change ::
  "channel_change \<Rightarrow> nat \<Rightarrow> (nat \<Rightarrow> string option) \<Rightarrow> channel
   \<Rightarrow> ((string + bool) \<times> channel) option" where
  "channel_apply_mode_change (InviteOnly value) keylen nick_of ch =
     Some (Inr (ch_invite_only ch \<noteq> value), ch\<lparr>ch_invite_only := value\<rparr>)"
| "channel_apply_mode_change (Moderated value) keylen nick_of ch =
     Some (Inr (ch_moderated ch \<noteq> value), ch\<lparr>ch_moderated := value\<rparr>)"
| "channel_apply_mode_change (NoPrivMsgFromOutside value) keylen nick_of ch =
     Some (Inr (ch_no_msg_from_outside ch \<noteq> value), ch\<lparr>ch_no_msg_from_outside := value\<rparr>)"
| "channel_apply_mode_change (Secret value) keylen nick_of ch =
     Some (Inr (ch_secret ch \<noteq> value), ch\<lparr>ch_secret := value\<rparr>)"
| "channel_apply_mode_change (TopicRestricted value) keylen nick_of ch =
     Some (Inr (ch_topic_restricted ch \<noteq> value), ch\<lparr>ch_topic_restricted := value\<rparr>)"
| "channel_apply_mode_change (Key value key) keylen nick_of ch =
     (if value then
        (if ch_key ch \<noteq> None then Some (Inl rpl_ERR_KEYSET, ch)
         else (case str_trunc key keylen of
                 None \<Rightarrow> None
               | Some k \<Rightarrow> Some (Inr True, ch\<lparr>ch_key := Some k\<rparr>)))
      else if ch_key ch \<noteq> None then Some (Inr True, ch\<lparr>ch_key := None\<rparr>)
      else Some (Inr False, ch))"
| "channel_apply_mode_change (UserLimit (Some s)) keylen nick_of ch =
     (case parse_usize s of
        None \<Rightarrow> Some (Inr False, ch)
      | Some limit \<Rightarrow>
          Some (Inr (ch_user_limit ch \<noteq> Some limit), ch\<lparr>ch_user_limit := Some limit\<rparr>))"
| "channel_apply_mode_change (UserLimit None) keylen nick_of ch =
     Some (Inr (ch_user_limit ch \<noteq> None), ch\<lparr>ch_user_limit := None\<rparr>)"
| "channel_apply_mode_change (ChangeBan value p) keylen nick_of ch =
     (let (applied, ms) = change_mask value p (ch_ban_mask ch)
      in Some (Inr applied, ch\<lparr>ch_ban_mask := ms\<rparr>))"
| "channel_apply_mode_change (ChangeException value p) keylen nick_of ch =
     (let (applied, ms) = change_mask value p (ch_exception_mask ch)
      in Some (Inr applied, ch\<lparr>ch_exception_mask := ms\<rparr>))"
| "channel_apply_mode_change (ChangeInvitation value p) keylen nick_of ch =
     (let (applied, ms) = change_mask value p (ch_invex_mask ch)
      in Some (Inr applied, ch\<lparr>ch_invex_mask := ms\<rparr>))"
| "channel_apply_mode_change (ChangeOperator value p) keylen nick_of ch =
     change_member nick_of p (\<lambda>m. (mm_operator m \<noteq> value, m\<lparr>mm_operator := value\<rparr>)) ch"
| "channel_apply_mode_change (ChangeHalfop value p) keylen nick_of ch =
     change_member nick_of p (\<lambda>m. (mm_halfop m \<noteq> value, m\<lparr>mm_halfop := value\<rparr>)) ch"
| "channel_apply_mode_change (ChangeVoice value p) keylen nick_of ch =
     change_member nick_of p (\<lambda>m. (mm_voice m \<noteq> value, m\<lparr>mm_voice := value\<rparr>)) ch"
| "channel_apply_mode_change GetBans keylen nick_of ch = Some (Inr False, ch)"
| "channel_apply_mode_change GetExceptions keylen nick_of ch = Some (Inr False, ch)"
| "channel_apply_mode_change GetInvitations keylen nick_of ch = Some (Inr False, ch)"

text \<open>\<open>Channel::new\<close>: the loop with its \<open>unwrap\<close>.\<close>

fun channel_new_loop :: "(mode_error + channel_change) list \<Rightarrow> channel \<Rightarrow> channel option" where
  "channel_new_loop [] ch = Some ch"
| "channel_new_loop (Inl _ # rs) ch = channel_new_loop rs ch"
| "channel_new_loop (Inr change # rs) ch =
     (case channel_apply_mode_change change usize_max (\<lambda>_. Some []) ch of
        Some (Inr _, ch) \<Rightarrow> channel_new_loop rs ch
      | _ \<Rightarrow> None)"

definition channel_new :: "string \<Rightarrow> channel option" where
  "channel_new modes = channel_new_loop (simple_channel_query modes) channel_empty"

section \<open>Facts\<close>

lemma opt_and_Some [simp]: "opt_and (Some a) (Some b) = Some (a \<and> b)"
  by (cases a) (simp_all add: opt_and_def)

lemma opt_or_Some [simp]: "opt_or (Some a) (Some b) = Some (a \<or> b)"
  by (cases a) (simp_all add: opt_or_def)

lemma opt_not_Some [simp]: "opt_not (Some a) = Some (\<not> a)"
  by (simp add: opt_not_def)

lemma rank_order:
  "is_at_least_op m \<Longrightarrow> is_at_least_halfop m" "is_at_least_halfop m \<Longrightarrow> has_voice m"
  by (auto simp: is_at_least_op_def is_at_least_halfop_def has_voice_def)

text \<open>The highest symbol is the first of all symbols.\<close>

lemma member_symbol_hd:
  "member_symbol m = (case all_symbols m [] of [] \<Rightarrow> None | c # _ \<Rightarrow> Some c)"
  by (simp add: member_symbol_def all_symbols_def)

text \<open>What the loop over the members does: it changes one entry, and only through \<open>f\<close>.\<close>

lemma member_flag_loop_shape:
  "member_flag_loop nick_of p f ms = Some (Some (applied, ms')) \<Longrightarrow>
     \<exists>as i m bs. ms = as @ (i, m) # bs \<and> f m = (applied, snd (f m)) \<and> ms' = as @ (i, snd (f m)) # bs
       \<and> nick_of i = Some p"
proof (induction nick_of p f ms arbitrary: ms' rule: member_flag_loop.induct)
  case (2 nick_of p f member modes ms)
  then obtain nick where n: "nick_of member = Some nick" by (auto split: option.splits)
  show ?case
  proof (cases "nick = p")
    case True
    then show ?thesis using 2(2) n
      by (intro exI [of _ "[]"] exI [of _ member] exI [of _ modes] exI [of _ ms])
        (auto split: prod.splits)
  next
    case False
    then obtain ms'' where m: "member_flag_loop nick_of p f ms = Some (Some (applied, ms''))"
      "ms' = (member, modes) # ms''"
      using 2(2) n by (auto split: option.splits prod.splits)
    from "2.IH" [OF n False m(1)] obtain as i a bs where
      "ms = as @ (i, a) # bs" "f a = (applied, snd (f a))" "ms'' = as @ (i, snd (f a)) # bs" "nick_of i = Some p"
      by blast
    then show ?thesis using m(2)
      by (intro exI [of _ "(member, modes) # as"] exI [of _ i] exI [of _ a] exI [of _ bs]) simp
  qed
qed simp

lemma change_member_cases:
  assumes "change_member nick_of p f ch = Some (r, ch')"
  obtains (miss) "r = Inl rpl_ERR_USERNOTINCHANNEL" "ch' = ch"
  | (hit) as i m bs where "ch_members ch = as @ (i, m) # bs" "r = Inr (fst (f m))"
      "ch' = ch\<lparr>ch_members := as @ (i, snd (f m)) # bs\<rparr>" "nick_of i = Some p"
proof (cases "member_flag_loop nick_of p f (ch_members ch)")
  case (Some res)
  show ?thesis
  proof (cases res)
    case None
    with Some assms miss show ?thesis by (simp add: change_member_def)
  next
    case (Some q)
    obtain applied ms' where q: "q = (applied, ms')" by fastforce
    with Some \<open>member_flag_loop _ _ _ _ = Some res\<close> assms
    have m: "member_flag_loop nick_of p f (ch_members ch) = Some (Some (applied, ms'))"
      "r = Inr applied" "ch' = ch\<lparr>ch_members := ms'\<rparr>"
      by (simp_all add: change_member_def)
    from member_flag_loop_shape [OF m(1)] m(2,3) hit show ?thesis by (metis fst_conv)
  qed
qed (use assms in \<open>simp add: change_member_def\<close>)

lemma iget_append_Cons:
  "i \<notin> fst ` set as \<Longrightarrow> iget k (as @ (i, m) # bs) = (if k = i then Some m else iget k (as @ bs))"
  by (induction as) auto

lemma iget_replace:
  assumes "tok ikey (as @ (i, m) # bs)"
  shows "iget k (as @ (i, m') # bs) = (if k = i then Some m' else iget k (as @ (i, m) # bs))"
proof -
  have "i \<notin> fst ` set as" using assms by (auto simp: tok_def)
  then show ?thesis by (simp add: iget_append_Cons)
qed

lemma mask_set_changed:
  assumes "m \<noteq> []" and "change_mask v m raw = (applied, raw')"
  shows "applied \<longleftrightarrow> raw' \<noteq> raw"
proof (cases v)
  case True
  have "m \<notin> set (masks raw) \<Longrightarrow> (if raw \<noteq> [] then raw @ '','' else raw) @ m \<noteq> raw" using assms(1) by auto
  then show ?thesis
    using assms(2) True by (auto simp: change_mask_def mask_set_insert_def split: if_splits)
next
  case False
  show ?thesis
  proof (cases "m \<in> set (masks raw)")
    case True
    then obtain ps qs where pq: "masks raw = ps @ m # qs" "m \<notin> set ps" by (meson split_list_first)
    note rm = mask_set_remove_masks [OF pq]
    have "masks (snd (mask_set_remove m raw)) \<noteq> masks raw"
      unfolding rm(2) pq(1) using assms(1) by (cases qs) auto
    then show ?thesis using False assms(2) rm(1) by (auto simp: change_mask_def)
  next
    case out: False
    then show ?thesis
      using False assms(2) by (auto simp: change_mask_def mask_set_remove_def piece_start_none)
  qed
qed

lemma change_member_reported:
  assumes "change_member nick_of p f ch = Some (r, ch')" and "\<And>m. fst (f m) \<longleftrightarrow> snd (f m) \<noteq> m"
  shows "r = Inr True \<longleftrightarrow> ch' \<noteq> ch"
  using assms(1)
proof (cases rule: change_member_cases)
  case (hit as i m bs)
  have "ch_members ch' = ch_members ch \<longleftrightarrow> snd (f m) = m" using hit by simp
  moreover have "ch' = ch \<longleftrightarrow> ch_members ch' = ch_members ch" using hit by (cases ch) simp
  ultimately show ?thesis using hit assms(2) [of m] by simp
qed simp

lemma change_member_keeps:
  assumes "change_member nick_of p f ch = Some (r, ch')"
  shows "tkeys (ch_members ch') = tkeys (ch_members ch)" and "ch_topic ch' = ch_topic ch"
    and "ch_invites ch' = ch_invites ch"
  using assms by (auto elim!: change_member_cases simp: tkeys_def)

lemma tok_keys: "tkeys m = tkeys m' \<Longrightarrow> tok f m \<longleftrightarrow> tok f m'"
  by (simp add: tok_tkeys)

text \<open>Whatever the change, the members stay the same, as do the topic and the invitations.\<close>

lemma channel_apply_mode_change_keeps:
  assumes "channel_apply_mode_change change keylen nick_of ch = Some (r, ch')"
  shows "tkeys (ch_members ch') = tkeys (ch_members ch) \<and> ch_topic ch' = ch_topic ch
    \<and> ch_invites ch' = ch_invites ch"
proof (cases change)
  case (UserLimit l)
  then show ?thesis using assms by (cases l) (auto split: option.splits)
qed (use assms in \<open>auto simp: Let_def dest: change_member_keeps split: if_splits option.splits prod.splits\<close>)

section \<open>Properties\<close>

lemma channel_flag_reported:
  "(ch_invite_only ch \<noteq> v) = (ch\<lparr>ch_invite_only := v\<rparr> \<noteq> ch)"
  "(ch_moderated ch \<noteq> v) = (ch\<lparr>ch_moderated := v\<rparr> \<noteq> ch)"
  "(ch_no_msg_from_outside ch \<noteq> v) = (ch\<lparr>ch_no_msg_from_outside := v\<rparr> \<noteq> ch)"
  "(ch_secret ch \<noteq> v) = (ch\<lparr>ch_secret := v\<rparr> \<noteq> ch)"
  "(ch_topic_restricted ch \<noteq> v) = (ch\<lparr>ch_topic_restricted := v\<rparr> \<noteq> ch)"
  "(ch_key ch \<noteq> k) = (ch\<lparr>ch_key := k\<rparr> \<noteq> ch)"
  "(ch_user_limit ch \<noteq> l) = (ch\<lparr>ch_user_limit := l\<rparr> \<noteq> ch)"
  "(ms \<noteq> ch_ban_mask ch) = (ch\<lparr>ch_ban_mask := ms\<rparr> \<noteq> ch)"
  "(ms \<noteq> ch_exception_mask ch) = (ch\<lparr>ch_exception_mask := ms\<rparr> \<noteq> ch)"
  "(ms \<noteq> ch_invex_mask ch) = (ch\<lparr>ch_invex_mask := ms\<rparr> \<noteq> ch)"
  by (cases ch; auto)+

text \<open>C31: Mode changes are reported truthfully.  Applying one change answers \<open>true\<close> exactly when the
  channel is different afterwards; after an error the channel is as before.  The server announces to
  the members exactly the changes for which the answer is \<open>true\<close>.\<close>

theorem mode_change_reported:
  assumes "channel_apply_mode_change change keylen nick_of ch = Some (r, ch')"
    and "change_param change \<noteq> Some []"
  shows "r = Inr True \<longleftrightarrow> ch' \<noteq> ch"
proof (cases change)
  case (UserLimit l)
  show ?thesis
  proof (cases l)
    case None
    then show ?thesis using UserLimit assms(1) channel_flag_reported(7) [of ch None] by auto
  next
    case (Some s)
    then show ?thesis using UserLimit assms(1) channel_flag_reported(7) [of ch "parse_usize s"]
      by (auto split: option.splits)
  qed
next
  case (Key v k)
  then show ?thesis
    using assms(1) channel_flag_reported(6) [of ch None] channel_flag_reported(6) [of ch "str_trunc k keylen"]
    by (auto split: if_splits option.splits)
next
  case (ChangeBan v m)
  then show ?thesis using assms mask_set_changed [of m v] channel_flag_reported(8) [of _ ch]
    by (auto simp: Let_def split: prod.splits)
next
  case (ChangeException v m)
  then show ?thesis using assms mask_set_changed [of m v] channel_flag_reported(9) [of _ ch]
    by (auto simp: Let_def split: prod.splits)
next
  case (ChangeInvitation v m)
  then show ?thesis using assms mask_set_changed [of m v] channel_flag_reported(10) [of _ ch]
    by (auto simp: Let_def split: prod.splits)
next
  case (ChangeOperator v p)
  have "(mm_operator m \<noteq> v) = (m\<lparr>mm_operator := v\<rparr> \<noteq> m)" for m :: member_modes by (cases m) auto
  then show ?thesis using ChangeOperator assms(1) by (auto intro!: change_member_reported)
next
  case (ChangeHalfop v p)
  have "(mm_halfop m \<noteq> v) = (m\<lparr>mm_halfop := v\<rparr> \<noteq> m)" for m :: member_modes by (cases m) auto
  then show ?thesis using ChangeHalfop assms(1) by (auto intro!: change_member_reported)
next
  case (ChangeVoice v p)
  have "(mm_voice m \<noteq> v) = (m\<lparr>mm_voice := v\<rparr> \<noteq> m)" for m :: member_modes by (cases m) auto
  then show ?thesis using ChangeVoice assms(1) by (auto intro!: change_member_reported)
qed (use assms(1) channel_flag_reported(1-5) [of ch] in auto)

theorem mode_change_reported_witness:
  "channel_apply_mode_change (ChangeBan True ''*!*@spam'') 32 (\<lambda>_. None) channel_empty =
     Some (Inr True, channel_empty\<lparr>ch_ban_mask := ''*!*@spam''\<rparr>)
   \<and> channel_empty\<lparr>ch_ban_mask := ''*!*@spam''\<rparr> \<noteq> channel_empty"
proof -
  have "channel_apply_mode_change (ChangeBan True ''*!*@spam'') 32 (\<lambda>_. None) channel_empty =
     Some (Inr True, channel_empty\<lparr>ch_ban_mask := ''*!*@spam''\<rparr>)"
    by (simp add: channel_empty_def change_mask_def mask_set_insert_def mask_set_new_def)
  with mode_change_reported [OF this] show ?thesis by simp
qed

text \<open>What a change may touch: the privileged part of a channel is what only its operators may
  change.\<close>

definition op_part :: "channel \<Rightarrow> bool \<times> bool \<times> bool \<times> string option \<times> (nat \<times> bool \<times> bool \<times> bool \<times> bool) list" where
  "op_part ch =
     (ch_invite_only ch, ch_no_msg_from_outside ch, ch_secret ch, ch_key ch,
      map (\<lambda>(i, m). (i, mm_founder m, mm_protected m, mm_operator m, mm_halfop m)) (ch_members ch))"

lemma can_make_effect:
  assumes "can_make m change" and "channel_apply_mode_change change keylen nick_of ch = Some (r, ch')"
  shows "\<not> is_at_least_halfop m \<Longrightarrow> ch' = ch" and "\<not> is_at_least_op m \<Longrightarrow> op_part ch' = op_part ch"
proof -
  show "ch' = ch" if "\<not> is_at_least_halfop m"
    using that assms by (cases change) (auto simp: is_at_least_halfop_def is_at_least_op_def)
  show "op_part ch' = op_part ch" if "\<not> is_at_least_op m"
  proof (cases change)
    case (UserLimit l)
    then show ?thesis using assms(2) by (cases l) (auto simp: op_part_def split: option.splits)
  next
    case (ChangeVoice v p)
    then have "change_member nick_of p (\<lambda>m. (mm_voice m \<noteq> v, m\<lparr>mm_voice := v\<rparr>)) ch = Some (r, ch')"
      using assms(2) by simp
    then show ?thesis by (cases rule: change_member_cases) (auto simp: op_part_def)
  qed (use that assms in \<open>auto simp: op_part_def Let_def split: prod.splits\<close>)
qed

lemma can_change_make:
  "can_change m modes params \<Longrightarrow> Inr change \<in> set (channel_query modes params) \<Longrightarrow> can_make m change"
  by (auto simp: can_change_def list_all_iff)

definition last_sign :: "(bool \<times> string) list \<Rightarrow> string \<Rightarrow> bool \<Rightarrow> bool" where
  "last_sign items letter v = fold (\<lambda>(sign, l) v. if l = letter then sign else v) items v"

definition flag_step :: "bool \<times> string \<Rightarrow> channel \<Rightarrow> channel" where
  "flag_step item ch =
     ch\<lparr>ch_invite_only := (if snd item = ''i'' then fst item else ch_invite_only ch),
        ch_moderated := (if snd item = ''m'' then fst item else ch_moderated ch),
        ch_no_msg_from_outside := (if snd item = ''n'' then fst item else ch_no_msg_from_outside ch),
        ch_secret := (if snd item = ''s'' then fst item else ch_secret ch),
        ch_topic_restricted := (if snd item = ''t'' then fst item else ch_topic_restricted ch)\<rparr>"

lemma flag_step_other:
  "snd item \<notin> {''i'', ''m'', ''n'', ''s'', ''t''} \<Longrightarrow> flag_step item ch = ch"
  by (simp add: flag_step_def)

lemma channel_new_step:
  assumes "ch_key ch = None" and "ch_user_limit ch = None"
  shows "channel_new_loop (channel_query_loop (item # items) []) ch
    = channel_new_loop (channel_query_loop items []) (flag_step item ch)"
proof -
  obtain v l where item: "item = (v, l)" by fastforce
  have same: "ch\<lparr>ch_user_limit := None\<rparr> = ch" using assms(2) by (cases ch) simp
  consider (i) "l = ''i''" | (m) "l = ''m''" | (n) "l = ''n''" | (s) "l = ''s''" | (t) "l = ''t''"
    | (k) "l = ''k''" | (l) "l = ''l''" | (x) "l \<notin> {''i'', ''m'', ''n'', ''s'', ''t'', ''k'', ''l''}"
    by blast
  then show ?thesis
  proof cases
    case x
    then have "\<exists>r. channel_query_item item [] = (r, [])
        \<and> (r = Inr GetBans \<or> r = Inr GetExceptions \<or> r = Inr GetInvitations \<or> isl r)"
      by (auto simp: item channel_query_item_def)
    then show ?thesis using x by (auto simp: flag_step_other item isl_def)
  next
    case k
    then show ?thesis using assms(1) by (cases v) (simp_all add: item channel_query_item_def flag_step_other)
  next
    case l
    then show ?thesis using same by (cases v) (simp_all add: item channel_query_item_def flag_step_other)
  qed (simp_all add: item channel_query_item_def flag_step_def)
qed

lemma channel_new_loop_items:
  "ch_key ch = None \<Longrightarrow> ch_user_limit ch = None \<Longrightarrow>
   channel_new_loop (channel_query_loop items []) ch = Some (fold flag_step items ch)"
proof (induction items arbitrary: ch)
  case (Cons item items)
  then show ?case
    using channel_new_step [of ch item items] Cons.IH [of "flag_step item ch"]
    by (simp add: flag_step_def)
qed simp

lemma fold_flag_step:
  "fold flag_step items ch =
     ch\<lparr>ch_invite_only := last_sign items ''i'' (ch_invite_only ch),
        ch_moderated := last_sign items ''m'' (ch_moderated ch),
        ch_no_msg_from_outside := last_sign items ''n'' (ch_no_msg_from_outside ch),
        ch_secret := last_sign items ''s'' (ch_secret ch),
        ch_topic_restricted := last_sign items ''t'' (ch_topic_restricted ch)\<rparr>"
proof (induction items arbitrary: ch)
  case (Cons item items)
  have "last_sign (item # items) k w = last_sign items k (if snd item = k then fst item else w)" for k w
    by (cases item) (simp add: last_sign_def)
  then show ?case using Cons.IH [of "flag_step item ch"] by (simp add: flag_step_def)
qed (simp add: last_sign_def)

text \<open>Making a channel does not panic on any mode text, valid or not - the comment on \<open>Channel::new\<close> says
  that it panics on a text that is not valid, but the items in error are filtered out.  The channel
  starts without members, invitations, topic, key and limit, and each of its flags is what the last
  occurrence of the letter in the text says.\<close>

lemma channel_new_total:
  "\<exists>ch. channel_new modes = Some ch
     \<and> ch = channel_empty\<lparr>ch_invite_only := last_sign (simple_query modes) ''i'' False,
         ch_moderated := last_sign (simple_query modes) ''m'' False,
         ch_no_msg_from_outside := last_sign (simple_query modes) ''n'' False,
         ch_secret := last_sign (simple_query modes) ''s'' False,
         ch_topic_restricted := last_sign (simple_query modes) ''t'' False\<rparr>"
  using channel_new_loop_items [of channel_empty "simple_query modes"]
  by (simp add: channel_new_def simple_channel_query_def channel_query_def fold_flag_step channel_empty_def)

end
