(* ===== verification/Config.thy ===== *)
theory Config
  imports ModeQuery Channels "HOL-Library.Word"
begin

text \<open>
  \<open>src/config.rs\<close>: the configuration, its defaults and the checks of \<open>Config::from_file\<close>.  The YAML
  parser (serde), the check of domain names (webpki) and the file system are parameters.
\<close>

section \<open>Structures\<close>

record tls =
  tls_certificate :: string
  tls_key :: string
  tls_require_certificates :: bool

text \<open>A socket address: the textual form of the IP address, and the port.\<close>

record socket_addr =
  sa_ip :: string
  sa_port :: nat

record binding =
  bd_address :: socket_addr
  bd_tls :: "tls option"

record oper =
  op_name :: string
  op_password :: string

record state_config =
  cs_domain :: string
  cs_default_chan_mode :: string
  cs_motd_file :: string
  cs_password :: string
  cs_opers :: "oper list"
  cs_org_name :: string
  cs_org_location :: string
  cs_org_mail :: string
  cs_awaylen :: nat
  cs_channellen :: nat
  cs_keylen :: nat
  cs_kicklen :: nat
  cs_namelen :: nat
  cs_nicklen :: nat
  cs_topiclen :: nat
  cs_userlen :: nat
  cs_login_timeout :: "64 word"

record config =
  cf_is_unsafe :: bool
  cf_bindings :: "binding list"
  cf_workers :: nat
  cf_state :: state_config

section \<open>Defaults\<close>

definition default_bindings :: "binding list" where
  "default_bindings =
     [\<lparr>bd_address = \<lparr>sa_ip = ''127.0.0.1'', sa_port = 6667\<rparr>, bd_tls = None\<rparr>]"

definition default_domain :: string where "default_domain = ''ellidri.localdomain''"
definition default_default_chan_mode :: string where "default_default_chan_mode = ''+nst''"
definition default_motd_file :: string where "default_motd_file = ''/etc/motd''"
definition default_org :: string where "default_org = ''unspecified''"
definition default_awaylen :: nat where "default_awaylen = 300"
definition default_channellen :: nat where "default_channellen = 50"
definition default_keylen :: nat where "default_keylen = 24"
definition default_kicklen :: nat where "default_kicklen = 300"
definition default_namelen :: nat where "default_namelen = 64"
definition default_nicklen :: nat where "default_nicklen = 32"
definition default_topiclen :: nat where "default_topiclen = 300"
definition default_userlen :: nat where "default_userlen = 64"
definition default_login_timeout :: "64 word" where "default_login_timeout = 60000"

definition state_config_sample :: state_config where
  "state_config_sample =
     \<lparr>cs_domain = default_domain,
      cs_default_chan_mode = default_default_chan_mode,
      cs_motd_file = default_motd_file,
      cs_password = [],
      cs_opers = [],
      cs_org_name = default_org,
      cs_org_location = default_org,
      cs_org_mail = default_org,
      cs_awaylen = default_awaylen,
      cs_channellen = default_channellen,
      cs_keylen = default_keylen,
      cs_kicklen = default_kicklen,
      cs_namelen = default_namelen,
      cs_nicklen = default_nicklen,
      cs_topiclen = default_topiclen,
      cs_userlen = default_userlen,
      cs_login_timeout = default_login_timeout\<rparr>"

definition config_sample :: config where
  "config_sample =
     \<lparr>cf_is_unsafe = False, cf_bindings = default_bindings, cf_workers = 0,
      cf_state = state_config_sample\<rparr>"

section \<open>Reading\<close>

text \<open>What the deserialiser finds in the file: every field may be missing, and the \<open>serde(default)\<close>
  attributes fill the gaps.\<close>

record raw_state_config =
  rs_domain :: "string option"
  rs_default_chan_mode :: "string option"
  rs_motd_file :: "string option"
  rs_password :: "string option"
  rs_opers :: "(oper list) option"
  rs_org_name :: "string option"
  rs_org_location :: "string option"
  rs_org_mail :: "string option"
  rs_awaylen :: "nat option"
  rs_channellen :: "nat option"
  rs_keylen :: "nat option"
  rs_kicklen :: "nat option"
  rs_namelen :: "nat option"
  rs_nicklen :: "nat option"
  rs_topiclen :: "nat option"
  rs_userlen :: "nat option"
  rs_login_timeout :: "(64 word) option"

record raw_config =
  rc_unsafe :: "bool option"
  rc_bindings :: "binding list option"
  rc_workers :: "nat option"
  rc_state :: raw_state_config

definition or_default :: "'a \<Rightarrow> 'a option \<Rightarrow> 'a" where
  "or_default d x = (case x of None \<Rightarrow> d | Some v \<Rightarrow> v)"

definition state_config_of_raw :: "raw_state_config \<Rightarrow> state_config" where
  "state_config_of_raw r =
     \<lparr>cs_domain = or_default default_domain (rs_domain r),
      cs_default_chan_mode = or_default default_default_chan_mode (rs_default_chan_mode r),
      cs_motd_file = or_default default_motd_file (rs_motd_file r),
      cs_password = or_default [] (rs_password r),
      cs_opers = or_default [] (rs_opers r),
      cs_org_name = or_default default_org (rs_org_name r),
      cs_org_location = or_default default_org (rs_org_location r),
      cs_org_mail = or_default default_org (rs_org_mail r),
      cs_awaylen = or_default default_awaylen (rs_awaylen r),
      cs_channellen = or_default default_channellen (rs_channellen r),
      cs_keylen = or_default default_keylen (rs_keylen r),
      cs_kicklen = or_default default_kicklen (rs_kicklen r),
      cs_namelen = or_default default_namelen (rs_namelen r),
      cs_nicklen = or_default default_nicklen (rs_nicklen r),
      cs_topiclen = or_default default_topiclen (rs_topiclen r),
      cs_userlen = or_default default_userlen (rs_userlen r),
      cs_login_timeout = or_default default_login_timeout (rs_login_timeout r)\<rparr>"

definition config_of_raw :: "raw_config \<Rightarrow> config" where
  "config_of_raw r =
     \<lparr>cf_is_unsafe = or_default False (rc_unsafe r),
      cf_bindings = or_default default_bindings (rc_bindings r),
      cf_workers = or_default 0 (rc_workers r),
      cf_state = state_config_of_raw (rc_state r)\<rparr>"

datatype ('io, 'fmt) config_error =
    Config_Io 'io
  | Config_Format 'fmt
  | InvalidDomain
  | InvalidModes

text \<open>The texts and the causes of the errors, given those of the libraries.\<close>

definition config_error_display :: "('io \<Rightarrow> string) \<Rightarrow> ('fmt \<Rightarrow> string) \<Rightarrow> ('io, 'fmt) config_error \<Rightarrow> string" where
  "config_error_display io_display format_display err =
     (case err of
        Config_Io err \<Rightarrow> io_display err
      | Config_Format err \<Rightarrow> format_display err
      | InvalidDomain \<Rightarrow> [CHR 0x27] @ ''domain'' @ [CHR 0x27] @ '' must be a domain name (e.g. irc.com)''
      | InvalidModes \<Rightarrow>
          [CHR 0x27] @ ''default_chan_mode'' @ [CHR 0x27] @ '' must be a mode string (e.g. +nt)'')"

definition config_error_source :: "('io, 'fmt) config_error \<Rightarrow> ('io + 'fmt) option" where
  "config_error_source err =
     (case err of Config_Io err \<Rightarrow> Some (Inl err) | Config_Format err \<Rightarrow> Some (Inr err) | _ \<Rightarrow> None)"

definition config_from_file ::
  "('p \<Rightarrow> 'io + string) \<Rightarrow> (string \<Rightarrow> 'fmt + raw_config) \<Rightarrow> (string \<Rightarrow> bool) \<Rightarrow> 'p
   \<Rightarrow> ('io, 'fmt) config_error + config" where
  "config_from_file read_to_string from_yaml is_dns_name path =
     (case read_to_string path of
        Inl e \<Rightarrow> Inl (Config_Io e)
      | Inr contents \<Rightarrow>
          (case from_yaml contents of
             Inl e \<Rightarrow> Inl (Config_Format e)
           | Inr raw \<Rightarrow>
               (let res = config_of_raw raw
                in if \<not> is_dns_name (cs_domain (cf_state res)) then Inl InvalidDomain
                   else if \<not> is_channel_mode_string (cs_default_chan_mode (cf_state res))
                   then Inl InvalidModes
                   else Inr res)))"

section \<open>Properties\<close>

abbreviation empty_raw_config :: raw_config where
  "empty_raw_config \<equiv> \<lparr>rc_unsafe = None, rc_bindings = None, rc_workers = None,
      rc_state = \<lparr>rs_domain = None, rs_default_chan_mode = None, rs_motd_file = None, rs_password = None,
        rs_opers = None, rs_org_name = None, rs_org_location = None, rs_org_mail = None, rs_awaylen = None,
        rs_channellen = None, rs_keylen = None, rs_kicklen = None, rs_namelen = None, rs_nicklen = None,
        rs_topiclen = None, rs_userlen = None, rs_login_timeout = None\<rparr>\<rparr>"

text \<open>C30: A loaded configuration makes channels.  A configuration file that is accepted has a domain name
  that passed the check and a valid default channel mode, without unknown letters or missing
  parameters.  With this mode making a channel succeeds: the channel has no members, invitations,
  topic, key and limit, and each of its flags is what the last occurrence of the letter says.\<close>

theorem loaded_config_makes_channels:
  assumes "config_from_file read_to_string from_yaml is_dns_name path = Inr cfg"
    and "modes = cs_default_chan_mode (cf_state cfg)"
  shows "is_dns_name (cs_domain (cf_state cfg))
    \<and> list_all (\<lambda>r. \<not> isl r) (simple_channel_query modes)
    \<and> channel_new modes = Some (channel_empty\<lparr>ch_invite_only := last_sign (simple_query modes) ''i'' False,
         ch_moderated := last_sign (simple_query modes) ''m'' False,
         ch_no_msg_from_outside := last_sign (simple_query modes) ''n'' False,
         ch_secret := last_sign (simple_query modes) ''s'' False,
         ch_topic_restricted := last_sign (simple_query modes) ''t'' False\<rparr>)"
  using assms channel_new_total [of modes]
  by (auto simp: config_from_file_def Let_def is_channel_mode_string_def split: sum.splits if_splits)

text \<open>A file that leaves everything out is the default configuration, with channels that are secret,
  closed to messages from outside, and have protected topics.\<close>

theorem loaded_config_makes_channels_witness:
  "config_from_file (\<lambda>p. Inr p) (\<lambda>_. Inr empty_raw_config :: unit + raw_config) (\<lambda>d. d \<noteq> []) []
     = (Inr config_sample :: (unit, unit) config_error + config)
   \<and> channel_new ''+nst'' = Some (channel_empty\<lparr>ch_no_msg_from_outside := True, ch_secret := True, ch_topic_restricted := True\<rparr>)"
proof -
  have modes: "is_channel_mode_string ''+nst''" by code_simp
  have signs: "last_sign (simple_query ''+nst'') ''i'' False = False" "last_sign (simple_query ''+nst'') ''m'' False = False"
    "last_sign (simple_query ''+nst'') ''n'' False = True" "last_sign (simple_query ''+nst'') ''s'' False = True"
    "last_sign (simple_query ''+nst'') ''t'' False = True"
    by code_simp+
  have read: "config_from_file (\<lambda>p. Inr p) (\<lambda>_. Inr empty_raw_config :: unit + raw_config) (\<lambda>d. d \<noteq> []) []
      = (Inr config_sample :: (unit, unit) config_error + config)"
    by (simp add: config_from_file_def config_of_raw_def state_config_of_raw_def or_default_def
        config_sample_def state_config_sample_def default_domain_def default_default_chan_mode_def modes)
  have "cs_default_chan_mode (cf_state config_sample) = ''+nst''"
    by (simp add: config_sample_def state_config_sample_def default_default_chan_mode_def)
  then show ?thesis
    using read loaded_config_makes_channels [OF read, of "''+nst''"] by (simp add: signs channel_empty_def)
qed

end
