(* ===== verification/Clients.thy ===== *)
theory Clients
  imports Requests Buffers
begin

text \<open>
  \<open>src/client.rs\<close>: the data of a client and the state machine of its connection.  The queue of
  outgoing messages is not a field here: what is sent is recorded in the state of the server.
\<close>

section \<open>Queue items\<close>

record queue_item =
  qi_start :: nat
  qi_buf :: string

definition queue_item_from :: "string \<Rightarrow> queue_item" where
  "queue_item_from val = \<lparr>qi_start = 0, qi_buf = val\<rparr>"

definition queue_item_as_ref :: "queue_item \<Rightarrow> string option" where
  "queue_item_as_ref item =
     (if qi_start item \<le> length (qi_buf item) then str_from (qi_buf item) (qi_start item) else None)"

section \<open>Connection states\<close>

datatype connection_state =
    ConnectionEstablished
  | NickGiven
  | UserGiven
  | CapGiven
  | CapNickGiven
  | CapUserGiven
  | CapNegotiation
  | Registered
  | St_Quit

text \<open>The patterns of \<open>ConnectionState::apply\<close>.\<close>

definition is_cap_start :: "request \<Rightarrow> bool" where
  "is_cap_start r = (case r of Req_CapLs _ \<Rightarrow> True | Req_CapReq _ \<Rightarrow> True | _ \<Rightarrow> False)"

definition is_cap_end :: "request \<Rightarrow> bool" where
  "is_cap_end r = (case r of Req_CapEnd \<Rightarrow> True | _ \<Rightarrow> False)"

definition is_auth_or_ping :: "request \<Rightarrow> bool" where
  "is_auth_or_ping r = (case r of Req_Authenticate _ \<Rightarrow> True | Req_Ping _ \<Rightarrow> True | _ \<Rightarrow> False)"

definition is_pass :: "request \<Rightarrow> bool" where
  "is_pass r = (case r of Req_Pass _ \<Rightarrow> True | _ \<Rightarrow> False)"

definition is_nick :: "request \<Rightarrow> bool" where
  "is_nick r = (case r of Req_Nick _ \<Rightarrow> True | _ \<Rightarrow> False)"

definition is_user :: "request \<Rightarrow> bool" where
  "is_user r = (case r of Req_User _ _ \<Rightarrow> True | _ \<Rightarrow> False)"

definition is_quit :: "request \<Rightarrow> bool" where
  "is_quit r = (case r of Req_Quit _ \<Rightarrow> True | _ \<Rightarrow> False)"

fun state_apply :: "connection_state \<Rightarrow> request \<Rightarrow> unit + connection_state" where
  "state_apply ConnectionEstablished r =
     (if is_cap_start r then Inr CapGiven
      else if is_auth_or_ping r \<or> is_cap_end r \<or> is_pass r then Inr ConnectionEstablished
      else if is_nick r then Inr NickGiven
      else if is_user r then Inr UserGiven
      else if is_quit r then Inr St_Quit
      else Inl ())"
| "state_apply NickGiven r =
     (if is_cap_start r then Inr CapGiven
      else if is_auth_or_ping r \<or> is_cap_end r \<or> is_nick r \<or> is_pass r then Inr NickGiven
      else if is_user r then Inr Registered
      else if is_quit r then Inr St_Quit
      else Inl ())"
| "state_apply UserGiven r =
     (if is_cap_start r then Inr CapGiven
      else if is_auth_or_ping r \<or> is_cap_end r \<or> is_pass r then Inr UserGiven
      else if is_nick r then Inr Registered
      else if is_quit r then Inr St_Quit
      else Inl ())"
| "state_apply CapGiven r =
     (if is_cap_end r then Inr ConnectionEstablished
      else if is_auth_or_ping r \<or> is_cap_start r \<or> is_pass r then Inr CapGiven
      else if is_nick r then Inr CapNickGiven
      else if is_user r then Inr CapUserGiven
      else if is_quit r then Inr St_Quit
      else Inl ())"
| "state_apply CapNickGiven r =
     (if is_cap_end r then Inr NickGiven
      else if is_auth_or_ping r \<or> is_cap_start r \<or> is_nick r \<or> is_pass r then Inr CapNickGiven
      else if is_user r then Inr CapNegotiation
      else if is_quit r then Inr St_Quit
      else Inl ())"
| "state_apply CapUserGiven r =
     (if is_cap_end r then Inr UserGiven
      else if is_auth_or_ping r \<or> is_cap_start r \<or> is_pass r then Inr CapUserGiven
      else if is_nick r then Inr CapNegotiation
      else if is_quit r then Inr St_Quit
      else Inl ())"
| "state_apply CapNegotiation r =
     (if is_cap_end r then Inr Registered
      else if is_auth_or_ping r \<or> is_cap_start r \<or> is_nick r \<or> is_pass r then Inr CapNegotiation
      else if is_quit r then Inr St_Quit
      else Inl ())"
| "state_apply Registered r =
     (if is_pass r \<or> is_user r then Inl ()
      else if is_quit r then Inr St_Quit
      else Inr Registered)"
| "state_apply St_Quit r = Inl ()"

definition state_is_registered :: "connection_state \<Rightarrow> bool" where
  "state_is_registered st \<longleftrightarrow> st = Registered"

section \<open>Clients\<close>

definition AUTHENTICATE_CHUNK_LEN :: nat where "AUTHENTICATE_CHUNK_LEN = 400"
definition AUTHENTICATE_WHOLE_LEN :: nat where "AUTHENTICATE_WHOLE_LEN = 1024"

record client =
  cl_domain :: string
  cl_cap_version :: version
  cl_cap_enabled :: capabilities
  cl_state :: connection_state
  cl_auth_buffer :: string
  cl_auth_buffer_complete :: bool
  cl_auth_id :: "nat option"
  cl_nick :: string
  cl_user :: string
  cl_real :: string
  cl_host :: string
  cl_account :: "string option"
  cl_full_name :: string
  cl_signon_time :: "64 word"
  cl_last_action_time :: "64 word"
  cl_has_given_password :: bool
  cl_away_message :: "string option"
  cl_invisible :: bool
  cl_operator :: bool

text \<open>The time is an argument where the code reads the clock.\<close>

definition client_new :: "64 word \<Rightarrow> string \<Rightarrow> string \<Rightarrow> client" where
  "client_new now domain host =
     \<lparr>cl_domain = domain, cl_cap_version = V300, cl_cap_enabled = capabilities_default,
      cl_state = ConnectionEstablished, cl_auth_buffer = [], cl_auth_buffer_complete = False,
      cl_auth_id = None, cl_nick = ''*'', cl_user = [], cl_real = [], cl_host = host,
      cl_account = None, cl_full_name = [], cl_signon_time = now, cl_last_action_time = now,
      cl_has_given_password = False, cl_away_message = None, cl_invisible = False,
      cl_operator = False\<rparr>"

text \<open>\<open>send\<close>: the item that goes to the queue.\<close>

definition client_send :: "client \<Rightarrow> queue_item \<Rightarrow> queue_item" where
  "client_send c msg = (if has_message_tags (cl_cap_enabled c) then msg\<lparr>qi_start := 0\<rparr> else msg)"

definition client_reply :: "client \<Rightarrow> string \<Rightarrow> reply_buffer" where
  "client_reply c label = rb_new (cl_domain c) (cl_nick c) label"

definition client_apply_request :: "request \<Rightarrow> client \<Rightarrow> client option" where
  "client_apply_request request c =
     (case state_apply (cl_state c) request of
        Inl _ \<Rightarrow> None
      | Inr st \<Rightarrow> Some (c\<lparr>cl_state := st\<rparr>))"

definition client_can_issue_request :: "request \<Rightarrow> client \<Rightarrow> bool" where
  "client_can_issue_request request c \<longleftrightarrow> \<not> isl (state_apply (cl_state c) request)"

definition client_is_registered :: "client \<Rightarrow> bool" where
  "client_is_registered c \<longleftrightarrow> cl_state c = Registered"

definition auth_set_id :: "nat \<Rightarrow> client \<Rightarrow> client" where
  "auth_set_id i c = c\<lparr>cl_auth_id := Some i\<rparr>"

definition auth_buffer_push :: "string \<Rightarrow> client \<Rightarrow> (unit + bool) \<times> client" where
  "auth_buffer_push buf c =
     (let c = (if cl_auth_buffer_complete c
               then c\<lparr>cl_auth_buffer_complete := False, cl_auth_buffer := []\<rparr> else c)
      in if AUTHENTICATE_CHUNK_LEN < length buf
            \<or> AUTHENTICATE_WHOLE_LEN < length (cl_auth_buffer c) + length buf
         then (Inl (), c)
         else
           (let c = (if buf \<noteq> ''+'' then c\<lparr>cl_auth_buffer := cl_auth_buffer c @ buf\<rparr> else c);
                c = c\<lparr>cl_auth_buffer_complete := (length buf < AUTHENTICATE_CHUNK_LEN)\<rparr>
            in (Inr (cl_auth_buffer_complete c), c)))"

text \<open>Base64 is a third-party crate: the decoder is a parameter.\<close>

definition auth_buffer_decode :: "(string \<Rightarrow> 'e + 'b list) \<Rightarrow> 'e \<Rightarrow> client \<Rightarrow> 'e + 'b list" where
  "auth_buffer_decode decode invalid_length c =
     (if \<not> cl_auth_buffer_complete c then Inl invalid_length else decode (cl_auth_buffer c))"

definition auth_reset :: "client \<Rightarrow> client" where
  "auth_reset c =
     c\<lparr>cl_auth_buffer := [], cl_auth_buffer_complete := False, cl_auth_id := None\<rparr>"

definition update_full_name :: "client \<Rightarrow> client" where
  "update_full_name c =
     c\<lparr>cl_full_name := cl_nick c @ ''!~'' @ cl_user c @ ''@'' @ cl_host c\<rparr>"

definition set_nick :: "string \<Rightarrow> client \<Rightarrow> client" where
  "set_nick nick c = update_full_name (c\<lparr>cl_nick := nick\<rparr>)"

definition set_user :: "string \<Rightarrow> client \<Rightarrow> client" where
  "set_user user c = update_full_name (c\<lparr>cl_user := user\<rparr>)"

definition set_real :: "string \<Rightarrow> client \<Rightarrow> client" where
  "set_real real c = c\<lparr>cl_real := real\<rparr>"

definition log_in :: "string \<Rightarrow> client \<Rightarrow> client" where
  "log_in account c = c\<lparr>cl_account := Some account\<rparr>"

text \<open>The subtraction of \<open>u64\<close>s, which panics when the clock has gone back since the last action.\<close>

definition idle_time :: "64 word \<Rightarrow> client \<Rightarrow> 64 word option" where
  "idle_time now c =
     (if now < cl_last_action_time c then None else Some (now - cl_last_action_time c))"

definition update_idle_time :: "64 word \<Rightarrow> client \<Rightarrow> client" where
  "update_idle_time now c = c\<lparr>cl_last_action_time := now\<rparr>"

definition write_modes :: "client \<Rightarrow> mb_call list" where
  "write_modes c =
     [RawParam (''+'' @ (if cl_away_message c \<noteq> None then ''a'' else [])
        @ (if cl_invisible c then ''i'' else []) @ (if cl_operator c then ''o'' else []))]"

fun client_apply_mode_change :: "user_change \<Rightarrow> client \<Rightarrow> bool \<times> client" where
  "client_apply_mode_change (Invisible value) c =
     (cl_invisible c \<noteq> value, c\<lparr>cl_invisible := value\<rparr>)"
| "client_apply_mode_change DeOperator c = (cl_operator c, c\<lparr>cl_operator := False\<rparr>)"

section \<open>The state machine\<close>

lemmas request_patterns =
  is_cap_start_def is_cap_end_def is_auth_or_ping_def is_pass_def is_nick_def is_user_def is_quit_def

text \<open>A run of the state machine on the requests a connection has issued.\<close>

inductive conn_run :: "request list \<Rightarrow> connection_state \<Rightarrow> bool" where
  conn_start: "conn_run [] ConnectionEstablished"
| conn_step: "conn_run rs st \<Longrightarrow> state_apply st r = Inr st' \<Longrightarrow> conn_run (rs @ [r]) st'"

inductive_cases conn_run_snocE: "conn_run (rs @ [r]) st"

definition nick_given :: "connection_state \<Rightarrow> bool" where
  "nick_given st \<longleftrightarrow> st \<in> {NickGiven, CapNickGiven, CapNegotiation, Registered}"

definition user_given :: "connection_state \<Rightarrow> bool" where
  "user_given st \<longleftrightarrow> st \<in> {UserGiven, CapUserGiven, CapNegotiation, Registered}"

definition negotiating :: "connection_state \<Rightarrow> bool" where
  "negotiating st \<longleftrightarrow> st \<in> {CapGiven, CapNickGiven, CapUserGiven, CapNegotiation}"

lemmas conn_parts = nick_given_def user_given_def negotiating_def

lemma state_apply_nick: "state_apply st r = Inr st' \<Longrightarrow> nick_given st' \<Longrightarrow> nick_given st \<or> is_nick r"
  by (cases st) (auto simp: conn_parts split: if_splits)

lemma state_apply_user: "state_apply st r = Inr st' \<Longrightarrow> user_given st' \<Longrightarrow> user_given st \<or> is_user r"
  by (cases st) (auto simp: conn_parts split: if_splits)

lemma state_apply_quit: "state_apply st r = Inr st' \<Longrightarrow> st' = St_Quit \<longleftrightarrow> is_quit r"
  by (cases st; cases r) (auto simp: request_patterns split: if_splits)

lemma state_apply_registered: "state_apply Registered r = Inr st \<Longrightarrow> st = (if is_quit r then St_Quit else Registered)"
  by (auto split: if_splits)

lemma conn_run_history:
  "conn_run rs st \<Longrightarrow> (nick_given st \<longrightarrow> (\<exists>r \<in> set rs. is_nick r))
    \<and> (user_given st \<longrightarrow> (\<exists>r \<in> set rs. is_user r))
    \<and> ((\<exists>r \<in> set rs. is_quit r) \<longleftrightarrow> st = St_Quit)"
proof (induction rule: conn_run.induct)
  case conn_start
  then show ?case by (simp add: conn_parts)
next
  case (conn_step rs st r st')
  have "st \<noteq> St_Quit" using conn_step.hyps(2) by auto
  with conn_step show ?case
    using state_apply_nick [OF conn_step.hyps(2)] state_apply_user [OF conn_step.hyps(2)]
      state_apply_quit [OF conn_step.hyps(2)]
    by auto
qed

text \<open>The step that registers.\<close>

lemma state_apply_registers:
  assumes "state_apply st r = Inr Registered" and "st \<noteq> Registered"
  shows "(negotiating st \<and> is_cap_end r \<and> nick_given st \<and> user_given st)
    \<or> (\<not> negotiating st \<and> (is_nick r \<and> user_given st \<or> is_user r \<and> nick_given st))"
  using assms by (cases st) (auto simp: conn_parts split: if_splits)

section \<open>Authentication buffer\<close>

definition auth_inv :: "client \<Rightarrow> bool" where
  "auth_inv c \<longleftrightarrow> length (cl_auth_buffer c) \<le> AUTHENTICATE_WHOLE_LEN"

lemma auth_inv_push: "auth_inv c \<Longrightarrow> auth_inv (snd (auth_buffer_push buf c))"
  by (auto simp: auth_inv_def auth_buffer_push_def Let_def)

section \<open>Properties\<close>

text \<open>C32: Registration.  A connection gets registered only by a request sequence that contains a
  \<open>NICK\<close> and a \<open>USER\<close> and no \<open>QUIT\<close>; it never leaves that state except by a \<open>QUIT\<close>, and after a
  \<open>QUIT\<close> no request is accepted.  While capabilities are negotiated it is \<open>CAP END\<close> that registers.\<close>

theorem registration_needs_nick_and_user:
  assumes "conn_run rs st"
  shows "(st = Registered \<longrightarrow> (\<exists>r \<in> set rs. is_nick r) \<and> (\<exists>r \<in> set rs. is_user r)
        \<and> (\<forall>r \<in> set rs. \<not> is_quit r))
    \<and> (\<forall>r. st = Registered \<longrightarrow> state_apply st r \<in> {Inl (), Inr (if is_quit r then St_Quit else Registered)})
    \<and> (\<forall>r. st \<noteq> Registered \<longrightarrow> state_apply st r = Inr Registered \<longrightarrow> negotiating st \<longrightarrow> is_cap_end r)
    \<and> ((\<exists>r \<in> set rs. is_quit r) \<longrightarrow> (\<forall>r. state_apply st r = Inl ()))"
proof (intro conjI impI allI)
  note hist = conn_run_history [OF assms]
  show "\<exists>r \<in> set rs. is_nick r" if "st = Registered" using hist that by (simp add: conn_parts)
  show "\<exists>r \<in> set rs. is_user r" if "st = Registered" using hist that by (simp add: conn_parts)
  show "\<forall>r \<in> set rs. \<not> is_quit r" if "st = Registered" using hist that by auto
  show "state_apply st r \<in> {Inl (), Inr (if is_quit r then St_Quit else Registered)}"
    if "st = Registered" for r
    using that by simp
  show "is_cap_end r" if "st \<noteq> Registered" "state_apply st r = Inr Registered" "negotiating st" for r
    using state_apply_registers [OF that(2,1)] that(3) by blast
  show "state_apply st r = Inl ()" if "\<exists>r \<in> set rs. is_quit r" for r
    using hist that by simp
qed

theorem registration_needs_nick_and_user_witness:
  "conn_run [Req_CapLs V302, Req_Nick ''a'', Req_User ''a'' ''a'', Req_CapEnd] Registered
   \<and> (\<exists>r \<in> set [Req_CapLs V302, Req_Nick ''a'', Req_User ''a'' ''a'', Req_CapEnd]. is_user r)"
proof -
  have "conn_run ([] @ [Req_CapLs V302]) CapGiven"
    by (rule conn_step, rule conn_start) (simp add: request_patterns)
  then have "conn_run ([Req_CapLs V302] @ [Req_Nick ''a'']) CapNickGiven"
    by (intro conn_step [where st = CapGiven]) (simp_all add: request_patterns)
  then have "conn_run ([Req_CapLs V302, Req_Nick ''a''] @ [Req_User ''a'' ''a'']) CapNegotiation"
    by (intro conn_step [where st = CapNickGiven]) (simp_all add: request_patterns)
  then have "conn_run ([Req_CapLs V302, Req_Nick ''a'', Req_User ''a'' ''a''] @ [Req_CapEnd]) Registered"
    by (intro conn_step [where st = CapNegotiation]) (simp_all add: request_patterns)
  then have run: "conn_run [Req_CapLs V302, Req_Nick ''a'', Req_User ''a'' ''a'', Req_CapEnd] Registered"
    by simp
  then show ?thesis using registration_needs_nick_and_user [OF run] by blast
qed

text \<open>The authentication buffer is bounded.  Starting from a new client, whatever chunks a client
  sends, its buffer never exceeds 1024 bytes; a chunk that is accepted is appended after the chunks
  of the same payload, except for the \<open>+\<close> that stands for an empty chunk.\<close>

lemma auth_buffer_bounded:
  "length (cl_auth_buffer (fold (\<lambda>buf c. snd (auth_buffer_push buf c)) bufs (client_new now domain host)))
     \<le> AUTHENTICATE_WHOLE_LEN"
proof -
  have "auth_inv c \<Longrightarrow> auth_inv (fold (\<lambda>buf c. snd (auth_buffer_push buf c)) bufs c)" for c
    by (induction bufs arbitrary: c) (simp_all add: auth_inv_push)
  then show ?thesis by (simp add: auth_inv_def client_new_def)
qed

text \<open>A nickname given before \<open>CAP LS\<close> is forgotten by the state machine.\<close>

lemma cap_ls_forgets_nick:
  "state_apply NickGiven (Req_CapLs V302) = Inr CapGiven"
  "state_apply CapGiven (Req_User u r) = Inr CapUserGiven"
  "state_apply CapUserGiven Req_CapEnd = Inr UserGiven"
  by (simp_all add: request_patterns)

end
