(* ===== verification/Lines.thy ===== *)
theory Lines
  imports Prelude
begin

text \<open>
  \<open>src/lines.rs\<close>: the texts of the server, constants and \<open>format_args!\<close> macros alike.  They are
  only ever written at the end of a message, so no proof looks inside them.
\<close>

definition lines_BAD_PASSWORD :: string where
  "lines_BAD_PASSWORD = ''You're not senpai!''"

definition lines_CLOSING_LINK :: string where
  "lines_CLOSING_LINK = ''Bye bye senpai!''"

definition lines_CONNECTION_RESET :: string where
  "lines_CONNECTION_RESET = ''This senpai left without saying anything...''"

definition lines_quit :: "string option \<Rightarrow> string" where
  "lines_quit reason =
     (case reason of
        Some r \<Rightarrow> ''This senpai left a note: '' @ r
      | None \<Rightarrow> ''This senpai left'')"

definition lines_REGISTRATION_TIMEOUT :: string where
  "lines_REGISTRATION_TIMEOUT = ''Senpai is such a slowpoke... baka''"

definition lines_ADMIN_ME :: string where
  "lines_ADMIN_ME = ''Administrative info''"

definition lines_ALREADY_REGISTERED :: string where
  "lines_ALREADY_REGISTERED = ''You can't re-register, dummy!''"

definition lines_NOW_AWAY :: string where
  "lines_NOW_AWAY = ''See you later!''"

definition lines_UN_AWAY :: string where
  "lines_UN_AWAY = ''Welcome back!''"

definition lines_BAD_CHAN_KEY :: string where
  "lines_BAD_CHAN_KEY = ''Whoops, guess you've entered the wrong channel key :s''"

definition lines_BANNED_FROM_CHAN :: string where
  "lines_BANNED_FROM_CHAN = ''They don't want you in here senpai...''"

definition lines_CANNOT_SEND_TO_CHAN :: string where
  "lines_CANNOT_SEND_TO_CHAN = ''They can't hear you from here senpai...''"

definition lines_CHAN_O_PRIVS_NEEDED :: string where
  "lines_CHAN_O_PRIVS_NEEDED = ''You need to ask a channel operator''"

definition lines_CHANNEL_IS_FULL :: string where
  "lines_CHANNEL_IS_FULL = ''Please, this channel could not take it!''"

definition lines_END_OF_BAN_LIST :: string where
  "lines_END_OF_BAN_LIST = ''End of ban list''"

definition lines_END_OF_EXCEPT_LIST :: string where
  "lines_END_OF_EXCEPT_LIST = ''End of except list''"

definition lines_END_OF_INFO :: string where
  "lines_END_OF_INFO = ''End of info''"

definition lines_END_OF_INVITE_LIST :: string where
  "lines_END_OF_INVITE_LIST = ''End of invite list''"

definition lines_END_OF_LIST :: string where
  "lines_END_OF_LIST = ''End of list''"

definition lines_END_OF_MOTD :: string where
  "lines_END_OF_MOTD = ''End of MOTD''"

definition lines_END_OF_NAMES :: string where
  "lines_END_OF_NAMES = ''End of names''"

definition lines_END_OF_WHO :: string where
  "lines_END_OF_WHO = ''End of WHO list''"

definition lines_END_OF_WHOIS :: string where
  "lines_END_OF_WHOIS = ''End of WHOIS list''"

definition lines_ERRONEOUS_NICKNAME :: string where
  "lines_ERRONEOUS_NICKNAME = ''Meh, this is obviously a bad nickname...''"

definition lines_INPUT_TOO_LONG :: string where
  "lines_INPUT_TOO_LONG = ''Please wait senpai, that's too big!  If only there was one message at a time...''"

definition lines_INVITE_ONLY_CHAN :: string where
  "lines_INVITE_ONLY_CHAN = ''They didn't invite you yet, keep trying~!''"

definition lines_KEY_SET :: string where
  "lines_KEY_SET = ''The channel key is already here, senpai!''"

definition lines_NEED_MORE_PARAMS :: string where
  "lines_NEED_MORE_PARAMS = ''You are not telling me everything, are you?''"

definition lines_NICKNAME_IN_USE :: string where
  "lines_NICKNAME_IN_USE = ''Another senpai already took this nickname...''"

definition lines_NO_MOTD :: string where
  "lines_NO_MOTD = ''ellidri can't find the MOTD...''"

definition lines_NO_TOPIC :: string where
  "lines_NO_TOPIC = ''It seems this channel doesn't have any topic''"

definition lines_NO_PRIVILEDGES :: string where
  "lines_NO_PRIVILEDGES = ''Senpai, could you stop doing that? ellidri doesn't like it...''"

definition lines_NO_SUCH_NICK :: string where
  "lines_NO_SUCH_NICK = ''I can't find this senpai...''"

definition lines_NO_SUCH_CHANNEL :: string where
  "lines_NO_SUCH_CHANNEL = ''I can't find this channel...''"

definition lines_NOT_ON_CHANNEL :: string where
  "lines_NOT_ON_CHANNEL = ''Senpai... I can't do that if you're not on the channel!''"

definition lines_NOT_REGISTERED :: string where
  "lines_NOT_REGISTERED = ''You must register first!''"

definition lines_PASSWORD_MISMATCH :: string where
  "lines_PASSWORD_MISMATCH = ''Nope! Wrong password''"

definition lines_PART_ALL :: string where
  "lines_PART_ALL = ''Baka!''"

definition lines_REHASHING :: string where
  "lines_REHASHING = ''Oh~~!  Onwards to reload the configuration!''"

definition lines_UNKNOWN_COMMAND :: string where
  "lines_UNKNOWN_COMMAND = ''Hnn... What did you just say?''"

definition lines_UNKNOWN_MODE :: string where
  "lines_UNKNOWN_MODE = ''This letter right here... what does it mean?''"

definition lines_USER_NOT_IN_CHANNEL :: string where
  "lines_USER_NOT_IN_CHANNEL = ''This senpai isn't on the channel''"

definition lines_USERS_DONT_MATCH :: string where
  "lines_USERS_DONT_MATCH = ''Kyaaa! Peeking is bad senpai! Please don't do that again!''"

definition lines_USER_ON_CHANNEL :: string where
  "lines_USER_ON_CHANNEL = ''Don't worry senpai! They're already on the channel!''"

definition lines_YOURE_OPER :: string where
  "lines_YOURE_OPER = ''You are now a BIG senpai!''"

definition lines_WHOIS_IDLE :: string where
  "lines_WHOIS_IDLE = ''Seconds since last activity, registration time''"

definition lines_your_host :: "string \<Rightarrow> string \<Rightarrow> string" where
  "lines_your_host host version = ''Your host is '' @ host @ '' running version '' @ version"

definition lines_I_SUPPORT :: string where
  "lines_I_SUPPORT = ''are allowed by ellidri''"

definition lines_created :: "string \<Rightarrow> string" where
  "lines_created since = ''I've been looking at you since '' @ since"

definition lines_LUSER_CHANNELS :: string where
  "lines_LUSER_CHANNELS = ''channels created''"

definition lines_luser_client :: "string \<Rightarrow> string" where
  "lines_luser_client n = ''There are '' @ n @ '' senpai(s) on 1 server''"

definition lines_luser_me :: "string \<Rightarrow> string" where
  "lines_luser_me n = ''I have '' @ n @ '' senpai(s) and 0 servers''"

definition lines_LUSER_OP :: string where
  "lines_LUSER_OP = ''operator(s) online''"

definition lines_LUSER_UNKNOWN :: string where
  "lines_LUSER_UNKNOWN = ''unknown connection(s)''"

definition lines_motd_start :: "string \<Rightarrow> string" where
  "lines_motd_start domain = ''- '' @ domain @ '' message of the day -''"

definition lines_welcome :: "string \<Rightarrow> string" where
  "lines_welcome nick = ''Welcome home, '' @ nick"

definition lines_SASL_ABORTED :: string where
  "lines_SASL_ABORTED = ''ABORT BAKA''"

definition lines_SASL_ALREADY :: string where
  "lines_SASL_ALREADY = ''I can't authenticate you again senpai!''"

definition lines_SASL_FAILED :: string where
  "lines_SASL_FAILED = ''it's not like I wanted to do my best for you, but it didn't worked''"

definition lines_SASL_MECHS :: string where
  "lines_SASL_MECHS = ''please use these to authenticate!''"

definition lines_SASL_SUCCESSFUL :: string where
  "lines_SASL_SUCCESSFUL = ''sugoi~~! looks like it worked!''"

definition lines_SASL_TOO_LONG :: string where
  "lines_SASL_TOO_LONG = ''senpai, it's too big!''"

definition lines_logged_in :: "string \<Rightarrow> string" where
  "lines_logged_in who = ''okaeri '' @ who"

definition lines_INVALID_REALNAME :: string where
  "lines_INVALID_REALNAME = ''Meh, this is obviously a bad realname...''"

end
