(* ===== verification/ServerState.thy ===== *)
theory ServerState
  imports Config Clients Lines
begin

text \<open>
  \<open>src/state/mod.rs\<close>: the state of the server, the arrival and departure of clients, and the
  functions the command handlers share.  Clients are sent queue items: the model keeps what has been
  sent in the field \<open>sv_sent\<close>, oldest first, with the identifier of the receiver.

  What the code reads from its surroundings - the clock, random message identifiers - is in the
  record \<open>env\<close>, an argument of the handlers.
\<close>

section \<open>Constants and state\<close>

definition SERVER_VERSION :: string where
  "SERVER_VERSION = ''ellidri-3.0.0''"

definition SERVER_INFO_LINES :: "string list" where
  "SERVER_INFO_LINES =
    [''+-------------------------------  --  --  -  -  -   -     -       -'',
     ''| Hello there!'',
     ''| This is ellidri, the software this IRC server runs on!'',
     ''|'',
     ''| ellidri is just an IRC server, that comes bundled with features'',
     ''| anyone would expect from a messaging service!  ellidri also'',
     ''| tries to please its senpais the most.  Yes!  ellidri's talking'',
     ''| about you, senpai.  If you have any questions about ellidri, you'',
     ''| can ask them on freenode's #ellidri.  Please note that they'',
     ''| won't answer questions about this IRC network specifically!'',
     ''|'',
     ''|      >> To contact the operator of this IRC network, <<'',
     ''|      >>           start by typing  /admin            <<'',
     ''|'',
     ''| For those who are interested, ellidri is free and open-source'',
     ''| software.  This is really cool, right?  That means you can see'',
     ''| how ellidri works, show it to others, and even add features!'',
     ''|'',
     ''|    To see how the development is doing, head over there!'',
     ''|              https://git.sr.ht/~taiite/ellidri'',
     ''|'',
     ''| To report a bug, or ask for a feature (please explain properly!)'',
     ''|    - send a mail to      ~taiite/ellidri@todo.sr.ht'',
     ''|    - submit a ticket on  https://todo.sr.ht/%7Etaiite/ellidri'',
     ''|'',
     ''| See you!'',
     ''+-------------------------------  --  --  -  -  -   -     -       -'']"

definition MAX_TAG_DATA_LENGTH :: nat where "MAX_TAG_DATA_LENGTH = 4094"
definition MAX_LABEL_LENGTH :: nat where "MAX_LABEL_LENGTH = 64"

record env =
  env_now :: "64 word"
  env_time_str :: string
  env_time_precise :: string
  env_message_id :: string

datatype handler_result = HOk | HErr

record server =
  sv_domain :: string
  sv_org_name :: string
  sv_org_location :: string
  sv_org_mail :: string
  sv_clients :: "client itable"
  sv_nicks :: "nat utable"
  sv_channels :: "channel utable"
  sv_created_at :: string
  sv_motd :: "string option"
  sv_password :: string
  sv_default_chan_mode :: string
  sv_opers :: "oper list"
  sv_awaylen :: nat
  sv_channellen :: nat
  sv_keylen :: nat
  sv_kicklen :: nat
  sv_namelen :: nat
  sv_nicklen :: nat
  sv_topiclen :: nat
  sv_userlen :: nat
  sv_login_timeout :: "64 word"
  sv_rehash_notified :: nat
  sv_sent :: "(nat \<times> queue_item) list"

text \<open>\<open>StateInner::new\<close>; \<open>motd\<close> is what reading the file gave.\<close>

definition server_new :: "env \<Rightarrow> string option \<Rightarrow> state_config \<Rightarrow> server" where
  "server_new env motd cfg =
     \<lparr>sv_domain = cs_domain cfg, sv_org_name = cs_org_name cfg,
      sv_org_location = cs_org_location cfg, sv_org_mail = cs_org_mail cfg,
      sv_clients = [], sv_nicks = [], sv_channels = [], sv_created_at = env_time_str env,
      sv_motd = motd, sv_password = cs_password cfg,
      sv_default_chan_mode = cs_default_chan_mode cfg, sv_opers = cs_opers cfg,
      sv_awaylen = cs_awaylen cfg, sv_channellen = cs_channellen cfg, sv_keylen = cs_keylen cfg,
      sv_kicklen = cs_kicklen cfg, sv_namelen = cs_namelen cfg, sv_nicklen = cs_nicklen cfg,
      sv_topiclen = cs_topiclen cfg, sv_userlen = cs_userlen cfg,
      sv_login_timeout = cs_login_timeout cfg, sv_rehash_notified = 0, sv_sent = []\<rparr>"

definition server_rehash :: "state_config \<Rightarrow> server \<Rightarrow> server" where
  "server_rehash cfg sv =
     sv\<lparr>sv_domain := cs_domain cfg, sv_org_name := cs_org_name cfg,
        sv_org_location := cs_org_location cfg, sv_org_mail := cs_org_mail cfg,
        sv_motd := (if cs_motd_file cfg = [] then None else Some (cs_motd_file cfg)),
        sv_password := cs_password cfg, sv_default_chan_mode := cs_default_chan_mode cfg,
        sv_opers := cs_opers cfg, sv_awaylen := cs_awaylen cfg, sv_channellen := cs_channellen cfg,
        sv_keylen := cs_keylen cfg, sv_kicklen := cs_kicklen cfg, sv_namelen := cs_namelen cfg,
        sv_topiclen := cs_topiclen cfg, sv_userlen := cs_userlen cfg,
        sv_login_timeout := cs_login_timeout cfg\<rparr>"

section \<open>Sending\<close>

definition send :: "nat \<Rightarrow> client \<Rightarrow> queue_item \<Rightarrow> server \<Rightarrow> server" where
  "send i c item sv = sv\<lparr>sv_sent := sv_sent sv @ [(i, client_send c item)]\<rparr>"

text \<open>The recurring loop \<open>for member in ids { clients[member].send(..) }\<close>, which panics on an
  identifier that is not in the slab; \<open>item\<close> tells what a member gets, if anything.\<close>

fun send_each :: "(nat \<Rightarrow> client \<Rightarrow> queue_item option) \<Rightarrow> nat list \<Rightarrow> server \<Rightarrow> server option" where
  "send_each item [] sv = Some sv"
| "send_each item (m # ms) sv =
     (case iget m (sv_clients sv) of
        None \<Rightarrow> None
      | Some c \<Rightarrow>
          send_each item ms (case item m c of None \<Rightarrow> sv | Some it \<Rightarrow> send m c it sv))"

definition others :: "nat \<Rightarrow> channel \<Rightarrow> nat list" where
  "others i ch = filter (\<lambda>m. m \<noteq> i) (tkeys (ch_members ch))"

definition noticed :: "nat \<Rightarrow> server \<Rightarrow> nat list" where
  "noticed issuer sv =
     remdups (concat (map (\<lambda>e. tkeys (ch_members (snd e)))
       (filter (\<lambda>e. ihas issuer (ch_members (snd e))) (sv_channels sv))))"

fun send_noticed ::
  "nat \<Rightarrow> queue_item \<Rightarrow> (nat \<Rightarrow> client \<Rightarrow> bool) \<Rightarrow> nat list \<Rightarrow> server \<Rightarrow> server" where
  "send_noticed issuer msg flt [] sv = sv"
| "send_noticed issuer msg flt (target # ts) sv =
     send_noticed issuer msg flt ts
       (case iget target (sv_clients sv) of
          None \<Rightarrow> sv
        | Some c \<Rightarrow> if issuer = target \<or> \<not> flt target c then sv else send target c msg sv)"

definition send_notification ::
  "nat \<Rightarrow> queue_item \<Rightarrow> (nat \<Rightarrow> client \<Rightarrow> bool) \<Rightarrow> server \<Rightarrow> server" where
  "send_notification issuer msg flt sv = send_noticed issuer msg flt (noticed issuer sv) sv"

section \<open>Clients come and go\<close>

text \<open>\<open>fresh\<close> is the key the slab picks; the slab promises that it is not in use.\<close>

definition peer_joined :: "env \<Rightarrow> nat \<Rightarrow> socket_addr \<Rightarrow> server \<Rightarrow> server" where
  "peer_joined env fresh addr sv =
     sv\<lparr>sv_clients := iput fresh (client_new (env_now env) (sv_domain sv) (sa_ip addr)) (sv_clients sv)\<rparr>"

text \<open>\<open>channels.retain(..)\<close> of \<open>remove_client\<close>.\<close>

definition retain_without :: "nat \<Rightarrow> channel utable \<Rightarrow> channel utable" where
  "retain_without i chans =
     filter (\<lambda>e. ch_members (snd e) \<noteq> [])
       (map (\<lambda>e. (fst e, (snd e)\<lparr>ch_members := idel i (ch_members (snd e))\<rparr>)) chans)"

definition remove_client :: "nat \<Rightarrow> string \<Rightarrow> string \<Rightarrow> server \<Rightarrow> server" where
  "remove_client i msg_to_client msg_to_others sv =
     (case iget i (sv_clients sv) of
        None \<Rightarrow> sv
      | Some client \<Rightarrow>
          (let sv = sv\<lparr>sv_clients := idel i (sv_clients sv),
                       sv_nicks := udel (cl_nick client) (sv_nicks sv)\<rparr>;
               sv = (if client_is_registered client then
                       (let quit_notice = queue_item_from (buffer_message (cl_full_name client)
                              Cmd_Quit [FmtTrailingParam msg_to_others] []);
                            sv = send i client quit_notice sv;
                            sv = send_notification i quit_notice (\<lambda>_ _. True) sv
                        in sv\<lparr>sv_channels := retain_without i (sv_channels sv)\<rparr>)
                     else sv);
               error = queue_item_from (buffer_message [] (Reply ''ERROR'')
                         [FmtTrailingParam msg_to_client] [])
           in send i client error sv))"

definition peer_quit :: "nat \<Rightarrow> string option \<Rightarrow> server \<Rightarrow> server" where
  "peer_quit i err sv =
     (case err of
        Some e \<Rightarrow> remove_client i e e sv
      | None \<Rightarrow> remove_client i lines_CLOSING_LINK lines_CONNECTION_RESET sv)"

definition remove_if_unregistered :: "nat \<Rightarrow> server \<Rightarrow> server" where
  "remove_if_unregistered i sv =
     (case iget i (sv_clients sv) of
        Some client \<Rightarrow>
          if \<not> client_is_registered client then remove_client i lines_REGISTRATION_TIMEOUT [] sv
          else sv
      | None \<Rightarrow> sv)"

section \<open>Lookups that answer with an error\<close>

definition reply_no_such_channel :: "string \<Rightarrow> reply_buffer \<Rightarrow> reply_buffer" where
  "reply_no_such_channel name rb =
     rb_reply (Reply rpl_ERR_NOSUCHCHANNEL) [Param name, TrailingParam lines_NO_SUCH_CHANNEL] rb"

definition find_channel :: "string \<Rightarrow> server \<Rightarrow> reply_buffer \<Rightarrow> reply_buffer + channel" where
  "find_channel name sv rb =
     (case uget name (sv_channels sv) of
        Some channel \<Rightarrow> Inr channel
      | None \<Rightarrow> Inl (reply_no_such_channel name rb))"

definition find_member :: "nat \<Rightarrow> channel \<Rightarrow> string \<Rightarrow> reply_buffer \<Rightarrow> reply_buffer + member_modes" where
  "find_member i channel name rb =
     (case iget i (ch_members channel) of
        Some modes \<Rightarrow> Inr modes
      | None \<Rightarrow> Inl (rb_reply (Reply rpl_ERR_NOTONCHANNEL)
                   [Param name, TrailingParam lines_NOT_ON_CHANNEL] rb))"

text \<open>\<open>find_nick\<close> indexes the slab with the identifier it finds.\<close>

definition find_nick :: "string \<Rightarrow> server \<Rightarrow> reply_buffer \<Rightarrow> (reply_buffer + nat \<times> client) option" where
  "find_nick nick sv rb =
     (let err = Inl (rb_reply (Reply rpl_ERR_NOSUCHNICK)
                   [Param nick, TrailingParam lines_NO_SUCH_NICK] rb)
      in case uget nick (sv_nicks sv) of
           None \<Rightarrow> Some err
         | Some i \<Rightarrow>
             (case iget i (sv_clients sv) of
                None \<Rightarrow> None
              | Some c \<Rightarrow> Some (if client_is_registered c then Inr (i, c) else err)))"

section \<open>Replies several handlers share\<close>

definition send_i_support :: "server \<Rightarrow> reply_buffer \<Rightarrow> reply_buffer" where
  "send_i_support sv rb =
     (let rb = rb_reply (Reply rpl_ISUPPORT)
            [Param ''CASEMAPPING=ascii'', Param ''CHANLIMIT=#&:'', Param ''CHANTYPES=#&'',
             Param CHANMODES, Param ''EXCEPTS'', Param ''HOSTLEN=39'', Param ''INVEX'',
             Param ''MODES'', Param ''PREFIX=(qaohv)~&@%+'', Param ''SAFELIST'',
             Param ''TARGMAX=JOIN:,KICK:,LIST:,NAMES:,NOTICE:1,PART:,PRIVMSG:1,WHOIS:1'',
             FmtParam (''AWAYLEN='' @ show_nat (sv_awaylen sv)),
             FmtParam (''CHANNELLEN='' @ show_nat (sv_channellen sv)),
             TrailingParam lines_I_SUPPORT] rb
      in rb_reply (Reply rpl_ISUPPORT)
            [FmtParam (''KEYLEN='' @ show_nat (sv_keylen sv)),
             FmtParam (''KICKLEN='' @ show_nat (sv_kicklen sv)),
             FmtParam (''NAMELEN='' @ show_nat (sv_namelen sv)),
             FmtParam (''NICKLEN='' @ show_nat (sv_nicklen sv)),
             FmtParam (''TOPICLEN='' @ show_nat (sv_topiclen sv)),
             TrailingParam lines_I_SUPPORT] rb)"

definition send_lusers :: "nat \<Rightarrow> server \<Rightarrow> reply_buffer \<Rightarrow> reply_buffer" where
  "send_lusers i sv rb =
     (let n = show_nat (length (sv_clients sv));
          rb = rb_reply (Reply rpl_LUSERCLIENT) [FmtTrailingParam (lines_luser_client n)] rb;
          registered = filter (client_is_registered \<circ> snd) (sv_clients sv);
          op = length (filter (cl_operator \<circ> snd) registered);
          unknown = length (sv_clients sv) - length registered;
          rb = (if 0 < op then rb_reply (Reply rpl_LUSEROP)
                  [FmtParam (show_nat op), TrailingParam lines_LUSER_OP] rb else rb);
          rb = (if 0 < unknown then rb_reply (Reply rpl_LUSERUNKNOWN)
                  [FmtParam (show_nat unknown), TrailingParam lines_LUSER_UNKNOWN] rb else rb);
          channels = length (filter (\<lambda>c. \<not> ch_secret c \<or> ihas i (ch_members c))
                       (map snd (sv_channels sv)));
          rb = (if 0 < channels then rb_reply (Reply rpl_LUSERCHANNELS)
                  [FmtParam (show_nat channels), TrailingParam lines_LUSER_CHANNELS] rb else rb)
      in rb_reply (Reply rpl_LUSERME) [FmtTrailingParam (lines_luser_me n)] rb)"

definition send_motd :: "server \<Rightarrow> reply_buffer \<Rightarrow> reply_buffer" where
  "send_motd sv rb =
     (case sv_motd sv of
        Some motd \<Rightarrow>
          (let rb = rb_reply (Reply rpl_MOTDSTART) [FmtTrailingParam (lines_motd_start (sv_domain sv))] rb;
               rb = fold (\<lambda>line. rb_reply (Reply rpl_MOTD) [FmtTrailingParam (''- '' @ line)])
                      (str_lines motd) rb
           in rb_reply (Reply rpl_ENDOFMOTD) [TrailingParam lines_END_OF_MOTD] rb)
      | None \<Rightarrow> rb_reply (Reply rpl_ERR_NOMOTD) [TrailingParam lines_NO_MOTD] rb)"

text \<open>The text \<open>send_names\<close> pushes for the members, each followed by a space.\<close>

fun names_text :: "capabilities \<Rightarrow> client itable \<Rightarrow> member_modes itable \<Rightarrow> string option" where
  "names_text caps clients [] = Some []"
| "names_text caps clients ((member, modes) # ms) =
     (case iget member clients of
        None \<Rightarrow> None
      | Some c \<Rightarrow>
          (case names_text caps clients ms of
             None \<Rightarrow> None
           | Some rest \<Rightarrow>
               Some ((if caps MULTI_PREFIX then all_symbols modes []
                      else (case member_symbol modes of Some s \<Rightarrow> [s] | None \<Rightarrow> []))
                     @ (if caps USERHOST_IN_NAMES then cl_full_name c else cl_nick c)
                     @ '' '' @ rest)))"

definition send_names :: "nat \<Rightarrow> string \<Rightarrow> server \<Rightarrow> reply_buffer \<Rightarrow> reply_buffer option" where
  "send_names i name sv rb =
     (case uget name (sv_channels sv) of
        None \<Rightarrow> Some rb
      | Some channel \<Rightarrow>
          if ch_secret channel \<and> \<not> ihas i (ch_members channel) then Some rb
          else
            do {
              rb \<leftarrow> (if ch_members channel \<noteq> [] then
                       do {
                         c \<leftarrow> iget i (sv_clients sv);
                         text \<leftarrow> names_text (cl_cap_enabled c) (sv_clients sv) (ch_members channel);
                         Some (rb_reply (Reply rpl_NAMREPLY)
                           [Param (channel_symbol channel), Param name,
                            RawTrailingParam (butlast text)] rb)
                       }
                     else Some rb);
              Some (rb_reply (Reply rpl_ENDOFNAMES) [Param name, TrailingParam lines_END_OF_NAMES] rb)
            })"

definition send_topic :: "string \<Rightarrow> bool \<Rightarrow> server \<Rightarrow> reply_buffer \<Rightarrow> reply_buffer option" where
  "send_topic name send_error sv rb =
     do {
       channel \<leftarrow> uget name (sv_channels sv);
       Some (case ch_topic channel of
               Some t \<Rightarrow>
                 rb_reply (Reply rpl_TOPICWHOTIME)
                   [Param name, Param (tp_who t), FmtParam (show_nat (unat (tp_time t)))]
                   (rb_reply (Reply rpl_TOPIC) [Param name, TrailingParam (tp_content t)] rb)
             | None \<Rightarrow>
                 if send_error
                 then rb_reply (Reply rpl_NOTOPIC) [Param name, TrailingParam lines_NO_TOPIC] rb
                 else rb)
     }"

definition send_welcome :: "nat \<Rightarrow> server \<Rightarrow> reply_buffer \<Rightarrow> reply_buffer option" where
  "send_welcome i sv rb =
     do {
       client \<leftarrow> iget i (sv_clients sv);
       let rb = rb_lr_batch_begin rb;
       let rb = rb_reply (Reply rpl_WELCOME) [FmtTrailingParam (lines_welcome (cl_nick client))] rb;
       let rb = rb_reply (Reply rpl_YOURHOST)
             [FmtTrailingParam (lines_your_host (sv_domain sv) SERVER_VERSION)] rb;
       let rb = rb_reply (Reply rpl_CREATED) [FmtTrailingParam (lines_created (sv_created_at sv))] rb;
       let rb = rb_reply (Reply rpl_MYINFO)
             [Param (sv_domain sv), Param SERVER_VERSION, Param USER_MODES, Param SIMPLE_CHAN_MODES,
              Param EXTENDED_CHAN_MODES] rb;
       Some (send_motd sv (send_lusers i sv (send_i_support sv rb)))
     }"

end
