(* ===== verification/V1Queries.thy ===== *)
theory V1Queries
  imports ServerState
begin

text \<open>
  The handlers of \<open>src/state/v1.rs\<close> and \<open>src/state/v3.rs\<close> that only answer the client.  A handler
  gets the identifier of the client, its arguments, the state and the reply buffer, and returns its
  result with both; \<^const>\<open>None\<close> is a panic.
\<close>

type_synonym handled = "(handler_result \<times> server \<times> reply_buffer) option"

section \<open>About the server\<close>

definition cmd_admin :: "server \<Rightarrow> reply_buffer \<Rightarrow> handled" where
  "cmd_admin sv rb =
     (let rb = rb_lr_batch_begin rb;
          rb = rb_reply (Reply rpl_ADMINME) [Param (sv_domain sv), TrailingParam lines_ADMIN_ME] rb;
          rb = rb_reply (Reply rpl_ADMINLOC1) [TrailingParam (sv_org_location sv)] rb;
          rb = rb_reply (Reply rpl_ADMINLOC2) [TrailingParam (sv_org_name sv)] rb;
          rb = rb_reply (Reply rpl_ADMINMAIL) [TrailingParam (sv_org_mail sv)] rb
      in Some (HOk, sv, rb))"

definition cmd_info :: "server \<Rightarrow> reply_buffer \<Rightarrow> handled" where
  "cmd_info sv rb =
     (let rb = rb_lr_batch_begin rb;
          rb = fold (\<lambda>line. rb_reply (Reply rpl_INFO) [TrailingParam line]) SERVER_INFO_LINES rb;
          rb = rb_reply (Reply rpl_ENDOFINFO) [TrailingParam lines_END_OF_INFO] rb
      in Some (HOk, sv, rb))"

definition cmd_lusers :: "nat \<Rightarrow> server \<Rightarrow> reply_buffer \<Rightarrow> handled" where
  "cmd_lusers i sv rb = Some (HOk, sv, send_lusers i sv (rb_lr_batch_begin rb))"

definition cmd_motd :: "server \<Rightarrow> reply_buffer \<Rightarrow> handled" where
  "cmd_motd sv rb = Some (HOk, sv, send_motd sv (rb_lr_batch_begin rb))"

definition cmd_time :: "env \<Rightarrow> server \<Rightarrow> reply_buffer \<Rightarrow> handled" where
  "cmd_time env sv rb =
     Some (HOk, sv, rb_reply (Reply rpl_TIME) [Param (sv_domain sv), TrailingParam (env_time_str env)] rb)"

definition cmd_version :: "server \<Rightarrow> reply_buffer \<Rightarrow> handled" where
  "cmd_version sv rb =
     (let rb = rb_lr_batch_begin rb;
          rb = rb_reply (Reply rpl_VERSION) [Param SERVER_VERSION, Param (sv_domain sv)] rb
      in Some (HOk, sv, send_i_support sv rb))"

definition cmd_ping :: "string \<Rightarrow> server \<Rightarrow> reply_buffer \<Rightarrow> handled" where
  "cmd_ping payload sv rb = Some (HOk, sv, rb_prefixed_message Cmd_Pong [TrailingParam payload] rb)"

definition cmd_pong :: "server \<Rightarrow> reply_buffer \<Rightarrow> handled" where
  "cmd_pong sv rb = Some (HOk, sv, rb)"

section \<open>Lists of channels and members\<close>

definition list_line :: "string \<Rightarrow> channel \<Rightarrow> reply_buffer \<Rightarrow> reply_buffer" where
  "list_line name channel rb = rb_reply (Reply rpl_LIST) (Param name # list_entry channel) rb"

text \<open>The condition of the \<open>continue\<close>.\<close>

definition list_hidden :: "nat \<Rightarrow> client \<Rightarrow> channel \<Rightarrow> bool" where
  "list_hidden i client channel \<longleftrightarrow>
     ch_secret channel \<and> \<not> cl_operator client \<and> \<not> ihas i (ch_members channel)"

definition cmd_list_all :: "nat \<Rightarrow> server \<Rightarrow> reply_buffer \<Rightarrow> handled" where
  "cmd_list_all i sv rb =
     do {
       client \<leftarrow> iget i (sv_clients sv);
       let rb = rb_lr_batch_begin rb;
       let rb = fold (\<lambda>e rb. if list_hidden i client (snd e) then rb else list_line (fst e) (snd e) rb)
                  (sv_channels sv) rb;
       Some (HOk, sv, rb_reply (Reply rpl_LISTEND) [TrailingParam lines_END_OF_LIST] rb)
     }"

definition cmd_list :: "nat \<Rightarrow> string \<Rightarrow> server \<Rightarrow> reply_buffer \<Rightarrow> handled" where
  "cmd_list i targets sv rb =
     do {
       client \<leftarrow> iget i (sv_clients sv);
       let rb = rb_lr_batch_begin rb;
       let rb = fold (\<lambda>name rb.
                  case uget name (sv_channels sv) of
                    None \<Rightarrow> rb
                  | Some channel \<Rightarrow> if list_hidden i client channel then rb else list_line name channel rb)
                  (channel_names targets) rb;
       Some (HOk, sv, rb_reply (Reply rpl_LISTEND) [TrailingParam lines_END_OF_LIST] rb)
     }"

definition cmd_names_all :: "server \<Rightarrow> reply_buffer \<Rightarrow> handled" where
  "cmd_names_all sv rb =
     Some (HOk, sv, rb_reply (Reply rpl_ENDOFNAMES) [Param ''*'', TrailingParam lines_END_OF_NAMES] rb)"

fun names_loop :: "nat \<Rightarrow> string list \<Rightarrow> server \<Rightarrow> reply_buffer \<Rightarrow> reply_buffer option" where
  "names_loop i [] sv rb = Some rb"
| "names_loop i (target # ts) sv rb =
     (case send_names i target sv rb of None \<Rightarrow> None | Some rb \<Rightarrow> names_loop i ts sv rb)"

definition cmd_names :: "nat \<Rightarrow> string \<Rightarrow> server \<Rightarrow> reply_buffer \<Rightarrow> handled" where
  "cmd_names i targets sv rb =
     do {
       rb \<leftarrow> names_loop i (channel_names targets) sv (rb_lr_batch_begin rb);
       Some (HOk, sv, rb)
     }"

section \<open>Modes and topics\<close>

definition cmd_mode_channel_get :: "nat \<Rightarrow> string \<Rightarrow> server \<Rightarrow> reply_buffer \<Rightarrow> handled" where
  "cmd_mode_channel_get i name sv rb =
     (case find_channel name sv rb of
        Inl rb \<Rightarrow> Some (HErr, sv, rb)
      | Inr channel \<Rightarrow>
          do {
            full_info \<leftarrow> (if ihas i (ch_members channel) then Some True
                          else map_option cl_operator (iget i (sv_clients sv)));
            Some (HOk, sv, rb_reply (Reply rpl_CHANNELMODEIS)
                    (Param name # channel_modes channel full_info) rb)
          })"

definition users_dont_match :: "string \<Rightarrow> reply_buffer \<Rightarrow> reply_buffer" where
  "users_dont_match nick rb =
     rb_reply (Reply rpl_ERR_USERSDONTMATCH) [Param nick, TrailingParam lines_USERS_DONT_MATCH] rb"

definition cmd_mode_user_get :: "nat \<Rightarrow> string \<Rightarrow> server \<Rightarrow> reply_buffer \<Rightarrow> handled" where
  "cmd_mode_user_get i nick sv rb =
     do {
       client \<leftarrow> iget i (sv_clients sv);
       Some (if \<not> unicase_eq Ascii (cl_nick client) nick then (HErr, sv, users_dont_match nick rb)
             else (HOk, sv, rb_reply (Reply rpl_UMODEIS) (write_modes client) rb))
     }"

definition cmd_topic_get :: "nat \<Rightarrow> string \<Rightarrow> server \<Rightarrow> reply_buffer \<Rightarrow> handled" where
  "cmd_topic_get i name sv rb =
     (case find_channel name sv rb of
        Inl rb \<Rightarrow> Some (HErr, sv, rb)
      | Inr channel \<Rightarrow>
          (case (if ch_secret channel then find_member i channel name rb else Inr member_modes_default) of
             Inl rb \<Rightarrow> Some (HErr, sv, rb)
           | Inr _ \<Rightarrow> do { rb \<leftarrow> send_topic name True sv rb; Some (HOk, sv, rb) }))"

section \<open>WHO and WHOIS\<close>

definition who_line ::
  "server \<Rightarrow> client \<Rightarrow> client \<Rightarrow> string \<Rightarrow> member_modes \<Rightarrow> reply_buffer \<Rightarrow> reply_buffer" where
  "who_line sv issuer target channel modes rb =
     rb_reply (Reply rpl_WHOREPLY)
       [Param channel, Param (cl_user target), Param (cl_host target), Param (sv_domain sv),
        Param (cl_nick target),
        RawParam ((if cl_away_message target \<noteq> None then ''G'' else ''H'')
          @ (if cl_cap_enabled issuer MULTI_PREFIX then all_symbols modes []
             else (case member_symbol modes of Some s \<Rightarrow> [s] | None \<Rightarrow> []))),
        FmtTrailingParam (''0 '' @ cl_real target)] rb"

text \<open>The loop of \<open>who_user\<close> that looks for a channel to display.\<close>

fun who_find_channel ::
  "nat \<Rightarrow> client \<Rightarrow> nat \<Rightarrow> client \<Rightarrow> channel utable \<Rightarrow> (string \<times> member_modes) option" where
  "who_find_channel issuer_id issuer target_id target [] = None"
| "who_find_channel issuer_id issuer target_id target ((name, channel) # cs) =
     (case iget target_id (ch_members channel) of
        None \<Rightarrow> who_find_channel issuer_id issuer target_id target cs
      | Some this_member \<Rightarrow>
          if \<not> cl_operator issuer \<and> (cl_invisible target \<or> ch_secret channel)
             \<and> \<not> ihas issuer_id (ch_members channel)
          then who_find_channel issuer_id issuer target_id target cs
          else Some (name, this_member))"

definition who_user ::
  "nat \<Rightarrow> client \<Rightarrow> nat \<Rightarrow> who_filter \<Rightarrow> server \<Rightarrow> reply_buffer \<Rightarrow> reply_buffer option" where
  "who_user issuer_id issuer target_id flt sv rb =
     do {
       target \<leftarrow> iget target_id (sv_clients sv);
       Some (if (wf_operator flt \<and> \<not> cl_operator target) \<or> \<not> client_is_registered target then rb
             else
               (let found = who_find_channel issuer_id issuer target_id target (sv_channels sv)
                in if \<not> cl_invisible target \<or> target_id = issuer_id \<or> found \<noteq> None \<or> cl_operator issuer
                   then (case found of
                           Some (name, modes) \<Rightarrow> who_line sv issuer target name modes rb
                         | None \<Rightarrow> who_line sv issuer target ''*'' member_modes_default rb)
                   else rb))
     }"

fun who_users ::
  "nat \<Rightarrow> client \<Rightarrow> nat list \<Rightarrow> who_filter \<Rightarrow> server \<Rightarrow> reply_buffer \<Rightarrow> reply_buffer option" where
  "who_users issuer_id issuer [] flt sv rb = Some rb"
| "who_users issuer_id issuer (t # ts) flt sv rb =
     (case who_user issuer_id issuer t flt sv rb of
        None \<Rightarrow> None
      | Some rb \<Rightarrow> who_users issuer_id issuer ts flt sv rb)"

definition end_of_who :: "string \<Rightarrow> reply_buffer \<Rightarrow> reply_buffer" where
  "end_of_who name rb = rb_reply (Reply rpl_ENDOFWHO) [Param name, TrailingParam lines_END_OF_WHO] rb"

definition cmd_who_all :: "nat \<Rightarrow> who_filter \<Rightarrow> server \<Rightarrow> reply_buffer \<Rightarrow> handled" where
  "cmd_who_all i flt sv rb =
     do {
       issuer \<leftarrow> iget i (sv_clients sv);
       (if \<not> cl_operator issuer then Some (HErr, sv, end_of_who ''*'' rb)
        else
          do {
            rb \<leftarrow> who_users i issuer (map snd (sv_nicks sv)) flt sv (rb_lr_batch_begin rb);
            Some (HOk, sv, end_of_who ''*'' rb)
          })
     }"

text \<open>The loop over the members of a channel; \<open>skip\<close> is the condition of the \<open>continue\<close>.\<close>

fun who_members ::
  "client \<Rightarrow> string \<Rightarrow> (nat \<Rightarrow> client \<Rightarrow> bool) \<Rightarrow> member_modes itable \<Rightarrow> server \<Rightarrow> reply_buffer
   \<Rightarrow> reply_buffer option" where
  "who_members issuer name skip [] sv rb = Some rb"
| "who_members issuer name skip ((member, modes) # ms) sv rb =
     (case iget member (sv_clients sv) of
        None \<Rightarrow> None
      | Some target \<Rightarrow>
          who_members issuer name skip ms sv
            (if skip member target then rb else who_line sv issuer target name modes rb))"

definition cmd_who_channel :: "nat \<Rightarrow> string \<Rightarrow> who_filter \<Rightarrow> server \<Rightarrow> reply_buffer \<Rightarrow> handled" where
  "cmd_who_channel i name flt sv rb =
     do {
       rb \<leftarrow> (case uget name (sv_channels sv) of
                None \<Rightarrow> Some rb
              | Some channel \<Rightarrow>
                  do {
                    let rb = rb_lr_batch_begin rb;
                    issuer \<leftarrow> iget i (sv_clients sv);
                    let in_channel = ihas i (ch_members channel);
                    (if ch_secret channel \<and> \<not> in_channel \<and> \<not> cl_operator issuer then Some rb
                     else who_members issuer name
                            (\<lambda>member target. (wf_operator flt \<and> \<not> cl_operator target)
                               \<or> (\<not> cl_operator issuer \<and> cl_invisible target \<and> \<not> in_channel \<and> member \<noteq> i))
                            (ch_members channel) sv rb)
                  });
       Some (HOk, sv, end_of_who name rb)
     }"

fun who_mask_channels :: "client \<Rightarrow> string \<Rightarrow> channel utable \<Rightarrow> server \<Rightarrow> reply_buffer \<Rightarrow> reply_buffer option" where
  "who_mask_channels issuer msk [] sv rb = Some rb"
| "who_mask_channels issuer msk ((name, channel) # cs) sv rb =
     (case match_mask msk name of
        None \<Rightarrow> None
      | Some m \<Rightarrow>
          (case (if m then who_members issuer name (\<lambda>_ _. False) (ch_members channel) sv rb else Some rb) of
             None \<Rightarrow> None
           | Some rb \<Rightarrow> who_mask_channels issuer msk cs sv rb))"

fun who_mask_nicks ::
  "nat \<Rightarrow> client \<Rightarrow> string \<Rightarrow> nat utable \<Rightarrow> who_filter \<Rightarrow> server \<Rightarrow> reply_buffer \<Rightarrow> reply_buffer option" where
  "who_mask_nicks i issuer msk [] flt sv rb = Some rb"
| "who_mask_nicks i issuer msk ((nick, t) # ns) flt sv rb =
     (case match_mask msk nick of
        None \<Rightarrow> None
      | Some m \<Rightarrow>
          (case (if m then who_user i issuer t flt sv rb else Some rb) of
             None \<Rightarrow> None
           | Some rb \<Rightarrow> who_mask_nicks i issuer msk ns flt sv rb))"

definition cmd_who_mask :: "nat \<Rightarrow> string \<Rightarrow> who_filter \<Rightarrow> server \<Rightarrow> reply_buffer \<Rightarrow> handled" where
  "cmd_who_mask i msk flt sv rb =
     do {
       issuer \<leftarrow> iget i (sv_clients sv);
       (if \<not> cl_operator issuer then Some (HErr, sv, end_of_who msk rb)
        else
          do {
            let rb = rb_lr_batch_begin rb;
            is_channel \<leftarrow> mask_is_channel msk;
            rb \<leftarrow> (if is_channel then who_mask_channels issuer msk (sv_channels sv) sv rb
                   else who_mask_nicks i issuer msk (sv_nicks sv) flt sv rb);
            Some (HOk, sv, end_of_who msk rb)
          })
     }"

definition cmd_who_user :: "nat \<Rightarrow> string \<Rightarrow> who_filter \<Rightarrow> server \<Rightarrow> reply_buffer \<Rightarrow> handled" where
  "cmd_who_user i nick flt sv rb =
     do {
       rb \<leftarrow> (case uget nick (sv_nicks sv) of
                None \<Rightarrow> Some rb
              | Some target_id \<Rightarrow>
                  do {
                    let rb = rb_lr_batch_begin rb;
                    issuer \<leftarrow> iget i (sv_clients sv);
                    who_user i issuer target_id flt sv rb
                  });
       Some (HOk, sv, end_of_who nick rb)
     }"

definition cmd_whois :: "env \<Rightarrow> string \<Rightarrow> server \<Rightarrow> reply_buffer \<Rightarrow> handled" where
  "cmd_whois env nick sv rb =
     do {
       found \<leftarrow> find_nick nick sv rb;
       (case found of
          Inl rb \<Rightarrow> Some (HErr, sv, rb)
        | Inr (_, t) \<Rightarrow>
            do {
              let rb = rb_lr_batch_begin rb;
              let rb = rb_reply (Reply rpl_WHOISUSER)
                   [Param (cl_nick t), Param (cl_user t), Param (cl_host t), Param ''*'',
                    TrailingParam (cl_real t)] rb;
              let rb = rb_reply (Reply rpl_WHOISSERVER)
                   [Param (cl_nick t), Param (sv_domain sv), TrailingParam (sv_org_name sv)] rb;
              idle \<leftarrow> idle_time (env_now env) t;
              let rb = rb_reply (Reply rpl_WHOISIDLE)
                   [Param (cl_nick t), FmtParam (show_nat (unat idle)),
                    FmtParam (show_nat (unat (cl_signon_time t))), TrailingParam lines_WHOIS_IDLE] rb;
              let rb = (case cl_away_message t of
                         Some away_msg \<Rightarrow>
                           rb_reply (Reply rpl_AWAY) [Param (cl_nick t), TrailingParam away_msg] rb
                       | None \<Rightarrow> rb);
              Some (HOk, sv, rb_reply (Reply rpl_ENDOFWHOIS)
                  [Param (cl_nick t), TrailingParam lines_END_OF_WHOIS] rb)
            })
     }"

section \<open>Capabilities\<close>

definition cmd_cap_list :: "nat \<Rightarrow> server \<Rightarrow> reply_buffer \<Rightarrow> handled" where
  "cmd_cap_list i sv rb =
     do {
       client \<leftarrow> iget i (sv_clients sv);
       Some (HOk, sv, rb_reply Cmd_Cap
         [Param ''LIST'', RawTrailingParam (capabilities_write (cl_cap_enabled client) [])] rb)
     }"

definition cmd_cap_end :: "server \<Rightarrow> reply_buffer \<Rightarrow> handled" where
  "cmd_cap_end sv rb = Some (HOk, sv, rb)"

text \<open>Two handlers are \<open>todo!()\<close>: they panic.\<close>

definition cmd_authenticate :: "payload \<Rightarrow> server \<Rightarrow> reply_buffer \<Rightarrow> handled" where
  "cmd_authenticate payload sv rb = None"

definition cmd_message_all :: "bool \<Rightarrow> command \<Rightarrow> string option \<Rightarrow> server \<Rightarrow> reply_buffer \<Rightarrow> handled" where
  "cmd_message_all feedback command content sv rb = None"

end
