(* ===== verification/V1Users.thy ===== *)
theory V1Users
  imports V1Queries
begin

text \<open>
  The handlers of \<open>src/state/v1.rs\<close> and \<open>src/state/v3.rs\<close> that change a client: registration,
  nicknames, away messages, user modes, operators, and leaving.
\<close>

section \<open>Registration\<close>

definition cmd_pass :: "nat \<Rightarrow> string \<Rightarrow> server \<Rightarrow> reply_buffer \<Rightarrow> handled" where
  "cmd_pass i password sv rb =
     (if sv_password sv = password then
        do {
          _ \<leftarrow> iget i (sv_clients sv);
          Some (HOk, sv\<lparr>sv_clients := iupd i (\<lambda>c. c\<lparr>cl_has_given_password := True\<rparr>) (sv_clients sv)\<rparr>, rb)
        }
      else Some (HOk, sv, rb))"

definition cmd_user :: "nat \<Rightarrow> string \<Rightarrow> string \<Rightarrow> server \<Rightarrow> reply_buffer \<Rightarrow> handled" where
  "cmd_user i username realname sv rb =
     do {
       client \<leftarrow> iget i (sv_clients sv);
       (if sv_password sv \<noteq> [] \<and> \<not> cl_has_given_password client then
          Some (HErr, remove_client i lines_BAD_PASSWORD [] sv,
                rb_reply (Reply rpl_ERR_PASSWDMISMATCH) [TrailingParam lines_PASSWORD_MISMATCH] rb)
        else
          do {
            user \<leftarrow> str_trunc username (sv_userlen sv);
            real \<leftarrow> str_trunc realname (sv_namelen sv);
            Some (HOk, sv\<lparr>sv_clients := iupd i (set_real real \<circ> set_user user) (sv_clients sv)\<rparr>, rb)
          })
     }"

text \<open>The second part of \<open>cmd_nick\<close>, after the checks.\<close>

definition change_nick :: "nat \<Rightarrow> client \<Rightarrow> string \<Rightarrow> server \<Rightarrow> reply_buffer \<Rightarrow> server \<times> reply_buffer" where
  "change_nick i issuer nick sv rb =
     (let sv = sv\<lparr>sv_nicks := uput nick i (udel (cl_nick issuer) (sv_nicks sv))\<rparr>;
          renamed = sv\<lparr>sv_clients := iupd i (set_nick nick) (sv_clients sv)\<rparr>
      in if \<not> client_is_registered issuer then (renamed, rb_set_nick nick rb)
         else
           (let nick_response = queue_item_from
                  (buffer_message (cl_full_name issuer) Cmd_Nick [Param nick] []);
                rb = rb_message (cl_full_name issuer) Cmd_Nick [Param nick] rb
            in (send_notification i nick_response (\<lambda>_ _. True) renamed, rb_set_nick nick rb)))"

definition cmd_nick :: "nat \<Rightarrow> string \<Rightarrow> server \<Rightarrow> reply_buffer \<Rightarrow> handled" where
  "cmd_nick i nick sv rb =
     do {
       issuer \<leftarrow> iget i (sv_clients sv);
       let changed = (let (sv, rb) = change_nick i issuer nick sv rb in (HOk, sv, rb));
       Some (case uget nick (sv_nicks sv) of
               Some j \<Rightarrow>
                 if j \<noteq> i then
                   (HErr, sv, rb_reply (Reply rpl_ERR_NICKNAMEINUSE)
                      [Param nick, TrailingParam lines_NICKNAME_IN_USE] rb)
                 else if cl_nick issuer = nick then (HOk, sv, rb)
                 else changed
             | None \<Rightarrow> changed)
     }"

definition cmd_cap_ls :: "nat \<Rightarrow> version \<Rightarrow> server \<Rightarrow> reply_buffer \<Rightarrow> handled" where
  "cmd_cap_ls i version sv rb =
     do {
       _ \<leftarrow> iget i (sv_clients sv);
       let sv = sv\<lparr>sv_clients := iupd i
                  (\<lambda>c. if cl_cap_version c = V300 \<and> version = V302 then c\<lparr>cl_cap_version := version\<rparr> else c)
                  (sv_clients sv)\<rparr>;
       Some (HOk, sv, rb_reply Cmd_Cap [Param ''LS'', RawTrailingParam ls_common] rb)
     }"

definition cmd_cap_req :: "nat \<Rightarrow> cap_diff \<Rightarrow> server \<Rightarrow> reply_buffer \<Rightarrow> handled" where
  "cmd_cap_req i req sv rb =
     do {
       _ \<leftarrow> iget i (sv_clients sv);
       let sv = sv\<lparr>sv_clients := iupd i
                  (\<lambda>c. c\<lparr>cl_cap_enabled := capabilities_update req (cl_cap_enabled c)\<rparr>) (sv_clients sv)\<rparr>;
       Some (HOk, sv, rb_reply Cmd_Cap [Param ''ACK'', RawTrailingParam (cap_diff_write req [])] rb)
     }"

section \<open>Client information\<close>

definition cmd_away :: "nat \<Rightarrow> string option \<Rightarrow> server \<Rightarrow> reply_buffer \<Rightarrow> handled" where
  "cmd_away i reason sv rb =
     do {
       client \<leftarrow> iget i (sv_clients sv);
       (if (cl_away_message client \<noteq> None) = (reason \<noteq> None) then Some (HErr, sv, rb)
        else
          do {
            away \<leftarrow> (case reason of
                       None \<Rightarrow> Some None
                     | Some r \<Rightarrow> map_option Some (str_trunc r (sv_awaylen sv)));
            let sv = sv\<lparr>sv_clients := iupd i (\<lambda>c. c\<lparr>cl_away_message := away\<rparr>) (sv_clients sv)\<rparr>;
            let rb = (if reason \<noteq> None
                      then rb_reply (Reply rpl_NOWAWAY) [TrailingParam lines_NOW_AWAY] rb
                      else rb_reply (Reply rpl_UNAWAY) [TrailingParam lines_UN_AWAY] rb);
            let away_notify = queue_item_from (buffer_message (cl_full_name client) Cmd_Away
                  (case away of Some m \<Rightarrow> [TrailingParam m] | None \<Rightarrow> []) []);
            Some (HOk, send_notification i away_notify (\<lambda>_ c. cl_cap_enabled c AWAY_NOTIFY) sv, rb)
          })
     }"

definition cmd_setname :: "nat \<Rightarrow> string \<Rightarrow> server \<Rightarrow> reply_buffer \<Rightarrow> handled" where
  "cmd_setname i realname sv rb =
     do {
       client \<leftarrow> iget i (sv_clients sv);
       Some (if realname = [] \<or> sv_namelen sv < length realname then
               (HErr, sv, rb_message [] (Reply ''FAIL'')
                  [Param ''SETNAME'', Param ''INVALID_REALNAME'', TrailingParam lines_INVALID_REALNAME] rb)
             else
               (let real_response = queue_item_from
                      (buffer_message (cl_full_name client) Cmd_SetName [Param realname] []);
                    rb = rb_message (cl_full_name client) Cmd_SetName [Param realname] rb;
                    sv = sv\<lparr>sv_clients := iupd i (set_real realname) (sv_clients sv)\<rparr>
                in (HOk, send_notification i real_response (\<lambda>_ c. cl_cap_enabled c SETNAME) sv, rb)))
     }"

text \<open>The loop over the mode changes: the client, the letters applied so far, the replies.\<close>

fun mode_user_loop ::
  "(mode_error + user_change) list \<Rightarrow> client \<Rightarrow> string \<Rightarrow> reply_buffer
   \<Rightarrow> client \<times> string \<times> reply_buffer" where
  "mode_user_loop [] c applied rb = (c, applied, rb)"
| "mode_user_loop (Inr change # rs) c applied rb =
     (let (ok, c) = client_apply_mode_change change c
      in mode_user_loop rs c
           (if ok then applied @ (if user_change_value change then ''+'' else ''-'')
                         @ user_change_symbol change
            else applied) rb)"
| "mode_user_loop (Inl (Unknown mode _) # rs) c applied rb =
     mode_user_loop rs c applied
       (rb_reply (Reply rpl_ERR_UMODEUNKNOWNFLAG) [RawParam mode, TrailingParam lines_UNKNOWN_MODE] rb)"
| "mode_user_loop (Inl _ # rs) c applied rb = mode_user_loop rs c applied rb"

definition cmd_mode_user_set :: "nat \<Rightarrow> string \<Rightarrow> string \<Rightarrow> server \<Rightarrow> reply_buffer \<Rightarrow> handled" where
  "cmd_mode_user_set i user modes sv rb =
     do {
       client \<leftarrow> iget i (sv_clients sv);
       Some (if \<not> unicase_eq Ascii (cl_nick client) user then (HErr, sv, users_dont_match user rb)
             else
               (let (client', applied, rb) = mode_user_loop (user_query modes) client [] rb;
                    sv = sv\<lparr>sv_clients := iupd i (\<lambda>_. client') (sv_clients sv)\<rparr>;
                    rb = (if applied \<noteq> []
                          then rb_message (cl_full_name client') Cmd_Mode [Param user, Param applied] rb
                          else rb)
                in (HOk, sv, rb)))
     }"

section \<open>Operators\<close>

definition cmd_oper :: "nat \<Rightarrow> string \<Rightarrow> string \<Rightarrow> server \<Rightarrow> reply_buffer \<Rightarrow> handled" where
  "cmd_oper i name password sv rb =
     (if \<not> list_ex (\<lambda>o'. op_name o' = name \<and> op_password o' = password) (sv_opers sv) then
        Some (HErr, sv, rb_reply (Reply rpl_ERR_PASSWDMISMATCH) [TrailingParam lines_PASSWORD_MISMATCH] rb)
      else
        do {
          client \<leftarrow> iget i (sv_clients sv);
          let sv = sv\<lparr>sv_clients := iupd i (\<lambda>c. c\<lparr>cl_operator := True\<rparr>) (sv_clients sv)\<rparr>;
          let rb = rb_lr_batch_begin rb;
          let rb = rb_prefixed_message Cmd_Mode [Param (cl_nick client), Param ''+o''] rb;
          Some (HOk, sv, rb_reply (Reply rpl_YOUREOPER) [TrailingParam lines_YOURE_OPER] rb)
        })"

definition no_priviledges :: "reply_buffer \<Rightarrow> reply_buffer" where
  "no_priviledges rb = rb_reply (Reply rpl_ERR_NOPRIVILEDGES) [TrailingParam lines_NO_PRIVILEDGES] rb"

definition cmd_kill :: "nat \<Rightarrow> string \<Rightarrow> string \<Rightarrow> server \<Rightarrow> reply_buffer \<Rightarrow> handled" where
  "cmd_kill i who reason sv rb =
     do {
       client \<leftarrow> iget i (sv_clients sv);
       (if \<not> cl_operator client then Some (HErr, sv, no_priviledges rb)
        else
          do {
            found \<leftarrow> find_nick who sv rb;
            Some (case found of
                    Inl rb \<Rightarrow> (HErr, sv, rb)
                  | Inr (target_id, _) \<Rightarrow>
                      (HOk, remove_client target_id (''Killed: '' @ reason) ''Killed'' sv, rb))
          })
     }"

definition cmd_rehash :: "nat \<Rightarrow> server \<Rightarrow> reply_buffer \<Rightarrow> handled" where
  "cmd_rehash i sv rb =
     do {
       client \<leftarrow> iget i (sv_clients sv);
       Some (if cl_operator client then
               (HOk, sv\<lparr>sv_rehash_notified := sv_rehash_notified sv + 1\<rparr>,
                rb_reply (Reply rpl_REHASHING) [Param ''--'', TrailingParam lines_REHASHING] rb)
             else (HErr, sv, no_priviledges rb))
     }"

definition cmd_quit :: "nat \<Rightarrow> string option \<Rightarrow> server \<Rightarrow> reply_buffer \<Rightarrow> handled" where
  "cmd_quit i reason sv rb = Some (HOk, remove_client i lines_CLOSING_LINK (lines_quit reason) sv, rb)"

end
