(* ===== verification/V1Channels.thy ===== *)
theory V1Channels
  imports V1Queries
begin

text \<open>
  The handlers of \<open>src/state/v1.rs\<close> for channels: joining and leaving, invitations, topics, modes,
  and messages.
\<close>

section \<open>JOIN\<close>

definition check_error :: "string \<Rightarrow> string \<Rightarrow> string \<Rightarrow> reply_buffer \<Rightarrow> reply_buffer" where
  "check_error code name line rb = rb_reply (Reply code) [Param name, TrailingParam line] rb"

text \<open>The result says whether the client may join.\<close>

definition check_join ::
  "nat \<Rightarrow> client \<Rightarrow> channel \<Rightarrow> string \<Rightarrow> string option \<Rightarrow> reply_buffer \<Rightarrow> (bool \<times> reply_buffer) option" where
  "check_join i client channel name key rb =
     (if ihas i (ch_members channel) then Some (False, rb)
      else if ch_key channel \<noteq> key then
        Some (False, check_error rpl_ERR_BADCHANKEY name lines_BAD_CHAN_KEY rb)
      else if (case ch_user_limit channel of
                 None \<Rightarrow> False | Some limit \<Rightarrow> limit \<le> length (ch_members channel)) then
        Some (False, check_error rpl_ERR_CHANNELISFULL name lines_CHANNEL_IS_FULL rb)
      else
        do {
          invited \<leftarrow> is_invited channel i (cl_nick client);
          (if \<not> invited then
             Some (False, check_error rpl_ERR_INVITEONLYCHAN name lines_INVITE_ONLY_CHAN rb)
           else
             do {
               banned \<leftarrow> opt_or (is_banned channel (cl_nick client)) (is_banned channel (cl_full_name client));
               Some (if banned
                     then (False, check_error rpl_ERR_BANNEDFROMCHAN name lines_BANNED_FROM_CHAN rb)
                     else (True, rb))
             })
        })"

definition send_join ::
  "nat \<Rightarrow> string \<Rightarrow> client \<Rightarrow> server \<Rightarrow> reply_buffer \<Rightarrow> (server \<times> reply_buffer) option" where
  "send_join i name client sv rb =
     do {
       let rb = rb_message (cl_full_name client) Cmd_Join [Param name] rb;
       let join = queue_item_from (buffer_message (cl_full_name client) Cmd_Join [Param name] []);
       let extended_join = queue_item_from (buffer_message (cl_full_name client) Cmd_Join
             [Param name, Param (case cl_account client of Some a \<Rightarrow> a | None \<Rightarrow> ''*''),
              TrailingParam (cl_real client)] []);
       channel \<leftarrow> uget name (sv_channels sv);
       sv \<leftarrow> send_each (\<lambda>_ m. Some (if cl_cap_enabled m EXTENDED_JOIN then extended_join else join))
               (others i channel) sv;
       sv \<leftarrow> (case cl_away_message client of
                None \<Rightarrow> Some sv
              | Some away_message \<Rightarrow>
                  (let away_notify = queue_item_from (buffer_message (cl_full_name client) Cmd_Away
                         [TrailingParam away_message] [])
                   in send_each (\<lambda>_ m. if cl_cap_enabled m AWAY_NOTIFY then Some away_notify else None)
                        (others i channel) sv));
       Some (sv, rb)
     }"

text \<open>\<open>channels.entry(name).or_insert_with(..)\<close> followed by \<open>add_member\<close>.\<close>

definition enter_channel :: "nat \<Rightarrow> string \<Rightarrow> server \<Rightarrow> server option" where
  "enter_channel i name sv =
     (case uget name (sv_channels sv) of
        Some _ \<Rightarrow> Some (sv\<lparr>sv_channels := uupd name (add_member i) (sv_channels sv)\<rparr>)
      | None \<Rightarrow>
          do {
            channel \<leftarrow> channel_new (sv_default_chan_mode sv);
            Some (sv\<lparr>sv_channels := uput name (add_member i channel) (sv_channels sv)\<rparr>)
          })"

definition join_one ::
  "nat \<Rightarrow> client \<Rightarrow> string \<Rightarrow> string option \<Rightarrow> server \<Rightarrow> reply_buffer
   \<Rightarrow> (bool \<times> server \<times> reply_buffer) option" where
  "join_one i client name key sv rb =
     do {
       (ok, rb) \<leftarrow> (case uget name (sv_channels sv) of
                      None \<Rightarrow> Some (True, rb)
                    | Some channel \<Rightarrow> check_join i client channel name key rb);
       (if \<not> ok then Some (False, sv, rb)
        else
          do {
            sv \<leftarrow> enter_channel i name sv;
            (sv, rb) \<leftarrow> send_join i name client sv (rb_lr_batch_begin rb);
            rb \<leftarrow> send_topic name False sv rb;
            rb \<leftarrow> send_names i name sv rb;
            Some (True, sv, rb)
          })
     }"

fun join_loop ::
  "nat \<Rightarrow> client \<Rightarrow> (string \<times> string option) list \<Rightarrow> bool \<Rightarrow> server \<Rightarrow> reply_buffer
   \<Rightarrow> (bool \<times> server \<times> reply_buffer) option" where
  "join_loop i client [] update_idle sv rb = Some (update_idle, sv, rb)"
| "join_loop i client ((name, key) # cs) update_idle sv rb =
     (case join_one i client name key sv rb of
        None \<Rightarrow> None
      | Some (joined, sv, rb) \<Rightarrow> join_loop i client cs (update_idle \<or> joined) sv rb)"

definition touch :: "env \<Rightarrow> nat \<Rightarrow> server \<Rightarrow> server" where
  "touch env i sv = sv\<lparr>sv_clients := iupd i (update_idle_time (env_now env)) (sv_clients sv)\<rparr>"

definition cmd_join :: "env \<Rightarrow> nat \<Rightarrow> string \<Rightarrow> string \<Rightarrow> server \<Rightarrow> reply_buffer \<Rightarrow> handled" where
  "cmd_join env i names keys sv rb =
     do {
       client \<leftarrow> iget i (sv_clients sv);
       (update_idle, sv, rb) \<leftarrow> join_loop i client (join_list_iter names keys) False sv rb;
       (if update_idle then do { _ \<leftarrow> iget i (sv_clients sv); Some (HOk, touch env i sv, rb) }
        else Some (HOk, sv, rb))
     }"

section \<open>PART\<close>

definition reason_param :: "string option \<Rightarrow> mb_call list" where
  "reason_param reason = (case reason of Some r \<Rightarrow> [TrailingParam r] | None \<Rightarrow> [])"

definition not_on_channel :: "string \<Rightarrow> reply_buffer \<Rightarrow> reply_buffer" where
  "not_on_channel name rb =
     rb_reply (Reply rpl_ERR_NOTONCHANNEL) [Param name, TrailingParam lines_NOT_ON_CHANNEL] rb"

definition part_one ::
  "nat \<Rightarrow> client \<Rightarrow> string option \<Rightarrow> string \<Rightarrow> server \<Rightarrow> reply_buffer \<Rightarrow> handled" where
  "part_one i issuer reason name sv rb =
     (let rb = rb_lr_batch_begin rb
      in case uget name (sv_channels sv) of
           None \<Rightarrow> Some (HErr, sv, not_on_channel name rb)
         | Some channel \<Rightarrow>
             if \<not> ihas i (ch_members channel) then Some (HErr, sv, not_on_channel name rb)
             else
               (let members = idel i (ch_members channel);
                    calls = Param name # reason_param reason
                in do {
                     sv \<leftarrow> (if members = []
                            then Some (sv\<lparr>sv_channels := udel name (sv_channels sv)\<rparr>)
                            else
                              send_each (\<lambda>_ _. Some (queue_item_from
                                  (buffer_message (cl_full_name issuer) Cmd_Part calls [])))
                                (tkeys members)
                                (sv\<lparr>sv_channels := uupd name (\<lambda>ch. ch\<lparr>ch_members := members\<rparr>) (sv_channels sv)\<rparr>));
                     Some (HOk, sv, rb_message (cl_full_name issuer) Cmd_Part calls rb)
                   }))"

fun part_loop ::
  "nat \<Rightarrow> client \<Rightarrow> string option \<Rightarrow> string list \<Rightarrow> handler_result \<Rightarrow> server \<Rightarrow> reply_buffer \<Rightarrow> handled" where
  "part_loop i issuer reason [] res sv rb = Some (res, sv, rb)"
| "part_loop i issuer reason (name # ns) res sv rb =
     (case part_one i issuer reason name sv rb of
        None \<Rightarrow> None
      | Some (r, sv, rb) \<Rightarrow> part_loop i issuer reason ns (if r = HErr then HErr else res) sv rb)"

definition cmd_part :: "nat \<Rightarrow> string \<Rightarrow> string option \<Rightarrow> server \<Rightarrow> reply_buffer \<Rightarrow> handled" where
  "cmd_part i from' reason sv rb =
     do {
       issuer \<leftarrow> iget i (sv_clients sv);
       part_loop i issuer reason (channel_names from') HOk sv rb
     }"

text \<open>\<open>PART\<close> from all channels: \<open>retain\<close> with a closure that sends.\<close>

fun part_all_loop ::
  "nat \<Rightarrow> client \<Rightarrow> channel utable \<Rightarrow> server \<Rightarrow> reply_buffer
   \<Rightarrow> (channel utable \<times> server \<times> reply_buffer) option" where
  "part_all_loop i issuer [] sv rb = Some ([], sv, rb)"
| "part_all_loop i issuer ((name, channel) # cs) sv rb =
     (if \<not> ihas i (ch_members channel) then
        (case part_all_loop i issuer cs sv rb of
           None \<Rightarrow> None
         | Some (kept, sv, rb) \<Rightarrow> Some ((name, channel) # kept, sv, rb))
      else
        (let channel = channel\<lparr>ch_members := idel i (ch_members channel)\<rparr>;
             calls = [Param name, TrailingParam lines_PART_ALL];
             rb = rb_message (cl_full_name issuer) Cmd_Part calls (rb_lr_batch_begin rb)
         in case send_each (\<lambda>_ _. Some (queue_item_from
                    (buffer_message (cl_full_name issuer) Cmd_Part calls [])))
                   (tkeys (ch_members channel)) sv of
              None \<Rightarrow> None
            | Some sv \<Rightarrow>
                (case part_all_loop i issuer cs sv rb of
                   None \<Rightarrow> None
                 | Some (kept, sv, rb) \<Rightarrow>
                     Some ((if ch_members channel \<noteq> [] then (name, channel) # kept else kept), sv, rb))))"

definition cmd_part_all :: "nat \<Rightarrow> server \<Rightarrow> reply_buffer \<Rightarrow> handled" where
  "cmd_part_all i sv rb =
     do {
       issuer \<leftarrow> iget i (sv_clients sv);
       (kept, sv, rb) \<leftarrow> part_all_loop i issuer (sv_channels sv) sv rb;
       Some (HOk, sv\<lparr>sv_channels := kept\<rparr>, rb)
     }"

section \<open>INVITE and KICK\<close>

definition chan_o_privs_needed :: "string \<Rightarrow> reply_buffer \<Rightarrow> reply_buffer" where
  "chan_o_privs_needed name rb =
     rb_reply (Reply rpl_ERR_CHANOPRIVSNEEDED) [Param name, TrailingParam lines_CHAN_O_PRIVS_NEEDED] rb"

definition cmd_invite :: "nat \<Rightarrow> string \<Rightarrow> string \<Rightarrow> server \<Rightarrow> reply_buffer \<Rightarrow> handled" where
  "cmd_invite i who to sv rb =
     do {
       found \<leftarrow> find_nick who sv rb;
       (case found of
          Inl rb \<Rightarrow> Some (HErr, sv, rb)
        | Inr (who_id, who_data) \<Rightarrow>
            (case uget to (sv_channels sv) of
               None \<Rightarrow> Some (HErr, sv, reply_no_such_channel to rb)
             | Some channel \<Rightarrow>
                 if \<not> can_invite channel i then Some (HErr, sv, chan_o_privs_needed to rb)
                 else if ihas who_id (ch_members channel) then
                   Some (HErr, sv, rb_reply (Reply rpl_ERR_USERONCHANNEL)
                     [Param who, Param to, TrailingParam lines_USER_ON_CHANNEL] rb)
                 else if who_id \<in> ch_invites channel then Some (HErr, sv, rb)
                 else
                   do {
                     let channel = channel\<lparr>ch_invites := insert who_id (ch_invites channel)\<rparr>;
                     let sv = sv\<lparr>sv_channels := uupd to (\<lambda>_. channel) (sv_channels sv)\<rparr>;
                     let rb = rb_reply (Reply rpl_INVITING) [Param who, Param to] (rb_lr_batch_begin rb);
                     let rb = (case cl_away_message who_data of
                                 Some away_msg \<Rightarrow>
                                   rb_reply (Reply rpl_AWAY) [Param who, TrailingParam away_msg] rb
                               | None \<Rightarrow> rb);
                     client \<leftarrow> iget i (sv_clients sv);
                     let invite = queue_item_from
                           (buffer_message (cl_full_name client) Cmd_Invite [Param who, Param to] []);
                     sv \<leftarrow> send_each (\<lambda>_ _. Some invite) [who_id] sv;
                     sv \<leftarrow> send_each (\<lambda>m c. if cl_cap_enabled c INVITE_NOTIFY \<and> can_invite channel m
                                             then Some invite else None)
                             (others i channel) sv;
                     Some (HOk, sv, rb)
                   }))
     }"

definition send_kick ::
  "nat \<Rightarrow> channel \<Rightarrow> string \<Rightarrow> string \<Rightarrow> string option \<Rightarrow> server \<Rightarrow> reply_buffer
   \<Rightarrow> (server \<times> reply_buffer) option" where
  "send_kick i channel name kicked_nick reason sv rb =
     do {
       client \<leftarrow> iget i (sv_clients sv);
       let calls = [Param name, Param kicked_nick] @ reason_param reason;
       let rb = rb_message (cl_full_name client) Cmd_Kick calls rb;
       let msg = queue_item_from (buffer_message (cl_full_name client) Cmd_Kick calls []);
       sv \<leftarrow> send_each (\<lambda>_ _. Some msg) (others i channel) sv;
       Some (sv, rb)
     }"

text \<open>The loop works on the channel through a mutable reference; here it is looked up under its
  name, which the loop does not change.\<close>

definition kick_one ::
  "nat \<Rightarrow> string \<Rightarrow> string option \<Rightarrow> string \<Rightarrow> server \<Rightarrow> reply_buffer \<Rightarrow> (server \<times> reply_buffer) option" where
  "kick_one i name reason kicked_nick sv rb =
     do {
       channel \<leftarrow> uget name (sv_channels sv);
       found \<leftarrow> find_nick kicked_nick sv rb;
       (case found of
          Inr (k, _) \<Rightarrow>
            if ihas k (ch_members channel) then
              (let channel = channel\<lparr>ch_members := idel k (ch_members channel)\<rparr>
               in send_kick i channel name kicked_nick reason
                    (sv\<lparr>sv_channels := uupd name (\<lambda>_. channel) (sv_channels sv)\<rparr>) rb)
            else
              Some (sv, rb_reply (Reply rpl_ERR_USERNOTINCHANNEL)
                [Param kicked_nick, Param name, TrailingParam lines_USER_NOT_IN_CHANNEL] rb)
        | Inl rb \<Rightarrow>
            Some (sv, rb_reply (Reply rpl_ERR_USERNOTINCHANNEL)
              [Param kicked_nick, Param name, TrailingParam lines_USER_NOT_IN_CHANNEL] rb))
     }"

fun kick_loop ::
  "nat \<Rightarrow> string \<Rightarrow> string option \<Rightarrow> string list \<Rightarrow> server \<Rightarrow> reply_buffer
   \<Rightarrow> (server \<times> reply_buffer) option" where
  "kick_loop i name reason [] sv rb = Some (sv, rb)"
| "kick_loop i name reason (n # ns) sv rb =
     (case kick_one i name reason n sv rb of
        None \<Rightarrow> None
      | Some (sv, rb) \<Rightarrow> kick_loop i name reason ns sv rb)"

definition cmd_kick :: "nat \<Rightarrow> string \<Rightarrow> string \<Rightarrow> string option \<Rightarrow> server \<Rightarrow> reply_buffer \<Rightarrow> handled" where
  "cmd_kick i who from' reason sv rb =
     (case uget from' (sv_channels sv) of
        None \<Rightarrow> Some (HErr, sv, reply_no_such_channel from' rb)
      | Some channel \<Rightarrow>
          (case find_member i channel from' rb of
             Inl rb \<Rightarrow> Some (HErr, sv, rb)
           | Inr modes \<Rightarrow>
               if \<not> mm_operator modes then Some (HErr, sv, chan_o_privs_needed from' rb)
               else
                 do {
                   reason \<leftarrow> (case reason of
                                None \<Rightarrow> Some None
                              | Some r \<Rightarrow> map_option Some (str_trunc r (sv_kicklen sv)));
                   (sv, rb) \<leftarrow> kick_loop i from' reason (nicknames who) sv rb;
                   Some (HOk, sv, rb)
                 }))"

section \<open>TOPIC\<close>

definition cmd_topic_set :: "env \<Rightarrow> nat \<Rightarrow> string \<Rightarrow> string \<Rightarrow> server \<Rightarrow> reply_buffer \<Rightarrow> handled" where
  "cmd_topic_set env i name topic' sv rb =
     (case uget name (sv_channels sv) of
        None \<Rightarrow> Some (HErr, sv, reply_no_such_channel name rb)
      | Some channel \<Rightarrow>
          (case find_member i channel name rb of
             Inl rb \<Rightarrow> Some (HErr, sv, rb)
           | Inr modes \<Rightarrow>
               if \<not> mm_operator modes \<and> ch_topic_restricted channel
               then Some (HErr, sv, chan_o_privs_needed name rb)
               else
                 do {
                   client \<leftarrow> iget i (sv_clients sv);
                   content \<leftarrow> str_trunc topic' (sv_topiclen sv);
                   let t = (if content = [] then None
                            else Some \<lparr>tp_content = content, tp_who = cl_nick client,
                                       tp_time = env_now env\<rparr>);
                   let sv = sv\<lparr>sv_channels := uupd name (\<lambda>ch. ch\<lparr>ch_topic := t\<rparr>) (sv_channels sv)\<rparr>;
                   let calls = [Param name, TrailingParam content];
                   sv \<leftarrow> send_each (\<lambda>_ _. Some (queue_item_from
                             (buffer_message (cl_full_name client) Cmd_Topic calls [])))
                           (others i channel) sv;
                   Some (HOk, sv, rb_message (cl_full_name client) Cmd_Topic calls rb)
                 }))"

section \<open>MODE\<close>

definition reply_list :: "string \<Rightarrow> string \<Rightarrow> string \<Rightarrow> string \<Rightarrow> string list \<Rightarrow> reply_buffer \<Rightarrow> reply_buffer" where
  "reply_list name item end_item line it rb =
     rb_reply (Reply end_item) [Param name, TrailingParam line]
       (fold (\<lambda>m. rb_reply (Reply item) [Param name, Param m]) it rb)"

text \<open>What the loop has gathered: letters, their parameters, the last sign.\<close>

record applied_modes =
  am_modes :: string
  am_params :: "string list"
  am_last :: bool

definition push_applied :: "channel_change \<Rightarrow> applied_modes \<Rightarrow> applied_modes" where
  "push_applied change am =
     (let v = change_value change;
          am = (if am_last am \<noteq> v \<or> am_modes am = []
                then am\<lparr>am_modes := am_modes am @ (if v then ''+'' else ''-''), am_last := v\<rparr> else am);
          am = am\<lparr>am_modes := am_modes am @ change_symbol change\<rparr>
      in case change_param change of
           Some p \<Rightarrow> am\<lparr>am_params := am_params am @ [p]\<rparr>
         | None \<Rightarrow> am)"

definition mode_change_apply ::
  "string \<Rightarrow> nat \<Rightarrow> (nat \<Rightarrow> string option) \<Rightarrow> channel_change
   \<Rightarrow> channel \<times> applied_modes \<times> reply_buffer \<Rightarrow> (channel \<times> applied_modes \<times> reply_buffer) option" where
  "mode_change_apply name keylen nick_of change st =
     (let (ch, am, rb) = st
      in case channel_apply_mode_change change keylen nick_of ch of
           None \<Rightarrow> None
         | Some (Inr True, ch) \<Rightarrow> Some (ch, push_applied change am, rb)
         | Some (Inr False, ch) \<Rightarrow> Some (ch, am, rb)
         | Some (Inl e, ch) \<Rightarrow>
             if e = rpl_ERR_USERNOTINCHANNEL then
               (case change_param change of
                  None \<Rightarrow> None
                | Some p \<Rightarrow> Some (ch, am, rb_reply (Reply rpl_ERR_USERNOTINCHANNEL)
                                     [Param p, TrailingParam lines_USER_NOT_IN_CHANNEL] rb))
             else if e = rpl_ERR_KEYSET then
               Some (ch, am, rb_reply (Reply rpl_ERR_KEYSET)
                 [Param name, TrailingParam lines_KEY_SET] rb)
             else None)"

text \<open>One iteration; the list of invitation exceptions is the list of ban exceptions in the source.\<close>

definition mode_change_one ::
  "string \<Rightarrow> nat \<Rightarrow> (nat \<Rightarrow> string option) \<Rightarrow> mode_error + channel_change
   \<Rightarrow> channel \<times> applied_modes \<times> reply_buffer \<Rightarrow> (channel \<times> applied_modes \<times> reply_buffer) option" where
  "mode_change_one name keylen nick_of maybe_change st =
     (let (ch, am, rb) = st
      in case maybe_change of
           Inr GetBans \<Rightarrow>
             Some (ch, am, reply_list name rpl_BANLIST rpl_ENDOFBANLIST lines_END_OF_BAN_LIST
                     (masks (ch_ban_mask ch)) rb)
         | Inr GetExceptions \<Rightarrow>
             Some (ch, am, reply_list name rpl_EXCEPTLIST rpl_ENDOFEXCEPTLIST lines_END_OF_EXCEPT_LIST
                     (masks (ch_exception_mask ch)) rb)
         | Inr GetInvitations \<Rightarrow>
             Some (ch, am, reply_list name rpl_INVITELIST rpl_ENDOFINVITELIST lines_END_OF_INVITE_LIST
                     (masks (ch_exception_mask ch)) rb)
         | Inr change \<Rightarrow> mode_change_apply name keylen nick_of change st
         | Inl (Unknown mode _) \<Rightarrow>
             Some (ch, am, rb_reply (Reply rpl_ERR_UNKNOWNMODE)
               [RawParam mode, TrailingParam lines_UNKNOWN_MODE] rb)
         | Inl _ \<Rightarrow> Some (ch, am, rb))"

fun mode_change_loop ::
  "string \<Rightarrow> nat \<Rightarrow> (nat \<Rightarrow> string option) \<Rightarrow> (mode_error + channel_change) list
   \<Rightarrow> channel \<times> applied_modes \<times> reply_buffer \<Rightarrow> (channel \<times> applied_modes \<times> reply_buffer) option" where
  "mode_change_loop name keylen nick_of [] st = Some st"
| "mode_change_loop name keylen nick_of (c # cs) st =
     (case mode_change_one name keylen nick_of c st of
        None \<Rightarrow> None
      | Some st \<Rightarrow> mode_change_loop name keylen nick_of cs st)"

definition cmd_mode_channel_set ::
  "nat \<Rightarrow> string \<Rightarrow> string \<Rightarrow> string list \<Rightarrow> server \<Rightarrow> reply_buffer \<Rightarrow> handled" where
  "cmd_mode_channel_set i name modes params sv rb =
     (case uget name (sv_channels sv) of
        None \<Rightarrow> Some (HErr, sv, reply_no_such_channel name rb)
      | Some channel \<Rightarrow>
          do {
            issuer \<leftarrow> iget i (sv_clients sv);
            (case find_member i channel name rb of
               Inl rb \<Rightarrow> Some (HErr, sv, rb)
             | Inr issuer_modes \<Rightarrow>
                 if \<not> cl_operator issuer \<and> \<not> can_change issuer_modes modes params
                 then Some (HErr, sv, chan_o_privs_needed name rb)
                 else
                   do {
                     (channel, am, rb) \<leftarrow> mode_change_loop name (sv_keylen sv)
                         (\<lambda>a. map_option cl_nick (iget a (sv_clients sv)))
                         (channel_query modes params)
                         (channel, \<lparr>am_modes = [], am_params = [], am_last = True\<rparr>, rb_lr_batch_begin rb);
                     let sv = sv\<lparr>sv_channels := uupd name (\<lambda>_. channel) (sv_channels sv)\<rparr>;
                     (if am_modes am = [] then Some (HOk, sv, rb)
                      else
                        do {
                          let calls = [Param name, Param (am_modes am)] @ map Param (am_params am);
                          sv \<leftarrow> send_each (\<lambda>_ _. Some (queue_item_from
                                    (buffer_message (cl_full_name issuer) Cmd_Mode calls [])))
                                  (others i channel) sv;
                          Some (HOk, sv, rb_message (cl_full_name issuer) Cmd_Mode calls rb)
                        })
                   })
          })"

section \<open>PRIVMSG, NOTICE and TAGMSG\<close>

definition message_tags_of :: "env \<Rightarrow> client \<Rightarrow> (string \<times> string option) list" where
  "message_tags_of env issuer =
     [(''msgid'', Some (env_message_id env)), (''time'', Some (env_time_precise env))]
     @ (case cl_account issuer of Some a \<Rightarrow> [(''account'', Some a)] | None \<Rightarrow> [])"

definition message_build ::
  "env \<Rightarrow> nat \<Rightarrow> string \<Rightarrow> command \<Rightarrow> string \<Rightarrow> string option \<Rightarrow> server \<Rightarrow> reply_buffer
   \<Rightarrow> (queue_item \<times> reply_buffer) option" where
  "message_build env i client_tags command target content sv rb =
     do {
       issuer \<leftarrow> iget i (sv_clients sv);
       let calls = Param target # reason_param content;
       let rb = (if cl_cap_enabled issuer ECHO_MESSAGE then
                   (if has_message_tags (cl_cap_enabled issuer)
                    then rb_tagged_statement client_tags (message_tags_of env issuer)
                           (cl_full_name issuer) command calls rb
                    else rb_message (cl_full_name issuer) command calls rb)
                 else rb);
       let msg = fold (\<lambda>(k, v). tb_tag k v) (message_tags_of env issuer)
                   (buffer_tagged_message client_tags []);
       let tag_len = tb_save_tag_len msg;
       let buf = mb_statement calls (tb_prefixed_command (cl_full_name issuer) command msg);
       Some ((queue_item_from buf)\<lparr>qi_start := tag_len\<rparr>, rb)
     }"

fun send_capable :: "nat \<Rightarrow> command \<Rightarrow> queue_item \<Rightarrow> nat list \<Rightarrow> server \<Rightarrow> server" where
  "send_capable i command msg [] sv = sv"
| "send_capable i command msg (target # ts) sv =
     send_capable i command msg ts
       (if target = i then sv
        else (case iget target (sv_clients sv) of
                None \<Rightarrow> sv
              | Some c \<Rightarrow>
                  if is_capable_of (cl_cap_enabled c) command then send target c msg sv else sv))"

definition cmd_message_channel ::
  "env \<Rightarrow> nat \<Rightarrow> string \<Rightarrow> command \<Rightarrow> string \<Rightarrow> string option \<Rightarrow> server \<Rightarrow> reply_buffer \<Rightarrow> handled" where
  "cmd_message_channel env i client_tags command to content sv rb =
     (case find_channel to sv rb of
        Inl rb \<Rightarrow> Some (HErr, sv, rb)
      | Inr channel \<Rightarrow>
          if \<not> can_talk channel i then
            Some (HErr, sv, rb_reply (Reply rpl_ERR_CANNOTSENDTOCHAN)
              [Param to, TrailingParam lines_CANNOT_SEND_TO_CHAN] rb)
          else
            do {
              (msg, rb) \<leftarrow> message_build env i client_tags command to content sv rb;
              let sv = send_capable i command msg (tkeys (ch_members channel)) sv;
              _ \<leftarrow> iget i (sv_clients sv);
              Some (HOk, touch env i sv, rb)
            })"

definition cmd_message_user ::
  "env \<Rightarrow> nat \<Rightarrow> string \<Rightarrow> command \<Rightarrow> string \<Rightarrow> string option \<Rightarrow> server \<Rightarrow> reply_buffer \<Rightarrow> handled" where
  "cmd_message_user env i client_tags command to content sv rb =
     do {
       found \<leftarrow> find_nick to sv rb;
       (case found of
          Inl rb \<Rightarrow> Some (HErr, sv, rb)
        | Inr (target_id, target) \<Rightarrow>
            if \<not> is_capable_of (cl_cap_enabled target) command then Some (HErr, sv, rb)
            else
              do {
                (msg, rb) \<leftarrow> message_build env i client_tags command to content sv rb;
                let sv = send target_id target msg sv;
                let rb = (case cl_away_message target of
                            Some away_message \<Rightarrow>
                              rb_reply (Reply rpl_AWAY) [Param to, TrailingParam away_message] rb
                          | None \<Rightarrow> rb);
                _ \<leftarrow> iget i (sv_clients sv);
                Some (HOk, touch env i sv, rb)
              })
     }"

end
