(* ===== verification/Server.thy ===== *)
theory Server
  imports V1Users V1Channels
begin

text \<open>
  \<open>StateInner::handle_message\<close> of \<open>src/state/mod.rs\<close>: from a parsed message to the handler of its
  request, and what happens around the handler - the reply buffer, the connection state, the points.
\<close>

definition message_label :: "message \<Rightarrow> string" where
  "message_label msg =
     (case List.find (\<lambda>t. tag_key t = ''label'') (tags (msg_tags msg)) of
        None \<Rightarrow> []
      | Some t \<Rightarrow>
          (case tag_value t of
             None \<Rightarrow> []
           | Some label \<Rightarrow> if length label \<le> MAX_LABEL_LENGTH then label else []))"

definition reply_need_more_params :: "command \<Rightarrow> nat \<Rightarrow> reply_buffer \<Rightarrow> reply_buffer" where
  "reply_need_more_params command n rb =
     (let reply = (\<lambda>code calls. rb_reply (Reply code) (calls @ [TrailingParam lines_NEED_MORE_PARAMS]) rb)
      in if command = Cmd_Nick \<or> command = Cmd_WhoIs then reply rpl_ERR_NONICKNAMEGIVEN []
         else if (command = Cmd_PrivMsg \<or> command = Cmd_Notice \<or> command = Cmd_TagMsg) \<and> n = 0
         then reply rpl_ERR_NORECIPIENT []
         else if (command = Cmd_PrivMsg \<or> command = Cmd_Notice) \<and> n = 1
         then reply rpl_ERR_NOTEXTTOSEND []
         else reply rpl_ERR_NEEDMOREPARAMS [Param (as_str command)])"

fun reply_request_error :: "client \<Rightarrow> message \<Rightarrow> request_error \<Rightarrow> reply_buffer \<Rightarrow> reply_buffer" where
  "reply_request_error client msg (ErroneousNickname name) rb =
     rb_reply (Reply rpl_ERR_ERRONEUSNICKNAME) [Param name, TrailingParam lines_ERRONEOUS_NICKNAME] rb"
| "reply_request_error client msg InvalidCap rb =
     rb_reply Cmd_Cap [Param ''NAK'', TrailingParam (param msg 2)] rb"
| "reply_request_error client msg (InvalidCapCmd cmd) rb =
     rb_reply (Reply rpl_ERR_INVALIDCAPCMD) [Param cmd, TrailingParam lines_UNKNOWN_COMMAND] rb"
| "reply_request_error client msg (NoSuchChannel name) rb = reply_no_such_channel name rb"
| "reply_request_error client msg (NoSuchNick name) rb =
     rb_reply (Reply rpl_ERR_NOSUCHNICK) [Param name, TrailingParam lines_NO_SUCH_NICK] rb"
| "reply_request_error client msg (NeedMoreParams command n) rb = reply_need_more_params command n rb"
| "reply_request_error client msg (UnknownCommand unknown) rb =
     (if client_is_registered client
      then rb_reply (Reply rpl_ERR_UNKNOWNCOMMAND) [Param unknown, TrailingParam lines_UNKNOWN_COMMAND] rb
      else rb_reply (Reply rpl_ERR_NOTREGISTERED) [TrailingParam lines_NOT_REGISTERED] rb)"

definition reply_cannot_issue :: "client \<Rightarrow> reply_buffer \<Rightarrow> reply_buffer" where
  "reply_cannot_issue client rb =
     (if client_is_registered client
      then rb_reply (Reply rpl_ERR_ALREADYREGISTRED) [TrailingParam lines_ALREADY_REGISTERED] rb
      else rb_reply (Reply rpl_ERR_NOTREGISTERED) [TrailingParam lines_NOT_REGISTERED] rb)"

text \<open>The \<open>match\<close> over the requests.\<close>

definition run_request :: "env \<Rightarrow> nat \<Rightarrow> string \<Rightarrow> request \<Rightarrow> server \<Rightarrow> reply_buffer \<Rightarrow> handled" where
  "run_request env i client_tags req sv rb =
     (case req of
        Req_Admin \<Rightarrow> cmd_admin sv rb
      | Req_Info \<Rightarrow> cmd_info sv rb
      | Req_LUsers \<Rightarrow> cmd_lusers i sv rb
      | Req_Motd \<Rightarrow> cmd_motd sv rb
      | Req_Time \<Rightarrow> cmd_time env sv rb
      | Req_Version \<Rightarrow> cmd_version sv rb
      | Req_WhoChannel name flt \<Rightarrow> cmd_who_channel i name flt sv rb
      | Req_WhoMask msk flt \<Rightarrow> cmd_who_mask i msk flt sv rb
      | Req_WhoUser nick flt \<Rightarrow> cmd_who_user i nick flt sv rb
      | Req_WhoAll flt \<Rightarrow> cmd_who_all i flt sv rb
      | Req_WhoIs nick \<Rightarrow> cmd_whois env nick sv rb
      | Req_Kill who reason \<Rightarrow> cmd_kill i who reason sv rb
      | Req_Oper name password \<Rightarrow> cmd_oper i name password sv rb
      | Req_Rehash \<Rightarrow> cmd_rehash i sv rb
      | Req_List targets \<Rightarrow> cmd_list i targets sv rb
      | Req_ListAll \<Rightarrow> cmd_list_all i sv rb
      | Req_Names targets \<Rightarrow> cmd_names i targets sv rb
      | Req_NamesAll \<Rightarrow> cmd_names_all sv rb
      | Req_TopicGet name \<Rightarrow> cmd_topic_get i name sv rb
      | Req_TopicSet name topic' \<Rightarrow> cmd_topic_set env i name topic' sv rb
      | Req_Authenticate payload \<Rightarrow> cmd_authenticate payload sv rb
      | Req_CapLs version \<Rightarrow> cmd_cap_ls i version sv rb
      | Req_CapList \<Rightarrow> cmd_cap_list i sv rb
      | Req_CapReq diff \<Rightarrow> cmd_cap_req i diff sv rb
      | Req_CapEnd \<Rightarrow> cmd_cap_end sv rb
      | Req_Pass password \<Rightarrow> cmd_pass i password sv rb
      | Req_Ping payload \<Rightarrow> cmd_ping payload sv rb
      | Req_Pong payload \<Rightarrow> cmd_pong sv rb
      | Req_Quit reason \<Rightarrow> cmd_quit i reason sv rb
      | Req_User username realname \<Rightarrow> cmd_user i username realname sv rb
      | Req_Away reason \<Rightarrow> cmd_away i reason sv rb
      | Req_ModeUserGet nick \<Rightarrow> cmd_mode_user_get i nick sv rb
      | Req_ModeUserSet nick modes \<Rightarrow> cmd_mode_user_set i nick modes sv rb
      | Req_Nick nick \<Rightarrow> cmd_nick i nick sv rb
      | Req_SetName realname \<Rightarrow> cmd_setname i realname sv rb
      | Req_Invite who to \<Rightarrow> cmd_invite i who to sv rb
      | Req_Join names keys \<Rightarrow> cmd_join env i names keys sv rb
      | Req_Kick who from' reason \<Rightarrow> cmd_kick i who from' reason sv rb
      | Req_MessageAll feedback command content \<Rightarrow> cmd_message_all feedback command content sv rb
      | Req_MessageChannel feedback command to content \<Rightarrow>
          cmd_message_channel env i client_tags command to content sv rb
      | Req_MessageUser feedback command to content \<Rightarrow>
          cmd_message_user env i client_tags command to content sv rb
      | Req_ModeChannelGet name \<Rightarrow> cmd_mode_channel_get i name sv rb
      | Req_ModeChannelSet name modes params \<Rightarrow> cmd_mode_channel_set i name modes params sv rb
      | Req_Part from' reason \<Rightarrow> cmd_part i from' reason sv rb
      | Req_PartAll \<Rightarrow> cmd_part_all i sv rb)"

text \<open>\<open>u32::saturating_mul(2)\<close>.\<close>

definition saturating_double :: "32 word \<Rightarrow> 32 word" where
  "saturating_double w = (if 2 ^ 32 \<le> 2 * unat w then - 1 else 2 * w)"

text \<open>What follows a handler that did not remove the client.\<close>

definition finish_ok :: "nat \<Rightarrow> request \<Rightarrow> server \<Rightarrow> reply_buffer \<Rightarrow> (server \<times> reply_buffer) option" where
  "finish_ok i req sv rb =
     do {
       client \<leftarrow> iget i (sv_clients sv);
       client' \<leftarrow> client_apply_request req client;
       let sv = sv\<lparr>sv_clients := iupd i (\<lambda>_. client') (sv_clients sv)\<rparr>;
       rb \<leftarrow> (if client_is_registered client' \<and> \<not> client_is_registered client
              then send_welcome i sv rb else Some rb);
       Some (sv, rb)
     }"

definition finish_request ::
  "nat \<Rightarrow> request \<Rightarrow> bool \<Rightarrow> handler_result \<Rightarrow> server \<Rightarrow> reply_buffer \<Rightarrow> (32 word \<times> server) option" where
  "finish_request i req is_operator res sv rb =
     do {
       (used_points, sv, rb) \<leftarrow>
         (if res = HOk then do { (sv, rb) \<leftarrow> finish_ok i req sv rb; Some (points req, sv, rb) }
          else Some (saturating_double (points req), sv, rb));
       rb \<leftarrow> rb_lr_end rb;
       sv \<leftarrow> (if \<not> rb_is_empty rb
              then do { client \<leftarrow> iget i (sv_clients sv);
                        Some (send i client (queue_item_from (rb_buf rb)) sv) }
              else Some sv);
       Some (if is_operator then 1 else used_points, sv)
     }"

definition handle_request ::
  "env \<Rightarrow> nat \<Rightarrow> string \<Rightarrow> request \<Rightarrow> bool \<Rightarrow> server \<Rightarrow> reply_buffer \<Rightarrow> (32 word \<times> server) option" where
  "handle_request env i client_tags req is_operator sv rb =
     do {
       (res, sv, rb) \<leftarrow> run_request env i client_tags req sv rb;
       (if \<not> ihas i (sv_clients sv) then Some (999999, sv)
        else finish_request i req is_operator res sv rb)
     }"

definition handle_message :: "env \<Rightarrow> nat \<Rightarrow> message \<Rightarrow> server \<Rightarrow> (32 word \<times> server) option" where
  "handle_message env i msg sv =
     (case iget i (sv_clients sv) of
        None \<Rightarrow> Some (999999, sv)
      | Some client \<Rightarrow>
          (let rb = client_reply client (message_label msg);
               is_operator = cl_operator client
           in if MAX_TAG_DATA_LENGTH < length (msg_tags msg) then Some (3, sv)
              else
                (case request_new msg of
                   None \<Rightarrow> None
                 | Some (Inl err) \<Rightarrow>
                     Some (6, send i client (queue_item_from (rb_buf (reply_request_error client msg err rb))) sv)
                 | Some (Inr req) \<Rightarrow>
                     if \<not> client_can_issue_request req client then
                       Some (2, send i client (queue_item_from (rb_buf (reply_cannot_issue client rb))) sv)
                     else handle_request env i (msg_tags msg) req is_operator sv rb)))"

end
