(* ===== verification/ReplyInv.thy ===== *)
theory ReplyInv
  imports Server
begin

text \<open>
  The discipline of the reply buffer: at most one batch is open, and the first message written to the
  buffer of a labelled request carries the label.
\<close>

section \<open>Builders only append\<close>

lemma fold_mb_apply_appends: "\<exists>x. fold mb_apply calls buf = buf @ x"
proof (induction calls arbitrary: buf)
  case (Cons c cs)
  have "\<exists>x. mb_apply c buf = buf @ x"
    by (cases c) (auto simp: mb_param_def mb_fmt_param_def mb_raw_param_def mb_trailing_param_def
        mb_fmt_trailing_param_def mb_raw_trailing_param_def Let_def)
  then obtain x where "mb_apply c buf = buf @ x" by blast
  then show ?case using Cons.IH [of "buf @ x"] by auto
qed simp

lemma mb_statement_appends: "\<exists>x. mb_statement calls buf = buf @ x"
  using fold_mb_apply_appends [of calls buf] by (auto simp: mb_statement_def mb_drop_def)

text \<open>The tags of a message under way: what was there, an at sign, the tags.\<close>

definition tags_of :: "string \<Rightarrow> tag_buffer \<Rightarrow> string \<Rightarrow> bool" where
  "tags_of buf tb x \<longleftrightarrow> tb_start tb = length buf \<and> tb_buf tb = buf @ ''@'' @ x"

lemma tags_of_new: "tags_of buf (tb_new buf) []"
  by (simp add: tags_of_def tb_new_def)

lemma tags_of_tag: "tags_of buf tb x \<Longrightarrow> \<exists>y. tags_of buf (tb_tag k v tb) (x @ y @ k @ (case v of None \<Rightarrow> [] | Some v \<Rightarrow> ''='' @ concat (map escape_char v)))"
  by (auto simp: tags_of_def tb_tag_def tb_sep_def tb_is_empty_def write_escaped_def Let_def split: option.splits)

lemma tags_of_raw_tag: "tags_of buf tb x \<Longrightarrow> \<exists>y. tags_of buf (tb_raw_tag s tb) (x @ y)"
  by (auto simp: tags_of_def tb_raw_tag_def tb_sep_def)

lemma tags_of_raw_tags: "tags_of buf tb x \<Longrightarrow> \<exists>y. tags_of buf (fold tb_raw_tag ss tb) (x @ y)"
proof (induction ss arbitrary: tb x)
  case (Cons s ss)
  from tags_of_raw_tag [OF Cons.prems, of s] obtain y where "tags_of buf (tb_raw_tag s tb) (x @ y)" by blast
  from Cons.IH [OF this] show ?case by auto
qed (auto intro: exI [of _ "[]"])

lemma tags_of_tag_list:
  "tags_of buf tb x \<Longrightarrow> \<exists>y. tags_of buf (fold (\<lambda>(k, v). tb_tag k v) kvs tb) (x @ y)"
proof (induction kvs arbitrary: tb x)
  case (Cons kv kvs)
  obtain k v where kv: "kv = (k, v)" by fastforce
  from tags_of_tag [OF Cons.prems, of k v] obtain y where "tags_of buf (tb_tag k v tb) (x @ y)" by blast
  from Cons.IH [OF this] show ?case by (auto simp: kv)
qed (auto intro: exI [of _ "[]"])

lemma tags_of_tagged: "\<exists>x. tags_of buf (buffer_tagged_message client_tags buf) x"
  using tags_of_raw_tags [OF tags_of_new] by (auto simp: buffer_tagged_message_def)

lemma prefixed_command_appends:
  assumes "tags_of buf tb x"
  shows "\<exists>y. tb_prefixed_command p c tb = (if x = [] then buf else buf @ ''@'' @ x) @ y"
  using assms by (auto simp: tags_of_def tb_prefixed_command_def tb_is_empty_def mb_with_prefix_def butlast_append)

section \<open>The label\<close>

definition label_text :: "string \<Rightarrow> string" where
  "label_text l = ''label='' @ concat (map escape_char l)"

definition carries :: "string \<Rightarrow> string \<Rightarrow> bool" where
  "carries t buf \<longleftrightarrow> (\<exists>a b. buf = a @ t @ b)"

lemma carries_append [simp]: "carries t buf \<Longrightarrow> carries t (buf @ x)"
  by (fastforce simp: carries_def)

lemma carries_statement:
  assumes "carries t buf" shows "carries t (mb_statement calls buf)"
proof -
  obtain x where "mb_statement calls buf = buf @ x" using mb_statement_appends by blast
  with assms show ?thesis by simp
qed

lemma carries_prefixed:
  assumes "tags_of buf tb x" and "carries t buf \<or> (t \<noteq> [] \<and> carries t x)"
  shows "carries t (tb_prefixed_command p c tb)"
proof -
  obtain y where y: "tb_prefixed_command p c tb = (if x = [] then buf else buf @ ''@'' @ x) @ y"
    using prefixed_command_appends [OF assms(1)] by blast
  show ?thesis
  proof (cases "carries t buf")
    case True
    then have "carries t (buf @ (if x = [] then y else ''@'' @ x @ y))" by (rule carries_append)
    then show ?thesis unfolding y by (simp split: if_splits)
  next
    case False
    then obtain a b where ab: "x = a @ t @ b" "t \<noteq> []" using assms(2) by (auto simp: carries_def)
    then have "tb_prefixed_command p c tb = (buf @ ''@'' @ a) @ t @ (b @ y)" unfolding y by simp
    then show ?thesis unfolding carries_def by blast
  qed
qed

lemma label_tag_carries:
  assumes "tags_of buf tb x"
  shows "\<exists>y. tags_of buf (tb_tag ''label'' (Some l) tb) y \<and> carries (label_text l) y"
proof -
  obtain y where "tags_of buf (tb_tag ''label'' (Some l) tb) (x @ y @ ''label'' @ ''='' @ concat (map escape_char l))"
    using tags_of_tag [OF assms, of "''label''" "Some l"] by auto
  moreover have "carries (label_text l) (x @ y @ ''label'' @ ''='' @ concat (map escape_char l))"
    unfolding carries_def label_text_def by (intro exI [of _ "x @ y"] exI [of _ "[]"]) simp
  ultimately show ?thesis by blast
qed

lemma label_text_nonempty: "label_text l \<noteq> []"
  by (simp add: label_text_def)

section \<open>The invariant\<close>

text \<open>The server opens at most one batch: the one of the labeled response.  Every message resets the
  label; only \<open>lr_batch_begin\<close> opens a batch.\<close>

definition rb_inv :: "string \<Rightarrow> reply_buffer \<Rightarrow> bool" where
  "rb_inv l rb \<longleftrightarrow>
     (rb_batch rb = None \<or> (rb_batch rb = Some 0 \<and> \<not> rb_has_label rb))
     \<and> rb_label rb = l \<and> (rb_has_label rb \<longrightarrow> rb_buf rb = [])
     \<and> (l \<noteq> [] \<longrightarrow> rb_has_label rb \<or> carries (label_text l) (rb_buf rb))"

lemma rb_tagged_statement_fields [simp]:
  "rb_batch (rb_tagged_statement tgs kvs p c cs rb) = rb_batch rb"
  "rb_has_label (rb_tagged_statement tgs kvs p c cs rb) = False"
  "rb_label (rb_tagged_statement tgs kvs p c cs rb) = rb_label rb"
  by (simp_all add: rb_tagged_statement_def rb_tagged_message_def Let_def)

lemma rb_tagged_statement_nonempty [simp]: "rb_buf (rb_tagged_statement tgs kvs p c cs rb) \<noteq> []"
  by (simp add: rb_tagged_statement_def mb_statement_def mb_drop_def crlf_def split: prod.splits)

lemma rb_tagged_statement_carries:
  assumes "rb_has_label rb \<and> t = label_text (rb_label rb) \<or> carries t (rb_buf rb) "
  shows "carries t (rb_buf (rb_tagged_statement tgs kvs p c cs rb))"
proof -
  let ?msg0 = "buffer_tagged_message tgs (rb_buf rb)"
  let ?msg1 = "if rb_has_label rb then tb_tag ''label'' (Some (rb_label rb)) ?msg0 else ?msg0"
  obtain x0 where x0: "tags_of (rb_buf rb) ?msg0 x0" using tags_of_tagged by blast
  have "\<exists>x. tags_of (rb_buf rb) ?msg1 x \<and> (carries t (rb_buf rb) \<or> (t \<noteq> [] \<and> carries t x))"
    using label_tag_carries [OF x0, of "rb_label rb"] label_text_nonempty x0 assms
      tags_of_tag [OF x0, of "''label''" "Some (rb_label rb)"] by auto
  then obtain x1 where x1: "tags_of (rb_buf rb) ?msg1 x1" "carries t (rb_buf rb) \<or> (t \<noteq> [] \<and> carries t x1)"
    by blast
  let ?msg2 = "case rb_batch rb of Some batch \<Rightarrow> tb_tag ''batch'' (Some (show_nat batch)) ?msg1 | None \<Rightarrow> ?msg1"
  have "\<exists>y. tags_of (rb_buf rb) ?msg2 (x1 @ y)"
  proof (cases "rb_batch rb")
    case None
    then show ?thesis using x1(1) by (intro exI [of _ "[]"]) simp
  next
    case (Some n)
    then show ?thesis using tags_of_tag [OF x1(1), of "''batch''" "Some (show_nat n)"] by auto
  qed
  then obtain y where "tags_of (rb_buf rb) ?msg2 (x1 @ y)" by blast
  from tags_of_tag_list [OF this, of kvs]
  obtain z where "tags_of (rb_buf rb) (fold (\<lambda>(k, v). tb_tag k v) kvs ?msg2) ((x1 @ y) @ z)" by auto
  then have "carries t (tb_prefixed_command p c (fold (\<lambda>(k, v). tb_tag k v) kvs ?msg2))"
    by (rule carries_prefixed) (use x1(2) in auto)
  then show ?thesis
    by (simp add: rb_tagged_statement_def rb_tagged_message_def Let_def carries_statement split: option.splits)
qed

lemma rb_inv_new [simp, inv_intros]: "rb_inv l (rb_new d n l)"
  by (simp add: rb_inv_def rb_new_def)

lemma rb_inv_tagged_statement [simp]:
  "rb_inv l rb \<Longrightarrow> rb_inv l (rb_tagged_statement tgs kvs p c cs rb)"
  using rb_tagged_statement_carries [of rb "label_text l" tgs kvs p c cs] by (auto simp: rb_inv_def)

lemma rb_inv_statements [simp, inv_intros]:
  "rb_inv l rb \<Longrightarrow> rb_inv l (rb_message p c cs rb)"
  "rb_inv l rb \<Longrightarrow> rb_inv l (rb_prefixed_message c cs rb)"
  "rb_inv l rb \<Longrightarrow> rb_inv l (rb_reply c cs rb)"
  "rb_inv l rb \<Longrightarrow> rb_inv l (rb_set_nick n rb)"
  by (simp_all add: rb_message_def rb_prefixed_message_def rb_reply_def)
    (simp add: rb_inv_def rb_set_nick_def)

lemma rb_inv_lr_batch_begin [simp, inv_intros]:
  assumes "rb_inv l rb" shows "rb_inv l (rb_lr_batch_begin rb)"
proof (cases "rb_has_label rb")
  case True
  then have *: "rb_batch rb = None" "rb_label rb = l" using assms by (auto simp: rb_inv_def)
  obtain x where "tags_of (rb_buf rb) (buffer_tagged_message [] (rb_buf rb)) x" using tags_of_tagged by blast
  then obtain y where "tags_of (rb_buf rb) (tb_tag ''label'' (Some l) (buffer_tagged_message [] (rb_buf rb))) y"
    "carries (label_text l) y" using label_tag_carries by blast
  then have "carries (label_text l) (mb_statement cs (tb_prefixed_command p c
      (tb_tag ''label'' (Some l) (buffer_tagged_message [] (rb_buf rb)))))" for cs p c
    using carries_prefixed carries_statement label_text_nonempty by blast
  then show ?thesis using True * by (simp add: rb_lr_batch_begin_def rb_new_batch_def Let_def rb_inv_def)
qed (use assms in \<open>simp add: rb_lr_batch_begin_def\<close>)

text \<open>So the panic of \<open>lr_end\<close> is out of reach, and a labelled request has been answered.\<close>

lemma rb_lr_end_no_panic:
  assumes "rb_inv l rb"
  shows "\<exists>rb'. rb_lr_end rb = Some rb' \<and> (l \<noteq> [] \<longrightarrow> carries (label_text l) (rb_buf rb'))"
proof (cases "rb_has_label rb")
  case True
  then have "rb_inv l (rb_prefixed_message (Reply ''ACK'') [] rb)" using assms by simp
  then have "l \<noteq> [] \<longrightarrow> carries (label_text l) (rb_buf (rb_prefixed_message (Reply ''ACK'') [] rb))"
    by (simp add: rb_inv_def rb_prefixed_message_def rb_message_def)
  then show ?thesis using True assms by (auto simp: rb_lr_end_def rb_inv_def Let_def rb_is_empty_def)
next
  case False
  show ?thesis
  proof (cases "rb_batch rb")
    case None
    then show ?thesis using False assms by (simp add: rb_lr_end_def rb_inv_def)
  next
    case (Some n)
    then have n: "n = 0" using assms by (simp add: rb_inv_def)
    let ?rb = "rb_prefixed_message (Reply ''BATCH'') [FmtParam (''-'' @ show_nat 0)] (rb\<lparr>rb_batch := None\<rparr>)"
    have "rb_inv l (rb\<lparr>rb_batch := None\<rparr>)" using assms by (simp add: rb_inv_def)
    then have inv: "rb_inv l ?rb" by simp
    have fields: "rb_batch ?rb = None" "\<not> rb_has_label ?rb" "rb_buf ?rb \<noteq> []"
      by (simp_all add: rb_prefixed_message_def rb_message_def)
    show ?thesis using Some n inv fields False
      by (auto simp: rb_lr_end_def rb_batch_end_def Let_def rb_is_empty_def rb_inv_def)
  qed
qed

end
