(* ===== verification/ServerInv.thy ===== *)
theory ServerInv
  imports ReplyInv
begin

text \<open>
  The invariant of the server, and a rule format in which one proof per operation gives two results.
  \<open>wp b m P\<close> says that \<open>P\<close> holds of the result of \<open>m\<close>, where a panic is allowed when \<open>b\<close> holds: for
  \<open>b = True\<close> it is partial correctness for every input, for \<open>b = False\<close> the computation also has
  a result, which needs ASCII texts.
\<close>

section \<open>Weakest preconditions for panics\<close>

definition wp :: "bool \<Rightarrow> 'a option \<Rightarrow> ('a \<Rightarrow> bool) \<Rightarrow> bool" where
  "wp b m P = (case m of None \<Rightarrow> b | Some x \<Rightarrow> P x)"

named_theorems wp_rules "rules for wp"

lemma wp_Some [simp]: "wp b (Some x) P = P x"
  by (simp add: wp_def)

lemma wpI: "(\<And>x. m = Some x \<Longrightarrow> P x) \<Longrightarrow> wp True m P"
  by (cases m) (simp_all add: wp_def)

lemma wp_None [simp]: "wp b None P = b"
  by (simp add: wp_def)

lemma wp_bind [simp]: "wp b (Option.bind m f) P = wp b m (\<lambda>x. wp b (f x) P)"
  by (cases m) simp_all

lemma wp_case_option [simp]:
  "wp b (case m of None \<Rightarrow> None | Some x \<Rightarrow> f x) P = wp b m (\<lambda>x. wp b (f x) P)"
  by (cases m) simp_all

lemma wp_map_option [simp]: "wp b (map_option f m) P = wp b m (\<lambda>x. P (f x))"
  by (cases m) simp_all

lemma wp_mono: "wp b m P \<Longrightarrow> (\<And>x. m = Some x \<Longrightarrow> P x \<Longrightarrow> Q x) \<Longrightarrow> wp b m Q"
  by (cases m) simp_all

lemma wp_get: "iget i m = Some c \<Longrightarrow> P c \<Longrightarrow> wp b (iget i m) P"
  by simp

lemma wp_partial: "wp True m P \<Longrightarrow> m = Some x \<Longrightarrow> P x"
  by simp

lemma wp_total: "wp False m P \<Longrightarrow> \<exists>x. m = Some x \<and> P x"
  by (cases m) simp_all

section \<open>Deliveries\<close>

text \<open>All the loops that send to clients append deliveries to the record of what has been sent, and
  change nothing else.\<close>

definition post :: "server \<Rightarrow> (nat \<times> queue_item) list \<Rightarrow> server" where
  "post sv d = sv\<lparr>sv_sent := sv_sent sv @ d\<rparr>"

definition deliveries ::
  "(nat \<Rightarrow> client \<Rightarrow> queue_item option) \<Rightarrow> client itable \<Rightarrow> nat list \<Rightarrow> (nat \<times> queue_item) list" where
  "deliveries item clients ms =
     concat (map (\<lambda>m. case iget m clients of
                        None \<Rightarrow> []
                      | Some c \<Rightarrow> (case item m c of None \<Rightarrow> [] | Some it \<Rightarrow> [(m, client_send c it)])) ms)"

lemma post_post [simp]: "post (post sv d) e = post sv (d @ e)"
  by (simp add: post_def)

lemma post_Nil [simp]: "post sv [] = sv"
  by (simp add: post_def)

lemma deliveries_Nil [simp]: "deliveries item clients [] = []"
  by (simp add: deliveries_def)

lemma deliveries_Cons:
  "deliveries item clients (m # ms) =
     (case iget m clients of
        None \<Rightarrow> []
      | Some c \<Rightarrow> (case item m c of None \<Rightarrow> [] | Some it \<Rightarrow> [(m, client_send c it)]))
     @ deliveries item clients ms"
  by (simp add: deliveries_def)

lemma post_fields [simp]:
  "sv_clients (post sv d) = sv_clients sv" "sv_nicks (post sv d) = sv_nicks sv"
  "sv_channels (post sv d) = sv_channels sv" "sv_sent (post sv d) = sv_sent sv @ d"
  "sv_default_chan_mode (post sv d) = sv_default_chan_mode sv"
  "sv_keylen (post sv d) = sv_keylen sv" "sv_domain (post sv d) = sv_domain sv"
  "sv_kicklen (post sv d) = sv_kicklen sv" "sv_opers (post sv d) = sv_opers sv"
  by (simp_all add: post_def)

lemma send_post: "send i c item sv = post sv [(i, client_send c item)]"
  by (simp add: send_def post_def)

lemma send_each_post:
  "send_each item ms sv =
     (if \<forall>m \<in> set ms. ihas m (sv_clients sv)
      then Some (post sv (deliveries item (sv_clients sv) ms)) else None)"
  by (induction ms arbitrary: sv)
    (auto simp: send_post deliveries_Cons thas_def split: option.splits)

lemma send_noticed_post:
  "send_noticed issuer msg flt ts sv =
     post sv (deliveries (\<lambda>t c. if issuer = t \<or> \<not> flt t c then None else Some msg) (sv_clients sv) ts)"
  by (induction ts arbitrary: sv) (auto simp: send_post deliveries_Cons split: option.splits)

lemma send_notification_post:
  "send_notification issuer msg flt sv =
     post sv (deliveries (\<lambda>t c. if issuer = t \<or> \<not> flt t c then None else Some msg) (sv_clients sv)
       (noticed issuer sv))"
  by (simp add: send_notification_def send_noticed_post)

lemma send_capable_post:
  "send_capable i command msg ts sv =
     post sv (deliveries (\<lambda>t c. if t = i \<or> \<not> is_capable_of (cl_cap_enabled c) command then None else Some msg)
       (sv_clients sv) ts)"
  by (induction ts arbitrary: sv) (auto simp: send_post deliveries_Cons split: option.splits)

lemmas send_posts = send_post send_each_post send_notification_post send_capable_post

section \<open>The invariant\<close>

definition full_name_ok :: "client \<Rightarrow> bool" where
  "full_name_ok c \<longleftrightarrow>
     (cl_full_name c = [] \<and> cl_nick c = ''*'' \<and> cl_user c = [])
     \<or> cl_full_name c = cl_nick c @ ''!~'' @ cl_user c @ ''@'' @ cl_host c"

definition client_ok :: "client \<Rightarrow> bool" where
  "client_ok c \<longleftrightarrow>
     (cl_nick c = ''*'' \<or> nickname_ok (cl_nick c))
     \<and> (nick_given (cl_state c) \<longrightarrow> cl_nick c \<noteq> ''*'')
     \<and> full_name_ok c"

definition clients_ok :: "client itable \<Rightarrow> bool" where
  "clients_ok clients \<longleftrightarrow>
     tok ikey clients \<and> (\<forall>i c. iget i clients = Some c \<longrightarrow> client_ok c)"

text \<open>The nickname table and the nicknames of the clients agree, up to case.\<close>

definition nicks_ok :: "client itable \<Rightarrow> nat utable \<Rightarrow> bool" where
  "nicks_ok clients nicks \<longleftrightarrow>
     tok ukey nicks \<and> uget ''*'' nicks = None
     \<and> (\<forall>n i. uget n nicks = Some i \<longrightarrow> (\<exists>c. iget i clients = Some c \<and> ukey (cl_nick c) = ukey n))
     \<and> (\<forall>i c. iget i clients = Some c \<longrightarrow> cl_nick c \<noteq> ''*'' \<longrightarrow> uget (cl_nick c) nicks = Some i)"

text \<open>The members of a channel are registered clients.\<close>

definition registered_id :: "client itable \<Rightarrow> nat \<Rightarrow> bool" where
  "registered_id clients m \<longleftrightarrow> (\<exists>c. iget m clients = Some c \<and> client_is_registered c)"

definition chan_ok :: "client itable \<Rightarrow> channel \<Rightarrow> bool" where
  "chan_ok clients ch \<longleftrightarrow>
     tok ikey (ch_members ch) \<and> (\<forall>m \<in> set (tkeys (ch_members ch)). registered_id clients m)"

definition channels_ok :: "client itable \<Rightarrow> channel utable \<Rightarrow> bool" where
  "channels_ok clients chans \<longleftrightarrow>
     tok ukey chans \<and> (\<forall>e \<in> set chans. is_valid_channel_name (fst e) \<and> chan_ok clients (snd e))"

definition server_inv :: "server \<Rightarrow> bool" where
  "server_inv sv \<longleftrightarrow>
     clients_ok (sv_clients sv) \<and> nicks_ok (sv_clients sv) (sv_nicks sv)
     \<and> channels_ok (sv_clients sv) (sv_channels sv)"

text \<open>The texts that are matched against masks.\<close>

definition client_ascii :: "client \<Rightarrow> bool" where
  "client_ascii c \<longleftrightarrow>
     ascii_str (cl_nick c) \<and> ascii_str (cl_user c) \<and> ascii_str (cl_host c) \<and> ascii_str (cl_full_name c)"

definition server_ascii :: "server \<Rightarrow> bool" where
  "server_ascii sv \<longleftrightarrow>
     (\<forall>i c. iget i (sv_clients sv) = Some c \<longrightarrow> client_ascii c)
     \<and> (\<forall>e \<in> set (sv_nicks sv). ascii_str (fst e)) \<and> (\<forall>e \<in> set (sv_channels sv). ascii_str (fst e))"

definition good :: "bool \<Rightarrow> server \<Rightarrow> bool" where
  "good b sv \<longleftrightarrow> server_inv sv \<and> (\<not> b \<longrightarrow> server_ascii sv)"

text \<open>What a handler may do to the clients: nothing to those that did not issue the request; the issuer
  keeps its connection state and does not become an operator.  What has been sent stays sent.\<close>

definition grown :: "server \<Rightarrow> server \<Rightarrow> bool" where
  "grown sv sv' \<longleftrightarrow> (\<exists>d. sv_sent sv' = sv_sent sv @ d)"

definition kept :: "nat \<Rightarrow> server \<Rightarrow> server \<Rightarrow> bool" where
  "kept i sv sv' \<longleftrightarrow>
     grown sv sv'
     \<and> (\<forall>j. j \<noteq> i \<longrightarrow> iget j (sv_clients sv') = iget j (sv_clients sv))
     \<and> (\<forall>c'. iget i (sv_clients sv') = Some c' \<longrightarrow>
          (\<exists>c. iget i (sv_clients sv) = Some c \<and> cl_state c' = cl_state c \<and> (cl_operator c' \<longrightarrow> cl_operator c)))"

lemma grown_refl [simp]: "grown sv sv"
  by (simp add: grown_def)

lemma grown_trans [trans]: "grown a b \<Longrightarrow> grown b c \<Longrightarrow> grown a c"
  by (auto simp: grown_def)

lemma grown_post [simp]: "grown sv sv' \<Longrightarrow> grown sv (post sv' d)"
  by (auto simp: grown_def)

lemma grown_clients [simp]: "grown sv (sv'\<lparr>sv_clients := x\<rparr>) = grown sv sv'"
  "grown sv (sv'\<lparr>sv_nicks := y\<rparr>) = grown sv sv'" "grown sv (sv'\<lparr>sv_channels := z\<rparr>) = grown sv sv'"
  by (simp_all add: grown_def)

lemma kept_refl [simp]: "kept i sv sv"
  by (simp add: kept_def)

lemma kept_grown: "kept i sv sv' \<Longrightarrow> grown sv sv'"
  by (simp add: kept_def)

lemma same_tables:
  assumes "sv_clients sv' = sv_clients sv" "sv_nicks sv' = sv_nicks sv" "sv_channels sv' = sv_channels sv"
  shows "good b sv' = good b sv" and "grown sv sv' \<Longrightarrow> kept i sv sv'"
  using assms by (simp_all add: good_def server_inv_def server_ascii_def kept_def)

lemma good_post [simp]: "good b (post sv d) = good b sv"
  by (rule same_tables; simp)

lemma kept_post [simp]: "kept i sv (post sv d)"
  by (rule same_tables) simp_all

lemma kept_post_right [simp]: "kept i sv sv' \<Longrightarrow> kept i sv (post sv' d)"
  by (simp add: kept_def)

section \<open>Consequences\<close>

lemma goodI: "server_inv sv \<Longrightarrow> \<not> b \<longrightarrow> server_ascii sv \<Longrightarrow> good b sv"
  by (simp add: good_def)

lemma good_inv: "good b sv \<Longrightarrow> server_inv sv"
  by (simp add: good_def)

lemma inv_client_ok: "server_inv sv \<Longrightarrow> iget i (sv_clients sv) = Some c \<Longrightarrow> client_ok c"
  by (simp add: server_inv_def clients_ok_def)

lemma inv_nick_client:
  "server_inv sv \<Longrightarrow> uget n (sv_nicks sv) = Some i \<Longrightarrow>
     \<exists>c. iget i (sv_clients sv) = Some c \<and> ukey (cl_nick c) = ukey n"
  by (simp add: server_inv_def nicks_ok_def)

lemma inv_client_nick:
  "server_inv sv \<Longrightarrow> iget i (sv_clients sv) = Some c \<Longrightarrow> cl_nick c \<noteq> ''*'' \<Longrightarrow>
     uget (cl_nick c) (sv_nicks sv) = Some i"
  by (simp add: server_inv_def nicks_ok_def)

lemma inv_no_star: "server_inv sv \<Longrightarrow> uget ''*'' (sv_nicks sv) = None"
  by (simp add: server_inv_def nicks_ok_def)

lemma inv_nicks_values:
  "server_inv sv \<Longrightarrow> e \<in> set (sv_nicks sv) \<Longrightarrow> ihas (snd e) (sv_clients sv)"
proof -
  assume inv: "server_inv sv" and e: "e \<in> set (sv_nicks sv)"
  then have "uget (fst e) (sv_nicks sv) = Some (snd e)"
    by (cases e) (auto simp: server_inv_def nicks_ok_def intro: tget_in)
  then show ?thesis using inv_nick_client [OF inv] by (fastforce simp: thas_def)
qed

lemma inv_entry:
  "server_inv sv \<Longrightarrow> e \<in> set (sv_channels sv) \<Longrightarrow>
     is_valid_channel_name (fst e) \<and> chan_ok (sv_clients sv) (snd e)"
  by (simp add: server_inv_def channels_ok_def)

lemma inv_channel:
  assumes "server_inv sv" and "uget n (sv_channels sv) = Some ch"
  shows "chan_ok (sv_clients sv) ch"
  using tget_SomeD [OF assms(2)] inv_entry [OF assms(1)] by fastforce

lemma chan_ok_members:
  "chan_ok clients ch \<Longrightarrow> m \<in> set (tkeys (ch_members ch)) \<Longrightarrow> ihas m clients"
  by (fastforce simp: chan_ok_def registered_id_def thas_def)

lemma chan_ok_others: "chan_ok clients ch \<Longrightarrow> m \<in> set (others i ch) \<Longrightarrow> ihas m clients"
  by (auto simp: others_def intro: chan_ok_members)

lemma registered_nick:
  assumes "server_inv sv" and "iget i (sv_clients sv) = Some c" and "client_is_registered c"
  shows "uget (cl_nick c) (sv_nicks sv) = Some i" and "nickname_ok (cl_nick c)"
    and "cl_full_name c = cl_nick c @ ''!~'' @ cl_user c @ ''@'' @ cl_host c"
proof -
  have ok: "client_ok c" using assms by (simp add: inv_client_ok)
  then have "cl_nick c \<noteq> ''*''"
    using assms(3) by (simp add: client_ok_def client_is_registered_def nick_given_def)
  then show "uget (cl_nick c) (sv_nicks sv) = Some i" "nickname_ok (cl_nick c)"
    "cl_full_name c = cl_nick c @ ''!~'' @ cl_user c @ ''@'' @ cl_host c"
    using assms ok inv_client_nick [OF assms(1,2)] by (auto simp: client_ok_def full_name_ok_def)
qed

lemma star_not_nick: "\<not> nickname_ok ''*''"
  by code_simp

end
