(* ===== verification/QueriesInv.thy ===== *)
theory QueriesInv
  imports ServerInv
begin

text \<open>
  The handlers that only answer leave the state alone, keep the discipline of the reply buffer, and
  do not panic in a state that satisfies the invariant.
\<close>

definition answers :: "string \<Rightarrow> server \<Rightarrow> handler_result \<times> server \<times> reply_buffer \<Rightarrow> bool" where
  "answers lb sv res \<longleftrightarrow> fst (snd res) = sv \<and> rb_inv lb (snd (snd res))"

lemma answersI [simp]: "answers lb sv (r, sv', rb) \<longleftrightarrow> sv' = sv \<and> rb_inv lb rb"
  by (simp add: answers_def)

text \<open>Replies keep the buffer's discipline.\<close>

lemma rb_inv_fold [simp]: "(\<And>x rb. rb_inv lb rb \<Longrightarrow> rb_inv lb (f x rb)) \<Longrightarrow> rb_inv lb rb \<Longrightarrow> rb_inv lb (fold f xs rb)"
  by (induction xs arbitrary: rb) auto

lemma rb_inv_send_i_support [simp, inv_intros]: "rb_inv lb rb \<Longrightarrow> rb_inv lb (send_i_support sv rb)"
  by (simp add: send_i_support_def)

lemma rb_inv_send_lusers [simp, inv_intros]: "rb_inv lb rb \<Longrightarrow> rb_inv lb (send_lusers i sv rb)"
  by (simp add: send_lusers_def Let_def)

lemma rb_inv_send_motd [simp, inv_intros]: "rb_inv lb rb \<Longrightarrow> rb_inv lb (send_motd sv rb)"
  by (auto simp: send_motd_def Let_def intro!: rb_inv_fold split: option.splits)

lemma rb_inv_shared [simp, inv_intros]:
  "rb_inv lb rb \<Longrightarrow> rb_inv lb (reply_no_such_channel name rb)"
  "rb_inv lb rb \<Longrightarrow> rb_inv lb (users_dont_match nick rb)"
  "rb_inv lb rb \<Longrightarrow> rb_inv lb (end_of_who name rb)"
  "rb_inv lb rb \<Longrightarrow> rb_inv lb (list_line name ch rb)"
  "rb_inv lb rb \<Longrightarrow> rb_inv lb (who_line sv issuer target name modes rb)"
  by (simp_all add: reply_no_such_channel_def users_dont_match_def end_of_who_def list_line_def
      who_line_def)

lemma find_channel_Inl: "find_channel name sv rb = Inl rb' \<Longrightarrow> rb_inv lb rb \<Longrightarrow> rb_inv lb rb'"
  by (auto simp: find_channel_def split: option.splits)

lemma find_channel_Inr: "find_channel name sv rb = Inr ch \<longleftrightarrow> uget name (sv_channels sv) = Some ch"
  by (auto simp: find_channel_def split: option.splits)

lemma find_member_Inl: "find_member i ch name rb = Inl rb' \<Longrightarrow> rb_inv lb rb \<Longrightarrow> rb_inv lb rb'"
  by (auto simp: find_member_def split: option.splits)

lemma find_member_Inr: "find_member i ch name rb = Inr m \<longleftrightarrow> iget i (ch_members ch) = Some m"
  by (auto simp: find_member_def split: option.splits)

text \<open>\<open>find_nick\<close> never panics: the nickname table only holds connected clients.\<close>

lemma find_nick_cases:
  assumes "server_inv sv"
  obtains (missing) rb' where "find_nick nick sv rb = Some (Inl rb')" "\<forall>lb. rb_inv lb rb \<longrightarrow> rb_inv lb rb'"
  | (found) j c where "find_nick nick sv rb = Some (Inr (j, c))" "iget j (sv_clients sv) = Some c"
      "client_is_registered c" "uget nick (sv_nicks sv) = Some j" "ukey (cl_nick c) = ukey nick"
proof (cases "uget nick (sv_nicks sv)")
  case None
  then show ?thesis
    by (intro missing [of "rb_reply (Reply rpl_ERR_NOSUCHNICK) [Param nick, TrailingParam lines_NO_SUCH_NICK] rb"])
      (simp_all add: find_nick_def)
next
  case (Some j)
  then obtain c where c: "iget j (sv_clients sv) = Some c" "ukey (cl_nick c) = ukey nick"
    using inv_nick_client [OF assms] by blast
  show ?thesis
  proof (cases "client_is_registered c")
    case True
    then show ?thesis using Some c by (intro found) (simp_all add: find_nick_def Let_def)
  next
    case False
    then show ?thesis using Some c
      by (intro missing [of "rb_reply (Reply rpl_ERR_NOSUCHNICK) [Param nick, TrailingParam lines_NO_SUCH_NICK] rb"])
        (simp_all add: find_nick_def)
  qed
qed

lemma wp_find_nick:
  assumes "server_inv sv"
    and "\<And>rb'. \<forall>lb. rb_inv lb rb \<longrightarrow> rb_inv lb rb' \<Longrightarrow> P (Inl rb')"
    and "\<And>j c. iget j (sv_clients sv) = Some c \<Longrightarrow> client_is_registered c \<Longrightarrow>
          uget nick (sv_nicks sv) = Some j \<Longrightarrow> ukey (cl_nick c) = ukey nick \<Longrightarrow> P (Inr (j, c))"
  shows "wp b (find_nick nick sv rb) P"
proof (cases rule: find_nick_cases [OF assms(1), of nick rb, case_names missing found])
  case (missing rb')
  then show ?thesis using assms(2) by simp
next
  case (found j c)
  then show ?thesis using assms(3) by simp
qed

section \<open>Names and topics\<close>

lemma names_text_total: "\<forall>m \<in> set (tkeys ms). ihas m clients \<Longrightarrow> names_text caps clients ms \<noteq> None"
  by (induction ms) (auto simp: tkeys_def thas_def)

lemma wp_send_names:
  assumes "server_inv sv" and "ihas i (sv_clients sv)" and "rb_inv lb rb"
  shows "wp b (send_names i name sv rb) (rb_inv lb)"
proof (cases "uget name (sv_channels sv)")
  case (Some ch)
  obtain c where c: "iget i (sv_clients sv) = Some c" using assms(2) by (auto simp: thas_def)
  have "\<forall>m \<in> set (tkeys (ch_members ch)). ihas m (sv_clients sv)"
    using chan_ok_members [OF inv_channel [OF assms(1) Some]] by blast
  then obtain nt where "names_text (cl_cap_enabled c) (sv_clients sv) (ch_members ch) = Some nt"
    using names_text_total by blast
  with Some c assms(3) show ?thesis by (simp add: send_names_def)
qed (simp add: send_names_def assms)

lemma wp_send_topic:
  assumes "uget name (sv_channels sv) = Some ch" and "rb_inv lb rb"
  shows "wp b (send_topic name e sv rb) (rb_inv lb)"
  using assms by (simp add: send_topic_def split: option.splits)

lemma wp_names_loop:
  assumes "server_inv sv" and "ihas i (sv_clients sv)"
  shows "rb_inv lb rb \<Longrightarrow> wp b (names_loop i ts sv rb) (rb_inv lb)"
proof (induction ts arbitrary: rb)
  case (Cons t ts)
  have "wp b (send_names i t sv rb) (rb_inv lb)" using wp_send_names [OF assms Cons.prems] .
  then have "wp b (send_names i t sv rb) (\<lambda>rb. wp b (names_loop i ts sv rb) (rb_inv lb))"
    by (rule wp_mono) (rule Cons.IH)
  then show ?case by simp
qed simp

section \<open>WHO\<close>

lemma wp_who_user:
  "ihas t (sv_clients sv) \<Longrightarrow> rb_inv lb rb \<Longrightarrow> wp b (who_user i issuer t flt sv rb) (rb_inv lb)"
  by (auto simp: who_user_def thas_def Let_def split: option.splits)

lemma wp_who_users:
  "\<forall>t \<in> set ts. ihas t (sv_clients sv) \<Longrightarrow> rb_inv lb rb \<Longrightarrow> wp b (who_users i issuer ts flt sv rb) (rb_inv lb)"
proof (induction ts arbitrary: rb)
  case (Cons t ts)
  have "wp b (who_user i issuer t flt sv rb) (rb_inv lb)" using Cons.prems by (intro wp_who_user) auto
  then have "wp b (who_user i issuer t flt sv rb) (\<lambda>rb. wp b (who_users i issuer ts flt sv rb) (rb_inv lb))"
    by (rule wp_mono) (use Cons in auto)
  then show ?case by simp
qed simp

lemma wp_who_members:
  "\<forall>m \<in> set (tkeys ms). ihas m (sv_clients sv) \<Longrightarrow> rb_inv lb rb \<Longrightarrow>
     wp b (who_members issuer name skip ms sv rb) (rb_inv lb)"
proof (induction ms arbitrary: rb)
  case (Cons e ms)
  obtain m modes where e: "e = (m, modes)" by fastforce
  then obtain c where "iget m (sv_clients sv) = Some c"
    using Cons.prems(1) by (auto simp: tkeys_def thas_def)
  then show ?case using Cons by (simp add: e tkeys_def)
qed simp

lemma wp_match_ascii: "b \<or> ascii_str s \<Longrightarrow> (\<And>m. P m) \<Longrightarrow> wp b (match_mask pat s) P"
  by (cases b) (auto simp: match_mask_glob wp_def split: option.splits)

lemma wp_who_mask_channels:
  "\<forall>e \<in> set cs. chan_ok (sv_clients sv) (snd e) \<and> (b \<or> ascii_str (fst e)) \<Longrightarrow> rb_inv lb rb \<Longrightarrow>
     wp b (who_mask_channels issuer msk cs sv rb) (rb_inv lb)"
proof (induction cs arbitrary: rb)
  case (Cons e cs)
  obtain name ch where e: "e = (name, ch)" by fastforce
  have ch: "chan_ok (sv_clients sv) ch" and "b \<or> ascii_str name" using Cons.prems e by auto
  have rest: "rb_inv lb rb' \<Longrightarrow> wp b (who_mask_channels issuer msk cs sv rb') (rb_inv lb)" for rb'
    using Cons by simp
  have "wp b (who_members issuer name (\<lambda>_ _. False) (ch_members ch) sv rb)
      (\<lambda>rb. wp b (who_mask_channels issuer msk cs sv rb) (rb_inv lb))"
    by (rule wp_mono [OF wp_who_members]) (use chan_ok_members [OF ch] Cons.prems(2) rest in auto)
  moreover have "wp b (who_mask_channels issuer msk cs sv rb) (rb_inv lb)" using rest Cons.prems(2) by blast
  ultimately show ?case
    using \<open>b \<or> ascii_str name\<close> by (auto simp: e intro!: wp_match_ascii)
qed simp

lemma wp_who_mask_nicks:
  "\<forall>e \<in> set ns. ihas (snd e) (sv_clients sv) \<and> (b \<or> ascii_str (fst e)) \<Longrightarrow> rb_inv lb rb \<Longrightarrow>
     wp b (who_mask_nicks i issuer msk ns flt sv rb) (rb_inv lb)"
proof (induction ns arbitrary: rb)
  case (Cons e ns)
  obtain nick t where e: "e = (nick, t)" by fastforce
  have t: "ihas t (sv_clients sv)" and "b \<or> ascii_str nick" using Cons.prems e by auto
  have rest: "rb_inv lb rb' \<Longrightarrow> wp b (who_mask_nicks i issuer msk ns flt sv rb') (rb_inv lb)" for rb'
    using Cons by simp
  have "wp b (who_user i issuer t flt sv rb) (\<lambda>rb. wp b (who_mask_nicks i issuer msk ns flt sv rb) (rb_inv lb))"
    by (rule wp_mono [OF wp_who_user [OF t Cons.prems(2)] rest])
  moreover have "wp b (who_mask_nicks i issuer msk ns flt sv rb) (rb_inv lb)" using rest Cons.prems(2) by blast
  ultimately show ?case
    using \<open>b \<or> ascii_str nick\<close> by (auto simp: e intro!: wp_match_ascii)
qed simp

section \<open>The handlers\<close>

lemma simple_queries:
  assumes "rb_inv lb rb"
  shows "wp b (cmd_admin sv rb) (answers lb sv)" "wp b (cmd_info sv rb) (answers lb sv)"
    "wp b (cmd_lusers i sv rb) (answers lb sv)" "wp b (cmd_motd sv rb) (answers lb sv)"
    "wp b (cmd_time env sv rb) (answers lb sv)" "wp b (cmd_version sv rb) (answers lb sv)"
    "wp b (cmd_ping p sv rb) (answers lb sv)" "wp b (cmd_pong sv rb) (answers lb sv)"
    "wp b (cmd_names_all sv rb) (answers lb sv)" "wp b (cmd_cap_end sv rb) (answers lb sv)"
  using assms
  by (auto simp: cmd_admin_def cmd_info_def cmd_lusers_def cmd_motd_def cmd_time_def cmd_version_def
      cmd_ping_def cmd_pong_def cmd_names_all_def cmd_cap_end_def Let_def intro!: rb_inv_fold)

lemma state_queries:
  assumes "good b sv" and "ihas i (sv_clients sv)" and "rb_inv lb rb"
  shows "wp b (cmd_list_all i sv rb) (answers lb sv)" "wp b (cmd_list i targets sv rb) (answers lb sv)"
    "wp b (cmd_names i targets sv rb) (answers lb sv)" "wp b (cmd_mode_channel_get i name sv rb) (answers lb sv)"
    "wp b (cmd_mode_user_get i nick sv rb) (answers lb sv)" "wp b (cmd_topic_get i name sv rb) (answers lb sv)"
    "wp b (cmd_cap_list i sv rb) (answers lb sv)"
proof -
  obtain c where c: "iget i (sv_clients sv) = Some c" using assms(2) by (auto simp: thas_def)
  note inv = good_inv [OF assms(1)]
  show "wp b (cmd_list_all i sv rb) (answers lb sv)" "wp b (cmd_list i targets sv rb) (answers lb sv)"
    using c assms(3)
    by (auto simp: cmd_list_all_def cmd_list_def Let_def intro!: rb_inv_fold split: option.splits)
  have "wp b (names_loop i (channel_names targets) sv (rb_lr_batch_begin rb)) (rb_inv lb)"
    using assms(3) by (intro wp_names_loop [OF inv assms(2)]) simp
  then show "wp b (cmd_names i targets sv rb) (answers lb sv)"
    by (auto simp: cmd_names_def elim: wp_mono)
  show "wp b (cmd_mode_channel_get i name sv rb) (answers lb sv)"
    using c assms(3) find_channel_Inl
    by (auto simp: cmd_mode_channel_get_def split: sum.splits)
  show "wp b (cmd_mode_user_get i nick sv rb) (answers lb sv)"
    using c assms(3) by (simp add: cmd_mode_user_get_def)
  show "wp b (cmd_cap_list i sv rb) (answers lb sv)"
    using c assms(3) by (simp add: cmd_cap_list_def)
  show "wp b (cmd_topic_get i name sv rb) (answers lb sv)"
  proof (cases "find_channel name sv rb")
    case (Inl rb')
    then show ?thesis using assms(3) find_channel_Inl by (auto simp: cmd_topic_get_def)
  next
    case (Inr ch)
    then have "wp b (send_topic name True sv rb) (rb_inv lb)"
      using assms(3) by (intro wp_send_topic) (simp add: find_channel_Inr)
    then have "wp b (send_topic name True sv rb) (\<lambda>rb. answers lb sv (HOk, sv, rb))" by simp
    then show ?thesis
      using Inr assms(3) find_member_Inl by (auto simp: cmd_topic_get_def split: sum.splits if_splits)
  qed
qed

lemma who_queries:
  assumes "good b sv" and "ihas i (sv_clients sv)" and "rb_inv lb rb"
  shows "wp b (cmd_who_all i flt sv rb) (answers lb sv)" "wp b (cmd_who_channel i name flt sv rb) (answers lb sv)"
    "is_valid_mask msk \<Longrightarrow> wp b (cmd_who_mask i msk flt sv rb) (answers lb sv)"
    "wp b (cmd_who_user i nick flt sv rb) (answers lb sv)"
proof -
  obtain c where c: "iget i (sv_clients sv) = Some c" using assms(2) by (auto simp: thas_def)
  note inv = good_inv [OF assms(1)]
  let ?rb = "rb_lr_batch_begin rb"
  have rb: "rb_inv lb ?rb" using assms(3) by simp
  have "wp b (who_users i c (map snd (sv_nicks sv)) flt sv ?rb) (rb_inv lb)"
    using inv_nicks_values [OF inv] by (intro wp_who_users rb) auto
  then show "wp b (cmd_who_all i flt sv rb) (answers lb sv)"
    using c assms(3) by (auto simp: cmd_who_all_def elim: wp_mono)
  show "wp b (cmd_who_channel i name flt sv rb) (answers lb sv)"
  proof (cases "uget name (sv_channels sv)")
    case (Some ch)
    have "wp b (who_members c name skip (ch_members ch) sv ?rb) (rb_inv lb)" for skip
      using chan_ok_members [OF inv_channel [OF inv Some]] by (intro wp_who_members rb) blast
    then have "wp b (who_members c name skip (ch_members ch) sv ?rb)
        (\<lambda>rb. answers lb sv (HOk, sv, end_of_who name rb))" for skip
      by (rule wp_mono) simp
    then show ?thesis using Some c rb by (simp add: cmd_who_channel_def Let_def)
  qed (simp add: cmd_who_channel_def assms)
  show "wp b (cmd_who_user i nick flt sv rb) (answers lb sv)"
  proof (cases "uget nick (sv_nicks sv)")
    case (Some t)
    then have "ihas t (sv_clients sv)" using inv_nick_client [OF inv] by (fastforce simp: thas_def)
    then have "wp b (who_user i c t flt sv ?rb) (rb_inv lb)" using rb by (rule wp_who_user)
    then have "wp b (who_user i c t flt sv ?rb) (\<lambda>rb. answers lb sv (HOk, sv, end_of_who nick rb))"
      by (rule wp_mono) simp
    then show ?thesis using Some c by (simp add: cmd_who_user_def Let_def)
  qed (simp add: cmd_who_user_def assms)
  show "wp b (cmd_who_mask i msk flt sv rb) (answers lb sv)" if valid: "is_valid_mask msk"
  proof -
    obtain x where x: "mask_is_channel msk = Some x"
      using valid by (cases msk) (simp_all add: is_valid_mask_def mask_is_channel_def)
    have ascii: "b \<or> server_ascii sv" using assms(1) by (auto simp: good_def)
    have "wp b (who_mask_channels c msk (sv_channels sv) sv ?rb) (rb_inv lb)"
      using inv_entry [OF inv] ascii by (intro wp_who_mask_channels rb) (auto simp: server_ascii_def)
    moreover have "wp b (who_mask_nicks i c msk (sv_nicks sv) flt sv ?rb) (rb_inv lb)"
      using inv_nicks_values [OF inv] ascii by (intro wp_who_mask_nicks rb) (auto simp: server_ascii_def)
    ultimately have "wp b (if x then who_mask_channels c msk (sv_channels sv) sv ?rb
        else who_mask_nicks i c msk (sv_nicks sv) flt sv ?rb) (\<lambda>rb. answers lb sv (HOk, sv, end_of_who msk rb))"
      by (auto elim: wp_mono)
    then show ?thesis using c x assms(3) by (simp add: cmd_who_mask_def Let_def)
  qed
qed

text \<open>The request finds a client whose last action is later than the present time.\<close>

definition idle_underflows :: "env \<Rightarrow> server \<Rightarrow> string \<Rightarrow> bool" where
  "idle_underflows env sv nick \<longleftrightarrow>
     (case uget nick (sv_nicks sv) of
        None \<Rightarrow> False
      | Some j \<Rightarrow>
          (case iget j (sv_clients sv) of
             None \<Rightarrow> False
           | Some c \<Rightarrow> client_is_registered c \<and> env_now env < cl_last_action_time c))"

lemma whois_query:
  assumes "server_inv sv" and "rb_inv lb rb" and "b \<or> \<not> idle_underflows env sv nick"
  shows "wp b (cmd_whois env nick sv rb) (answers lb sv)"
  unfolding cmd_whois_def wp_bind
  by (rule wp_find_nick [OF assms(1)])
    (use assms(2,3) in \<open>auto simp: Let_def idle_time_def idle_underflows_def split: option.splits\<close>)

lemma whois_underflow: "idle_underflows env sv nick \<Longrightarrow> cmd_whois env nick sv rb = None"
  by (auto simp: idle_underflows_def cmd_whois_def find_nick_def idle_time_def Let_def split: option.splits)

end
