(* ===== verification/UsersInv.thy ===== *)
theory UsersInv
  imports QueriesInv
begin

text \<open>
  The operations that change clients keep the invariant: arrivals and departures, and the handlers
  of \<open>V1Users\<close>.
\<close>

section \<open>Updates of one client\<close>

lemma iupd_good:
  assumes "good b sv"
    and f: "\<And>c. iget i (sv_clients sv) = Some c \<Longrightarrow> client_ok c \<Longrightarrow>
        cl_nick (f c) = cl_nick c \<and> client_ok (f c)
        \<and> (client_is_registered c \<longrightarrow> client_is_registered (f c))
        \<and> (\<not> b \<longrightarrow> client_ascii c \<longrightarrow> client_ascii (f c))"
  shows "good b (sv\<lparr>sv_clients := iupd i f (sv_clients sv)\<rparr>)"
proof -
  let ?cs = "sv_clients sv" and ?cs' = "iupd i f (sv_clients sv)"
  have inv: "server_inv sv" by (rule good_inv [OF assms(1)])
  have get: "iget j ?cs' = Some c' \<longleftrightarrow>
      (\<exists>c. iget j ?cs = Some c \<and> c' = (if j = i then f c else c))" for j c'
    by (auto simp: table split: if_splits)
  have reg: "registered_id ?cs m \<Longrightarrow> registered_id ?cs' m" for m
    using f inv_client_ok [OF inv] unfolding registered_id_def get by (metis (full_types))
  have "clients_ok ?cs'"
    using inv f by (auto simp: server_inv_def clients_ok_def get simp del: tget_tupd)
  moreover have "nicks_ok ?cs' (sv_nicks sv)"
    unfolding nicks_ok_def get
  proof (intro conjI allI impI)
    show "tok ukey (sv_nicks sv)" "uget ''*'' (sv_nicks sv) = None"
      using inv by (simp_all add: server_inv_def nicks_ok_def)
    fix n j assume "uget n (sv_nicks sv) = Some j"
    then obtain c where c: "iget j ?cs = Some c" "ukey (cl_nick c) = ukey n"
      using inv_nick_client [OF inv] by blast
    then show "\<exists>c'. (\<exists>c. iget j ?cs = Some c \<and> c' = (if j = i then f c else c)) \<and> ukey (cl_nick c') = ukey n"
      using f inv_client_ok [OF inv] by auto
  next
    fix j c'
    assume "\<exists>c. iget j ?cs = Some c \<and> c' = (if j = i then f c else c)" "cl_nick c' \<noteq> ''*''"
    then show "uget (cl_nick c') (sv_nicks sv) = Some j"
      using f inv_client_ok [OF inv] inv_client_nick [OF inv] by (auto split: if_splits)
  qed
  moreover have "channels_ok ?cs' (sv_channels sv)"
    using inv reg by (auto simp: server_inv_def channels_ok_def chan_ok_def)
  moreover have "\<not> b \<longrightarrow> server_ascii (sv\<lparr>sv_clients := ?cs'\<rparr>)"
    using assms(1) f inv_client_ok [OF inv]
    by (auto simp: good_def server_ascii_def get simp del: tget_tupd)
  ultimately show ?thesis by (simp add: good_def server_inv_def)
qed

lemma iupd_kept:
  assumes "\<And>c. iget i (sv_clients sv) = Some c \<Longrightarrow> cl_state (f c) = cl_state c \<and> (cl_operator (f c) \<longrightarrow> cl_operator c)"
  shows "kept i sv (sv\<lparr>sv_clients := iupd i f (sv_clients sv)\<rparr>)"
  using assms by (auto simp: kept_def table split: if_splits)

text \<open>Updates of fields that have nothing to do with names and states.\<close>

definition light :: "(client \<Rightarrow> client) \<Rightarrow> bool" where
  "light f \<longleftrightarrow> (\<forall>c. cl_nick (f c) = cl_nick c \<and> cl_user (f c) = cl_user c \<and> cl_host (f c) = cl_host c
     \<and> cl_full_name (f c) = cl_full_name c \<and> cl_state (f c) = cl_state c \<and> (cl_operator (f c) \<longrightarrow> cl_operator c))"

lemma light_good: "good b sv \<Longrightarrow> light f \<Longrightarrow> good b (sv\<lparr>sv_clients := iupd i f (sv_clients sv)\<rparr>)"
  by (rule iupd_good)
    (auto simp: light_def client_ok_def full_name_ok_def client_ascii_def client_is_registered_def)

lemma light_kept: "light f \<Longrightarrow> kept i sv (sv\<lparr>sv_clients := iupd i f (sv_clients sv)\<rparr>)"
  by (rule iupd_kept) (simp add: light_def)

lemma same_except_sent:
  "good b (sv\<lparr>sv_rehash_notified := n\<rparr>) = good b sv" "kept i sv (sv\<lparr>sv_rehash_notified := n\<rparr>)"
  by (rule same_tables; simp add: grown_def)+

section \<open>Departures and arrivals\<close>

lemma ukey_star: "ukey n = ukey ''*'' \<longleftrightarrow> n = ''*''"
proof
  assume "ukey n = ukey ''*''"
  moreover from this have "length n = 1" using length_unicase_hash [of Ascii n] by simp
  then obtain c where "n = [c]" by (cases n) auto
  ultimately have "canonical_byte_ascii c = canonical_byte_ascii (CHR ''*'')"
    by (simp add: unicase_hash_def)
  then have "c = CHR ''*''" unfolding canonical_byte_ascii_classes by auto
  with \<open>n = [c]\<close> show "n = ''*''" by simp
qed simp

lemma same_nick_same_client:
  assumes inv: "server_inv sv" and "iget i (sv_clients sv) = Some c" "iget j (sv_clients sv) = Some d"
    and "ukey (cl_nick c) = ukey (cl_nick d)" and "cl_nick d \<noteq> ''*''"
  shows "i = j"
proof -
  have "cl_nick c \<noteq> ''*''"
  proof
    assume "cl_nick c = ''*''"
    with assms(4) have "ukey (cl_nick d) = ukey ''*''" by simp
    with assms(5) show False by (simp add: ukey_star)
  qed
  then have "uget (cl_nick c) (sv_nicks sv) = Some i" "uget (cl_nick d) (sv_nicks sv) = Some j"
    using inv_client_nick [OF inv] assms by blast+
  moreover have "uget (cl_nick c) (sv_nicks sv) = uget (cl_nick d) (sv_nicks sv)"
    by (rule tget_cong) (rule assms(4))
  ultimately show ?thesis by simp
qed

lemma chan_ok_idel:
  assumes "chan_ok clients ch" and "i \<notin> set (tkeys (ch_members ch))"
  shows "chan_ok (idel i clients) ch"
  using assms by (auto simp: chan_ok_def registered_id_def table)

lemma tkeys_tdel: "tkeys (tdel f k m) = filter (\<lambda>x. f x \<noteq> f k) (tkeys m)"
  by (induction m) (auto simp: tkeys_def tdel_def)

lemma chan_ok_remove_member:
  "chan_ok clients ch \<Longrightarrow> chan_ok clients (ch\<lparr>ch_members := idel i (ch_members ch)\<rparr>)"
  by (auto simp: chan_ok_def tkeys_tdel)

lemma chan_ok_remove_both:
  "chan_ok clients ch \<Longrightarrow> chan_ok (idel i clients) (ch\<lparr>ch_members := idel i (ch_members ch)\<rparr>)"
  using chan_ok_idel [OF chan_ok_remove_member] by (simp add: tkeys_tdel)

lemma retain_without_ok:
  assumes "channels_ok clients chans"
  shows "channels_ok (idel i clients) (retain_without i chans)"
proof -
  have "tok ukey (map (\<lambda>e. (fst e, (snd e)\<lparr>ch_members := idel i (ch_members (snd e))\<rparr>)) chans)"
    using assms by (simp add: channels_ok_def tok_def comp_def)
  then show ?thesis
    using assms chan_ok_remove_both
    by (auto simp: channels_ok_def retain_without_def tok_filter)
qed

text \<open>The removal: tables, channels, notices.\<close>

lemma post_channels: "(post sv d)\<lparr>sv_channels := chans\<rparr> = post (sv\<lparr>sv_channels := chans\<rparr>) d"
  by (simp add: post_def)

lemma remove_client_shape:
  assumes "iget i (sv_clients sv) = Some c"
  shows "\<exists>d. remove_client i a e sv =
     post (sv\<lparr>sv_clients := idel i (sv_clients sv), sv_nicks := udel (cl_nick c) (sv_nicks sv),
              sv_channels := (if client_is_registered c then retain_without i (sv_channels sv)
                              else sv_channels sv)\<rparr>) d"
  using assms by (auto simp: remove_client_def Let_def send_posts post_channels)

lemma remove_client_good:
  assumes good: "good b sv"
  shows "good b (remove_client i a e sv)" and "kept i sv (remove_client i a e sv)"
    and "\<not> ihas i (sv_clients (remove_client i a e sv))"
proof -
  have inv: "server_inv sv" by (rule good_inv [OF good])
  have "good b (remove_client i a e sv) \<and> kept i sv (remove_client i a e sv)
    \<and> \<not> ihas i (sv_clients (remove_client i a e sv))"
  proof (cases "iget i (sv_clients sv)")
    case None
    then show ?thesis using good by (simp add: remove_client_def thas_def)
  next
    case (Some c)
    let ?clients = "idel i (sv_clients sv)" and ?nicks = "udel (cl_nick c) (sv_nicks sv)"
    let ?chans = "if client_is_registered c then retain_without i (sv_channels sv) else sv_channels sv"
    let ?sv = "sv\<lparr>sv_clients := ?clients, sv_nicks := ?nicks, sv_channels := ?chans\<rparr>"
    obtain d where d: "remove_client i a e sv = post ?sv d"
      using remove_client_shape [OF Some] by blast
    have "clients_ok ?clients" using inv by (simp add: server_inv_def clients_ok_def table)
    moreover have "nicks_ok ?clients ?nicks"
      unfolding nicks_ok_def
    proof (intro conjI allI impI)
      show "tok ukey ?nicks" "uget ''*'' ?nicks = None"
        using inv by (simp_all add: server_inv_def nicks_ok_def table)
      fix n j assume "uget n ?nicks = Some j"
      then have n: "ukey n \<noteq> ukey (cl_nick c)" "uget n (sv_nicks sv) = Some j"
        by (auto simp: table split: if_splits)
      then obtain d where "iget j (sv_clients sv) = Some d" "ukey (cl_nick d) = ukey n"
        using inv_nick_client [OF inv] by blast
      with n Some show "\<exists>d. iget j ?clients = Some d \<and> ukey (cl_nick d) = ukey n" by (auto simp: table)
    next
      fix j d assume "iget j ?clients = Some d" "cl_nick d \<noteq> ''*''"
      then have jd: "j \<noteq> i" "iget j (sv_clients sv) = Some d" by (auto simp: table split: if_splits)
      then have "ukey (cl_nick d) \<noteq> ukey (cl_nick c)"
        using same_nick_same_client [OF inv Some jd(2)] \<open>cl_nick d \<noteq> ''*''\<close> by metis
      then show "uget (cl_nick d) ?nicks = Some j"
        using jd inv_client_nick [OF inv] \<open>cl_nick d \<noteq> ''*''\<close> by (simp add: table)
    qed
    moreover have "channels_ok ?clients ?chans"
    proof (cases "client_is_registered c")
      case True
      then show ?thesis using inv retain_without_ok by (simp add: server_inv_def)
    next
      case False
      then have "i \<notin> set (tkeys (ch_members (snd e)))" if "e \<in> set (sv_channels sv)" for e
        using inv_entry [OF inv that] Some by (auto simp: chan_ok_def registered_id_def)
      then show ?thesis
        using inv False chan_ok_idel by (auto simp: server_inv_def channels_ok_def)
    qed
    ultimately have "server_inv ?sv" by (simp add: server_inv_def)
    moreover have "\<not> b \<longrightarrow> server_ascii ?sv"
      using good by (auto simp: good_def server_ascii_def table retain_without_def split: if_splits)
    moreover have "kept i sv ?sv" by (auto simp: kept_def table split: if_splits)
    moreover have "\<not> ihas i (sv_clients ?sv)" by (simp add: table)
    moreover have "good b ?sv" by (rule goodI) fact+
    ultimately show ?thesis unfolding d by simp
  qed
  then show "good b (remove_client i a e sv)" "kept i sv (remove_client i a e sv)"
    "\<not> ihas i (sv_clients (remove_client i a e sv))"
    by blast+
qed

lemma peer_joined_good:
  assumes good: "good b sv" and fresh: "\<not> ihas fresh (sv_clients sv)" and "b \<or> ascii_str (sa_ip addr)"
  shows "good b (peer_joined env fresh addr sv)"
proof -
  have inv: "server_inv sv" by (rule good_inv [OF good])
  let ?c = "client_new (env_now env) (sv_domain sv) (sa_ip addr)"
  let ?clients = "iput fresh ?c (sv_clients sv)"
  have old: "iget j ?clients = (if j = fresh then Some ?c else iget j (sv_clients sv))" for j
    by (simp add: table)
  have none: "iget fresh (sv_clients sv) = None" using fresh by (simp add: thas_def)
  have c: "client_ok ?c" "cl_nick ?c = ''*''" "\<not> b \<longrightarrow> client_ascii ?c"
    using assms(3) by (auto simp: client_ok_def client_new_def nick_given_def full_name_ok_def
        client_ascii_def is_ascii_def)
  have "clients_ok ?clients" using inv c by (simp add: server_inv_def clients_ok_def table)
  moreover have "nicks_ok ?clients (sv_nicks sv)"
    unfolding nicks_ok_def old using inv c(2) none inv_nick_client [OF inv] inv_client_nick [OF inv]
    by (auto simp: server_inv_def nicks_ok_def split: if_splits) (metis option.distinct(1))
  moreover have "channels_ok ?clients (sv_channels sv)"
  proof -
    have "registered_id (sv_clients sv) m \<Longrightarrow> registered_id ?clients m" for m
      using none by (auto simp: registered_id_def table)
    then show ?thesis using inv by (auto simp: server_inv_def channels_ok_def chan_ok_def)
  qed
  ultimately show ?thesis
    using good c(3) by (auto simp: good_def server_inv_def peer_joined_def server_ascii_def table split: if_splits)
qed

lemma server_new_good: "good b (server_new env motd cfg)"
  by (simp add: good_def server_inv_def server_new_def clients_ok_def nicks_ok_def channels_ok_def
      server_ascii_def)

lemma rehash_good: "good b (server_rehash cfg sv) = good b sv"
  by (rule same_tables) (simp_all add: server_rehash_def)

section \<open>Registration\<close>

text \<open>What a handler leaves behind.\<close>

definition fine :: "bool \<Rightarrow> string \<Rightarrow> nat \<Rightarrow> server \<Rightarrow> handler_result \<times> server \<times> reply_buffer \<Rightarrow> bool" where
  "fine b lb i sv res \<longleftrightarrow> good b (fst (snd res)) \<and> rb_inv lb (snd (snd res)) \<and> kept i sv (fst (snd res))"

lemma fineI [simp]: "fine b lb i sv (r, x) \<longleftrightarrow> good b (fst x) \<and> rb_inv lb (snd x) \<and> kept i sv (fst x)"
  by (simp add: fine_def)

lemma answers_fine: "good b sv \<Longrightarrow> wp b' m (answers lb sv) \<Longrightarrow> wp b' m (fine b lb i sv)"
  by (erule wp_mono) (auto simp: fine_def answers_def)

lemma ihasE: "ihas i m \<Longrightarrow> (\<And>c. iget i m = Some c \<Longrightarrow> P) \<Longrightarrow> P"
  by (auto simp: thas_def)

lemma wp_trunc: "b \<or> ascii_str s \<Longrightarrow> P (take n s) \<Longrightarrow> wp b (str_trunc s n) P"
  by (cases "str_trunc s n") (auto simp: str_trunc_ascii dest: str_trunc_SomeD)

lemma ascii_take: "ascii_str s \<Longrightarrow> ascii_str (take n s)"
  by (auto simp: list_all_iff dest: in_set_takeD)

lemma ascii_separators [simp]: "is_ascii (CHR ''!'')" "is_ascii (CHR ''~'')" "is_ascii (CHR ''@'')"
  by (simp_all add: is_ascii_def)

lemma users_light:
  "light (\<lambda>c. c\<lparr>cl_has_given_password := True\<rparr>)" "light (\<lambda>c. c\<lparr>cl_away_message := away\<rparr>)"
  "light (\<lambda>c. c\<lparr>cl_cap_enabled := g c\<rparr>)"
  "light (set_real r)" "light (update_idle_time now)"
  "light (\<lambda>c. if P c then c\<lparr>cl_cap_version := v\<rparr> else c)"
  by (simp_all add: light_def set_real_def update_idle_time_def)

lemma cmd_pass_fine:
  assumes "good b sv" and "ihas i (sv_clients sv)" and "rb_inv lb rb"
  shows "wp b' (cmd_pass i p sv rb) (fine b lb i sv)"
  using assms by (auto simp: cmd_pass_def light_good light_kept users_light elim!: ihasE)

lemma cmd_cap_ls_fine:
  assumes "good b sv" and "ihas i (sv_clients sv)" and "rb_inv lb rb"
  shows "wp b' (cmd_cap_ls i v sv rb) (fine b lb i sv)" "wp b' (cmd_cap_req i d sv rb) (fine b lb i sv)"
  using assms by (auto simp: cmd_cap_ls_def cmd_cap_req_def light_good light_kept users_light elim!: ihasE)

lemma cmd_user_fine:
  assumes "good b sv" and "ihas i (sv_clients sv)" and "rb_inv lb rb"
    and ascii: "b \<or> (ascii_str username \<and> ascii_str realname)"
  shows "wp b (cmd_user i username realname sv rb) (fine b lb i sv)"
proof -
  obtain c where c: "iget i (sv_clients sv) = Some c" using assms(2) by (rule ihasE)
  let ?f = "set_real (take (sv_namelen sv) realname) \<circ> set_user (take (sv_userlen sv) username)"
  let ?sv = "sv\<lparr>sv_clients := iupd i ?f (sv_clients sv)\<rparr>"
  have "good b ?sv"
    using ascii by (intro iupd_good assms(1))
      (auto simp: set_real_def set_user_def update_full_name_def client_ok_def full_name_ok_def
        client_is_registered_def client_ascii_def ascii_take)
  moreover have "kept i sv ?sv"
    by (rule iupd_kept) (simp add: set_real_def set_user_def update_full_name_def)
  ultimately have "fine b lb i sv (HOk, ?sv, rb)" using assms(3) by simp
  moreover have "b \<or> ascii_str username" "b \<or> ascii_str realname" using ascii by auto
  ultimately have "wp b (str_trunc username (sv_userlen sv)) (\<lambda>u. wp b (str_trunc realname (sv_namelen sv))
      (\<lambda>r. fine b lb i sv (HOk, sv\<lparr>sv_clients := iupd i (set_real r \<circ> set_user u) (sv_clients sv)\<rparr>, rb)))"
    by (intro wp_trunc)
  then show ?thesis
    using c remove_client_good(1,2) [OF assms(1)] assms(3) by (simp add: cmd_user_def)
qed

section \<open>Nicknames\<close>

lemma rename_good:
  assumes good: "good b sv" and c: "iget i (sv_clients sv) = Some c"
    and nick: "nickname_ok nick" and free: "uget nick (sv_nicks sv) \<in> {None, Some i}"
    and ascii: "b \<or> ascii_str nick"
  shows "good b (sv\<lparr>sv_nicks := uput nick i (udel (cl_nick c) (sv_nicks sv)),
                    sv_clients := iupd i (set_nick nick) (sv_clients sv)\<rparr>)"
proof (rule goodI)
  let ?nicks = "uput nick i (udel (cl_nick c) (sv_nicks sv))"
  let ?clients = "iupd i (set_nick nick) (sv_clients sv)"
  let ?sv = "sv\<lparr>sv_nicks := ?nicks, sv_clients := ?clients\<rparr>"
  have inv: "server_inv sv" by (rule good_inv [OF good])
  have get: "iget j ?clients = map_option (if j = i then set_nick nick else (\<lambda>c. c)) (iget j (sv_clients sv))" for j
    by (simp add: table option.map_ident)
  have star: "nick \<noteq> ''*''" using nick star_not_nick by auto
  have nicks: "uget n ?nicks = (if ukey n = ukey nick then Some i
      else if ukey n = ukey (cl_nick c) then None else uget n (sv_nicks sv))" for n
    by (simp add: table)
  have new: "client_ok (set_nick nick d)" "cl_nick (set_nick nick d) = nick"
    "client_is_registered (set_nick nick d) = client_is_registered d" for d
    using nick star by (auto simp: set_nick_def update_full_name_def client_ok_def full_name_ok_def
        client_is_registered_def)
  have "clients_ok ?clients"
    using inv new by (auto simp: server_inv_def clients_ok_def get table simp del: tget_tupd)
  moreover have "nicks_ok ?clients ?nicks"
    unfolding nicks_ok_def
  proof (intro conjI allI impI)
    show "tok ukey ?nicks" using inv by (simp add: server_inv_def nicks_ok_def table)
    show "uget ''*'' ?nicks = None"
      using inv_no_star [OF inv] ukey_star [of nick] star by (simp add: nicks eq_commute [of "ukey ''*''"])
    fix n j assume n: "uget n ?nicks = Some j"
    show "\<exists>d. iget j ?clients = Some d \<and> ukey (cl_nick d) = ukey n"
    proof (cases "ukey n = ukey nick")
      case True
      with n have "j = i" by (simp add: nicks)
      then show ?thesis using c True new by (simp add: get)
    next
      case False
      with n have "ukey n \<noteq> ukey (cl_nick c)" "uget n (sv_nicks sv) = Some j"
        by (auto simp: nicks split: if_splits)
      moreover from this obtain d where "iget j (sv_clients sv) = Some d" "ukey (cl_nick d) = ukey n"
        using inv_nick_client [OF inv] by blast
      ultimately show ?thesis using c by (auto simp: get)
    qed
  next
    fix j d assume d: "iget j ?clients = Some d" "cl_nick d \<noteq> ''*''"
    show "uget (cl_nick d) ?nicks = Some j"
    proof (cases "j = i")
      case True
      with d c have "cl_nick d = nick" by (auto simp: get new)
      then show ?thesis using True by (simp add: nicks)
    next
      case False
      with d have jd: "iget j (sv_clients sv) = Some d" by (auto simp: get)
      then have own: "uget (cl_nick d) (sv_nicks sv) = Some j" using inv_client_nick [OF inv] d by blast
      have "ukey (cl_nick d) \<noteq> ukey nick"
      proof
        assume "ukey (cl_nick d) = ukey nick"
        then have "uget (cl_nick d) (sv_nicks sv) = uget nick (sv_nicks sv)" by (rule tget_cong)
        with own free False show False by simp
      qed
      moreover have "ukey (cl_nick d) \<noteq> ukey (cl_nick c)"
        using same_nick_same_client [OF inv c jd] d False by metis
      ultimately show ?thesis using own by (simp add: nicks)
    qed
  qed
  moreover have "channels_ok ?clients (sv_channels sv)"
  proof -
    have "registered_id (sv_clients sv) m \<Longrightarrow> registered_id ?clients m" for m
      using new by (auto simp: registered_id_def get)
    then show ?thesis using inv by (auto simp: server_inv_def channels_ok_def chan_ok_def)
  qed
  ultimately show "server_inv ?sv" by (simp add: server_inv_def)
  show "\<not> b \<longrightarrow> server_ascii ?sv"
  proof
    assume "\<not> b"
    then have a: "server_ascii sv" "ascii_str nick" using good ascii by (auto simp: good_def)
    have "ascii_str (fst e)" if "e \<in> set ?nicks" for e
      using that a set_tput [of ukey nick i "udel (cl_nick c) (sv_nicks sv)"]
      by (fastforce simp: server_ascii_def)
    moreover have "client_ascii d" if "iget j ?clients = Some d" for j d
      using that a by (auto simp: get server_ascii_def set_nick_def update_full_name_def client_ascii_def
          split: if_splits)
    ultimately show "server_ascii ?sv" using a(1) by (simp add: server_ascii_def del: tget_tupd)
  qed
qed

definition named :: "nat \<Rightarrow> server \<Rightarrow> bool" where
  "named i sv \<longleftrightarrow> (\<exists>c. iget i (sv_clients sv) = Some c \<and> cl_nick c \<noteq> ''*'')"

lemma named_post [simp]: "named i (post sv d) = named i sv"
  by (simp add: named_def)

lemma change_nick_fine:
  assumes good: "good b sv" and c: "iget i (sv_clients sv) = Some c" and "rb_inv lb rb"
    and nick: "nickname_ok nick" and free: "uget nick (sv_nicks sv) \<in> {None, Some i}"
    and ascii: "b \<or> ascii_str nick"
  shows "fine b lb i sv (HOk, change_nick i c nick sv rb)" and "named i (fst (change_nick i c nick sv rb))"
proof -
  let ?sv = "sv\<lparr>sv_nicks := uput nick i (udel (cl_nick c) (sv_nicks sv)),
                sv_clients := iupd i (set_nick nick) (sv_clients sv)\<rparr>"
  have "good b ?sv" by (rule rename_good [OF good c nick free ascii])
  moreover have "kept i sv ?sv"
    by (auto simp: kept_def set_nick_def update_full_name_def table split: if_splits)
  moreover have "named i ?sv"
    using c nick star_not_nick by (auto simp: named_def set_nick_def update_full_name_def)
  ultimately show "fine b lb i sv (HOk, change_nick i c nick sv rb)" "named i (fst (change_nick i c nick sv rb))"
    using assms(3) by (simp_all add: change_nick_def Let_def send_posts)
qed

lemma cmd_nick_fine:
  assumes good: "good b sv" and i: "ihas i (sv_clients sv)" and rb: "rb_inv lb rb"
    and nick: "nickname_ok nick" and ascii: "b \<or> ascii_str nick"
  shows "wp b (cmd_nick i nick sv rb)
    (\<lambda>res. fine b lb i sv res \<and> (fst res = HOk \<longrightarrow> named i (fst (snd res))))"
proof -
  obtain c where c: "iget i (sv_clients sv) = Some c" using i by (rule ihasE)
  note change = change_nick_fine [OF good c rb nick _ ascii]
  show ?thesis
  proof (cases "uget nick (sv_nicks sv)")
    case None
    then show ?thesis using change c by (simp add: cmd_nick_def split: prod.splits)
  next
    case (Some j)
    have "cl_nick c = nick \<Longrightarrow> named i sv" using c nick star_not_nick by (auto simp: named_def)
    then show ?thesis
      using Some change c good rb by (cases "j = i") (simp_all add: cmd_nick_def split: prod.splits)
  qed
qed

section \<open>Client information and operators\<close>

lemma cmd_away_fine:
  assumes good: "good b sv" and "ihas i (sv_clients sv)" and rb: "rb_inv lb rb"
    and ascii: "b \<or> (\<forall>r. reason = Some r \<longrightarrow> ascii_str r)"
  shows "wp b (cmd_away i reason sv rb) (fine b lb i sv)"
proof -
  obtain c where c: "iget i (sv_clients sv) = Some c" using assms(2) by (rule ihasE)
  have set: "good b (sv\<lparr>sv_clients := iupd i (\<lambda>c. c\<lparr>cl_away_message := m\<rparr>) (sv_clients sv)\<rparr>)"
    "kept i sv (sv\<lparr>sv_clients := iupd i (\<lambda>c. c\<lparr>cl_away_message := m\<rparr>) (sv_clients sv)\<rparr>)" for m
    using good by (simp_all add: light_good light_kept users_light)
  show ?thesis
  proof (cases reason)
    case None
    then show ?thesis using c good rb set by (simp add: cmd_away_def Let_def send_posts)
  next
    case (Some r)
    then have "b \<or> ascii_str r" using ascii by auto
    then show ?thesis
      using Some c good rb set by (auto simp: cmd_away_def Let_def send_posts intro!: wp_trunc)
  qed
qed

lemma cmd_setname_fine:
  assumes "good b sv" and "ihas i (sv_clients sv)" and "rb_inv lb rb"
  shows "wp b' (cmd_setname i realname sv rb) (fine b lb i sv)"
  using assms
  by (auto simp: cmd_setname_def Let_def send_posts light_good light_kept users_light elim!: ihasE)

lemma mode_user_loop_light:
  "mode_user_loop rs c applied rb = (c', applied', rb') \<Longrightarrow> rb_inv lb rb \<Longrightarrow>
     rb_inv lb rb' \<and> (\<exists>inv oper. c' = c\<lparr>cl_invisible := inv, cl_operator := oper\<rparr> \<and> (oper \<longrightarrow> cl_operator c))"
proof (induction rs c applied rb arbitrary: c' applied' rb' rule: mode_user_loop.induct)
  case (1 c applied rb)
  then show ?case by (intro conjI exI [of _ "cl_invisible c"] exI [of _ "cl_operator c"]) auto
next
  case (2 change rs c applied rb)
  then show ?case by (cases change) (fastforce simp: Let_def)+
qed auto

lemma cmd_mode_user_set_fine:
  assumes good: "good b sv" and "ihas i (sv_clients sv)" and "rb_inv lb rb"
  shows "wp b' (cmd_mode_user_set i nick modes sv rb) (fine b lb i sv)"
proof -
  obtain c where c: "iget i (sv_clients sv) = Some c" using assms(2) by (rule ihasE)
  obtain c' applied rb' where loop: "mode_user_loop (user_query modes) c [] rb = (c', applied, rb')"
    by (cases "mode_user_loop (user_query modes) c [] rb")
  then obtain inv oper where c': "rb_inv lb rb'" "c' = c\<lparr>cl_invisible := inv, cl_operator := oper\<rparr>"
    "oper \<longrightarrow> cl_operator c"
    using mode_user_loop_light assms(3) by blast
  have "good b (sv\<lparr>sv_clients := iupd i (\<lambda>_. c') (sv_clients sv)\<rparr>)"
    using c c' by (intro iupd_good good)
      (auto simp: client_ok_def full_name_ok_def client_ascii_def client_is_registered_def)
  moreover have "kept i sv (sv\<lparr>sv_clients := iupd i (\<lambda>_. c') (sv_clients sv)\<rparr>)"
    using c c' by (intro iupd_kept) auto
  ultimately show ?thesis using c c' loop assms(3) good by (simp add: cmd_mode_user_set_def)
qed

text \<open>Two handlers do more than the others: \<open>OPER\<close> makes an operator of the issuer, with the credentials
  of one in the configuration, and \<open>KILL\<close> lets an operator remove a registered client.\<close>

definition oper_effect :: "nat \<Rightarrow> string \<Rightarrow> string \<Rightarrow> server \<Rightarrow> server \<Rightarrow> bool" where
  "oper_effect i name password sv sv' \<longleftrightarrow>
     sv' = sv
     \<or> ((\<exists>o' \<in> set (sv_opers sv). op_name o' = name \<and> op_password o' = password)
        \<and> sv' = sv\<lparr>sv_clients := iupd i (\<lambda>c. c\<lparr>cl_operator := True\<rparr>) (sv_clients sv)\<rparr>)"

definition kill_effect :: "nat \<Rightarrow> string \<Rightarrow> string \<Rightarrow> server \<Rightarrow> server \<Rightarrow> bool" where
  "kill_effect i who reason sv sv' \<longleftrightarrow>
     sv' = sv
     \<or> (\<exists>c j d. iget i (sv_clients sv) = Some c \<and> cl_operator c
          \<and> uget who (sv_nicks sv) = Some j \<and> iget j (sv_clients sv) = Some d \<and> client_is_registered d
          \<and> sv' = remove_client j (''Killed: '' @ reason) ''Killed'' sv)"

lemma good_operator:
  "good b sv \<Longrightarrow> good b (sv\<lparr>sv_clients := iupd i (\<lambda>c. c\<lparr>cl_operator := True\<rparr>) (sv_clients sv)\<rparr>)"
  by (rule iupd_good)
    (auto simp: client_ok_def full_name_ok_def client_ascii_def client_is_registered_def)

lemma oper_effect_good: "good b sv \<Longrightarrow> oper_effect i name password sv sv' \<Longrightarrow> good b sv' \<and> grown sv sv'"
  by (auto simp: oper_effect_def good_operator)

lemma kill_effect_good: "good b sv \<Longrightarrow> kill_effect i who reason sv sv' \<Longrightarrow> good b sv' \<and> grown sv sv'"
  using remove_client_good(1) kept_grown [OF remove_client_good(2)] by (auto simp: kill_effect_def)

lemma cmd_oper_effect:
  assumes "ihas i (sv_clients sv)" and "rb_inv lb rb"
  shows "wp b' (cmd_oper i name password sv rb)
    (\<lambda>res. oper_effect i name password sv (fst (snd res)) \<and> rb_inv lb (snd (snd res)))"
  using assms by (auto simp: cmd_oper_def oper_effect_def Let_def list_ex_iff elim!: ihasE)

lemma cmd_kill_effect:
  assumes inv: "server_inv sv" and "ihas i (sv_clients sv)" and "rb_inv lb rb"
  shows "wp b' (cmd_kill i who reason sv rb)
    (\<lambda>res. kill_effect i who reason sv (fst (snd res)) \<and> rb_inv lb (snd (snd res)))"
proof -
  obtain c where c: "iget i (sv_clients sv) = Some c" using assms(2) by (rule ihasE)
  have "wp b' (find_nick who sv rb) (\<lambda>found. wp b' (Some (case found of
      Inl rb \<Rightarrow> (HErr, sv, rb)
    | Inr (target_id, _) \<Rightarrow> (HOk, remove_client target_id (''Killed: '' @ reason) ''Killed'' sv, rb)))
      (\<lambda>res. kill_effect i who reason sv (fst (snd res)) \<and> rb_inv lb (snd (snd res))))" if "cl_operator c"
    by (rule wp_find_nick [OF inv]) (use that c assms(3) in \<open>auto simp: kill_effect_def\<close>)
  then show ?thesis using c assms(3) by (simp add: cmd_kill_def no_priviledges_def kill_effect_def)
qed

lemma cmd_rehash_fine:
  assumes "good b sv" and "ihas i (sv_clients sv)" and "rb_inv lb rb"
  shows "wp b' (cmd_rehash i sv rb) (fine b lb i sv)"
  using assms by (auto simp: cmd_rehash_def no_priviledges_def same_except_sent elim!: ihasE)

lemma cmd_quit_fine:
  assumes "good b sv" and "rb_inv lb rb"
  shows "wp b' (cmd_quit i reason sv rb)
    (\<lambda>res. fine b lb i sv res \<and> \<not> ihas i (sv_clients (fst (snd res))))"
  using assms remove_client_good [OF assms(1)] by (simp add: cmd_quit_def)

end
