(* ===== verification/ChannelsInv.thy ===== *)
theory ChannelsInv
  imports UsersInv
begin

text \<open>
  The handlers of \<open>V1Channels\<close> keep the invariant and, on ASCII texts, do not panic.
\<close>

section \<open>Updates of the table of channels\<close>

text \<open>The clients and the nicknames stay as they are.\<close>

definition still :: "bool \<Rightarrow> server \<Rightarrow> server \<Rightarrow> bool" where
  "still b sv sv' \<longleftrightarrow> good b sv' \<and> grown sv sv' \<and> sv_clients sv' = sv_clients sv \<and> sv_nicks sv' = sv_nicks sv"

lemma still_refl [simp]: "still b sv sv \<longleftrightarrow> good b sv"
  by (simp add: still_def)

lemma still_trans: "still b s t \<Longrightarrow> still b t u \<Longrightarrow> still b s u"
  using grown_trans by (auto simp: still_def)

lemma still_post [simp]: "still b sv sv' \<Longrightarrow> still b sv (post sv' d)"
  by (simp add: still_def)

lemma still_good: "still b sv sv' \<Longrightarrow> good b sv'"
  by (simp add: still_def)

lemma still_clients: "still b sv sv' \<Longrightarrow> sv_clients sv' = sv_clients sv"
  by (simp add: still_def)

lemma still_kept: "still b sv sv' \<Longrightarrow> kept i sv sv'"
  by (simp add: still_def kept_def)

lemma channels_still:
  assumes "good b sv" and "channels_ok (sv_clients sv) chans"
    and "\<not> b \<longrightarrow> (\<forall>e \<in> set chans. ascii_str (fst e))"
  shows "still b sv (sv\<lparr>sv_channels := chans\<rparr>)"
  using assms by (auto simp: still_def good_def server_inv_def server_ascii_def)

lemma entry_unique:
  assumes "server_inv sv" and "e \<in> set (sv_channels sv)" and "ukey (fst e) = ukey name"
  shows "uget name (sv_channels sv) = Some (snd e)"
proof -
  have "uget (fst e) (sv_channels sv) = Some (snd e)"
    using assms by (intro tget_in) (simp_all add: server_inv_def channels_ok_def)
  then show ?thesis using tget_cong [of ukey, OF assms(3)] by metis
qed

lemma upd_channel_still:
  assumes good: "good b sv"
    and "\<And>ch. uget name (sv_channels sv) = Some ch \<Longrightarrow> chan_ok (sv_clients sv) ch \<Longrightarrow> chan_ok (sv_clients sv) (g ch)"
  shows "still b sv (sv\<lparr>sv_channels := uupd name g (sv_channels sv)\<rparr>)"
proof (rule channels_still [OF good])
  have inv: "server_inv sv" by (rule good_inv [OF good])
  show "\<not> b \<longrightarrow> (\<forall>e \<in> set (uupd name g (sv_channels sv)). ascii_str (fst e))"
    using good by (auto simp: good_def server_ascii_def set_tupd)
  have "is_valid_channel_name (fst e) \<and> chan_ok (sv_clients sv) (snd e)"
    if e: "e \<in> set (uupd name g (sv_channels sv))" for e
  proof -
    obtain e0 where e0: "e0 \<in> set (sv_channels sv)"
      "e = (if ukey (fst e0) = ukey name then (fst e0, g (snd e0)) else e0)"
      using e unfolding set_tupd by blast
    then show ?thesis using inv_entry [OF inv e0(1)] entry_unique [OF inv e0(1)] assms(2) by auto
  qed
  then show "channels_ok (sv_clients sv) (uupd name g (sv_channels sv))"
    using inv by (simp add: channels_ok_def server_inv_def)
qed

lemma del_channel_still: "good b sv \<Longrightarrow> still b sv (sv\<lparr>sv_channels := udel name (sv_channels sv)\<rparr>)"
  by (rule channels_still) (auto simp: good_def server_ascii_def server_inv_def channels_ok_def)

lemma put_channel_still:
  assumes good: "good b sv" and "is_valid_channel_name name" and "b \<or> ascii_str name"
    and "chan_ok (sv_clients sv) ch"
  shows "still b sv (sv\<lparr>sv_channels := uput name ch (sv_channels sv)\<rparr>)"
proof (rule channels_still [OF good])
  have inv: "server_inv sv" by (rule good_inv [OF good])
  have entry: "e \<in> set (sv_channels sv) \<or> (snd e = ch \<and> (fst e = name \<or> (\<exists>w. (fst e, w) \<in> set (sv_channels sv))))"
    if "e \<in> set (uput name ch (sv_channels sv))" for e
    using that set_tput [of ukey name ch "sv_channels sv"] by fastforce
  show "\<not> b \<longrightarrow> (\<forall>e \<in> set (uput name ch (sv_channels sv)). ascii_str (fst e))"
    using entry good assms(3) by (fastforce simp: good_def server_ascii_def)
  show "channels_ok (sv_clients sv) (uput name ch (sv_channels sv))"
    using entry inv_entry [OF inv] inv assms(2,4) unfolding channels_ok_def server_inv_def
    by (metis fst_conv tok_tput)
qed

lemma wp_send_each:
  "\<forall>m \<in> set ms. ihas m (sv_clients sv) \<Longrightarrow> (\<And>d. P (post sv d)) \<Longrightarrow> wp b (send_each item ms sv) P"
  by (simp add: send_each_post)

lemma wp_send_each_others:
  assumes "still b s sv" and "uget name (sv_channels sv) = Some ch" and "(\<And>d. P (post sv d))"
  shows "wp b' (send_each item (others i ch) sv) P"
  using chan_ok_others [OF inv_channel [OF good_inv [OF still_good [OF assms(1)]] assms(2)]] assms(3)
  by (intro wp_send_each) auto

lemma rb_inv_channels [simp, inv_intros]:
  "rb_inv lb rb \<Longrightarrow> rb_inv lb (check_error code name line rb)"
  "rb_inv lb rb \<Longrightarrow> rb_inv lb (not_on_channel name rb)"
  "rb_inv lb rb \<Longrightarrow> rb_inv lb (chan_o_privs_needed name rb)"
  "rb_inv lb rb \<Longrightarrow> rb_inv lb (reply_list name item end_item line it rb)"
  by (simp_all add: check_error_def not_on_channel_def chan_o_privs_needed_def reply_list_def)

section \<open>JOIN\<close>

lemma chan_ok_add: "chan_ok clients ch \<Longrightarrow> registered_id clients i \<Longrightarrow> chan_ok clients (add_member i ch)"
  by (auto simp: chan_ok_def add_member_def Let_def thas_def simp flip: ihas_iff split: if_splits)

lemma channel_new_empty:
  "\<exists>ch. channel_new modes = Some ch \<and> ch_members ch = [] \<and> ch_invites ch = {}"
  using channel_new_loop_items [of channel_empty "simple_query modes"]
  by (simp add: channel_new_def simple_channel_query_def channel_query_def fold_flag_step channel_empty_def)

lemma wp_enter_channel:
  assumes good: "good b sv" and i: "registered_id (sv_clients sv) i"
    and name: "is_valid_channel_name name" "b \<or> ascii_str name"
  shows "wp b' (enter_channel i name sv) (\<lambda>sv'. still b sv sv' \<and> uget name (sv_channels sv') \<noteq> None)"
proof (cases "uget name (sv_channels sv)")
  case None
  obtain ch where ch: "channel_new (sv_default_chan_mode sv) = Some ch" "ch_members ch = []"
    using channel_new_empty by blast
  then have "chan_ok (sv_clients sv) (add_member i ch)"
    using i by (intro chan_ok_add) (simp_all add: chan_ok_def tkeys_def)
  then have "still b sv (sv\<lparr>sv_channels := uput name (add_member i ch) (sv_channels sv)\<rparr>)"
    by (rule put_channel_still [OF good name])
  with None ch show ?thesis by (simp add: enter_channel_def)
next
  case (Some ch)
  have "still b sv (sv\<lparr>sv_channels := uupd name (add_member i) (sv_channels sv)\<rparr>)"
    using chan_ok_add i by (intro upd_channel_still good)
  with Some show ?thesis by (simp add: enter_channel_def)
qed

lemma wp_any: "b \<or> m \<noteq> None \<Longrightarrow> (\<And>x. P x) \<Longrightarrow> wp b m P"
  by (cases m) auto

lemma mask_match_total: "ascii_str s \<Longrightarrow> mask_set_is_match ms s = Some (\<exists>m \<in> set (masks ms). glob (chars m) (bytes s))"
  by (simp add: mask_set_is_match_def any_match_ascii)

lemma is_invited_total: "ascii_str nick \<Longrightarrow> is_invited ch i nick \<noteq> None"
  by (auto simp: is_invited_def mask_match_total)

lemma is_banned_total: "ascii_str nick \<Longrightarrow> is_banned ch nick \<noteq> None"
  by (simp add: is_banned_def mask_match_total)

lemma opt_or_total: "x \<noteq> None \<Longrightarrow> y \<noteq> None \<Longrightarrow> opt_or x y \<noteq> None"
  by auto

lemma wp_check_join:
  assumes "b \<or> client_ascii client" and "rb_inv lb rb"
  shows "wp b (check_join i client ch name key rb) (\<lambda>res. rb_inv lb (snd res))"
proof -
  have "b \<or> is_invited ch i (cl_nick client) \<noteq> None"
    "b \<or> opt_or (is_banned ch (cl_nick client)) (is_banned ch (cl_full_name client)) \<noteq> None"
    using assms(1) opt_or_total [OF is_banned_total is_banned_total] is_invited_total
    unfolding client_ascii_def by blast+
  then show ?thesis using assms(2) by (auto simp: check_join_def intro!: wp_any)
qed

lemma wp_send_join:
  assumes "good b sv" and "uget name (sv_channels sv) \<noteq> None" and "rb_inv lb rb"
  shows "wp b' (send_join i name client sv rb) (\<lambda>(sv', rb'). (\<exists>d. sv' = post sv d) \<and> rb_inv lb rb')"
proof -
  obtain ch where ch: "uget name (sv_channels sv) = Some ch" using assms(2) by blast
  have "\<forall>m \<in> set (others i ch). ihas m (sv_clients sv)"
    using chan_ok_others [OF inv_channel [OF good_inv [OF assms(1)] ch]] by blast
  then show ?thesis
    using ch assms(3) by (auto simp: send_join_def send_each_post Let_def split: option.splits)
qed

lemma wp_join_one:
  assumes good: "good b sv" and client: "iget i (sv_clients sv) = Some client" "client_is_registered client"
    and name: "is_valid_channel_name name" "b \<or> ascii_str name"
    and ascii: "b \<or> client_ascii client" and rb: "rb_inv lb rb"
  shows "wp b (join_one i client name key sv rb) (\<lambda>(ok, sv', rb'). still b sv sv' \<and> rb_inv lb rb')"
proof -
  have i: "ihas i (sv_clients sv)" "registered_id (sv_clients sv) i"
    using client by (auto simp: thas_def registered_id_def)
  have enter: "wp b (do { sv \<leftarrow> enter_channel i name sv;
            (sv, rb) \<leftarrow> send_join i name client sv (rb_lr_batch_begin rb);
            rb \<leftarrow> send_topic name False sv rb;
            rb \<leftarrow> send_names i name sv rb;
            Some (True, sv, rb) }) (\<lambda>(ok, sv', rb'). still b sv sv' \<and> rb_inv lb rb')"
    if "rb_inv lb rb" for rb
    unfolding wp_bind
  proof (rule wp_mono [OF wp_enter_channel [OF good i(2) name]])
    fix s assume s: "still b sv s \<and> uget name (sv_channels s) \<noteq> None"
    then have gs: "good b s" "ihas i (sv_clients s)" using i by (auto simp: still_def)
    show "wp b (send_join i name client s (rb_lr_batch_begin rb)) (\<lambda>x. wp b (case x of (sv, rb) \<Rightarrow> do {
        rb \<leftarrow> send_topic name False sv rb; rb \<leftarrow> send_names i name sv rb; Some (True, sv, rb) })
        (\<lambda>(ok, sv', rb'). still b sv sv' \<and> rb_inv lb rb'))"
    proof (rule wp_mono [OF wp_send_join [OF gs(1)]])
      fix x assume "case x of (sv', rb') \<Rightarrow> (\<exists>d. sv' = post s d) \<and> rb_inv lb rb'"
      then obtain d rb1 where x: "x = (post s d, rb1)" "rb_inv lb rb1" by auto
      obtain ch where ch: "uget name (sv_channels (post s d)) = Some ch" using s by auto
      have names: "wp b (send_names i name (post s d) rb2) (\<lambda>rb3. still b sv (post s d) \<and> rb_inv lb rb3)"
        if "rb_inv lb rb2" for rb2
        by (rule wp_mono [OF wp_send_names]) (use gs s that good_inv [of b] in auto)
      show "wp b (case x of (sv, rb) \<Rightarrow> do {
          rb \<leftarrow> send_topic name False sv rb; rb \<leftarrow> send_names i name sv rb; Some (True, sv, rb) })
          (\<lambda>(ok, sv', rb'). still b sv sv' \<and> rb_inv lb rb')"
        unfolding x(1) prod.case wp_bind
        by (rule wp_mono [OF wp_send_topic [OF ch x(2)]]) (use names in simp)
    qed (use s that in auto)
  qed
  show ?thesis
  proof (cases "uget name (sv_channels sv)")
    case None
    then show ?thesis using enter [OF rb] by (simp add: join_one_def)
  next
    case (Some ch)
    have "wp b (check_join i client ch name key rb) (\<lambda>res. rb_inv lb (snd res))"
      by (rule wp_check_join [OF ascii rb])
    then have "wp b (check_join i client ch name key rb) (\<lambda>x. wp b (case x of (ok, rb) \<Rightarrow>
        if \<not> ok then Some (False, sv, rb)
        else do { sv \<leftarrow> enter_channel i name sv;
            (sv, rb) \<leftarrow> send_join i name client sv (rb_lr_batch_begin rb);
            rb \<leftarrow> send_topic name False sv rb;
            rb \<leftarrow> send_names i name sv rb;
            Some (True, sv, rb) }) (\<lambda>(ok, sv', rb'). still b sv sv' \<and> rb_inv lb rb'))"
      by (rule wp_mono) (use enter good in \<open>auto simp del: wp_bind\<close>)
    with Some show ?thesis by (simp only: join_one_def option.case wp_bind)
  qed
qed

lemma wp_join_loop:
  assumes "\<forall>(n, k) \<in> set cs. is_valid_channel_name n \<and> (b \<or> ascii_str n)"
    and "good b sv" and "iget i (sv_clients sv) = Some client" and "client_is_registered client"
    and "b \<or> client_ascii client" and "rb_inv lb rb"
  shows "wp b (join_loop i client cs upd sv rb) (\<lambda>(ok, sv', rb'). still b sv sv' \<and> rb_inv lb rb')"
  using assms
proof (induction cs arbitrary: upd sv rb)
  case (Cons c cs)
  obtain n k where c: "c = (n, k)" by fastforce
  have "wp b (join_one i client n k sv rb) (\<lambda>(ok, sv', rb'). still b sv sv' \<and> rb_inv lb rb')"
    by (rule wp_join_one) (use Cons.prems c in auto)
  then have "wp b (join_one i client n k sv rb) (\<lambda>(joined, sv1, rb1).
      wp b (join_loop i client cs (upd \<or> joined) sv1 rb1) (\<lambda>(ok, sv', rb'). still b sv sv' \<and> rb_inv lb rb'))"
  proof (rule wp_mono, clarify)
    fix joined s rb1
    assume s: "still b sv s" "rb_inv lb rb1"
    have "wp b (join_loop i client cs (upd \<or> joined) s rb1) (\<lambda>(ok, sv', rb'). still b s sv' \<and> rb_inv lb rb')"
      by (rule Cons.IH) (use Cons.prems s in \<open>auto simp: still_def\<close>)
    then show "wp b (join_loop i client cs (upd \<or> joined) s rb1) (\<lambda>(ok, sv', rb'). still b sv sv' \<and> rb_inv lb rb')"
      by (rule wp_mono) (use s still_trans in auto)
  qed
  then show ?case by (auto simp: c split_def elim: wp_mono)
qed simp

lemma touch_fine [simp]:
  "good b sv \<Longrightarrow> good b (touch env i sv)" "kept i s sv \<Longrightarrow> kept i s (touch env i sv)"
  by (simp_all add: touch_def light_good users_light)
    (auto simp: kept_def table update_idle_time_def split: if_splits)

lemma join_list_ascii:
  assumes "(n, k) \<in> set (join_list_iter names keys)" and "ascii_str names"
  shows "ascii_str n"
proof -
  have "n \<in> set (channel_names names)"
    using assms(1) zip_keys_names [of "channel_names names"] unfolding join_list_iter_def
    by (metis fst_conv image_eqI set_map)
  then have "set n \<subseteq> set names" using str_split_chars by (auto simp: channel_names_filter)
  then show ?thesis using assms(2) by (auto simp: list_all_iff)
qed

lemma cmd_join_fine:
  assumes good: "good b sv" and i: "registered_id (sv_clients sv) i" and rb: "rb_inv lb rb"
    and ascii: "b \<or> ascii_str names"
  shows "wp b (cmd_join env i names keys sv rb) (fine b lb i sv)"
proof -
  obtain client where client: "iget i (sv_clients sv) = Some client" "client_is_registered client"
    using i by (auto simp: registered_id_def)
  have "b \<or> client_ascii client" using good client by (auto simp: good_def server_ascii_def)
  moreover have "\<forall>(n, k) \<in> set (join_list_iter names keys). is_valid_channel_name n \<and> (b \<or> ascii_str n)"
    using join_list_names ascii join_list_ascii by blast
  ultimately have "wp b (join_loop i client (join_list_iter names keys) False sv rb)
      (\<lambda>(ok, sv', rb'). still b sv sv' \<and> rb_inv lb rb')"
    using good client rb by (intro wp_join_loop) auto
  then have "wp b (join_loop i client (join_list_iter names keys) False sv rb) (\<lambda>(ok, sv', rb').
      wp b (if ok then do { _ \<leftarrow> iget i (sv_clients sv'); Some (HOk, touch env i sv', rb') }
            else Some (HOk, sv', rb')) (fine b lb i sv))"
    by (rule wp_mono) (use client in \<open>auto simp: still_good still_kept still_clients\<close>)
  then show ?thesis using client by (simp add: cmd_join_def split_def)
qed

section \<open>PART\<close>

lemma wp_part_one:
  assumes good: "good b sv" and rb: "rb_inv lb rb"
  shows "wp b' (part_one i issuer reason name sv rb) (\<lambda>(r, sv', rb'). still b sv sv' \<and> rb_inv lb rb')"
proof (cases "uget name (sv_channels sv)")
  case None
  then show ?thesis using good rb by (simp add: part_one_def)
next
  case (Some ch)
  let ?ms = "idel i (ch_members ch)"
  let ?sv = "sv\<lparr>sv_channels := uupd name (\<lambda>ch. ch\<lparr>ch_members := ?ms\<rparr>) (sv_channels sv)\<rparr>"
  have ok: "chan_ok (sv_clients sv) (ch\<lparr>ch_members := ?ms\<rparr>)"
    by (rule chan_ok_remove_member [OF inv_channel [OF good_inv [OF good] Some]])
  have upd: "still b sv ?sv"
    using ok Some by (intro upd_channel_still good) (simp add: chan_ok_def)
  have "\<forall>m \<in> set (tkeys ?ms). ihas m (sv_clients sv)"
    using chan_ok_members [OF ok] by simp
  then have send: "wp b' (send_each item (tkeys ?ms) ?sv) (still b sv)" for item
    using upd by (intro wp_send_each) auto
  then show ?thesis
    using Some good rb del_channel_still [OF good] by (auto simp: part_one_def Let_def elim!: wp_mono)
qed

lemma wp_part_loop:
  assumes "good b sv" and "rb_inv lb rb"
  shows "wp b' (part_loop i issuer reason ns res sv rb) (\<lambda>(r, sv', rb'). still b sv sv' \<and> rb_inv lb rb')"
  using assms
proof (induction ns arbitrary: res sv rb)
  case (Cons n ns)
  have "wp b' (part_one i issuer reason n sv rb) (\<lambda>(r, sv', rb'). still b sv sv' \<and> rb_inv lb rb')"
    by (rule wp_part_one [OF Cons.prems])
  then have "wp b' (part_one i issuer reason n sv rb) (\<lambda>(r, s, rb1).
      wp b' (part_loop i issuer reason ns (if r = HErr then HErr else res) s rb1)
        (\<lambda>(r, sv', rb'). still b sv sv' \<and> rb_inv lb rb'))"
  proof (rule wp_mono, clarify)
    fix r s rb1 assume s: "still b sv s" "rb_inv lb rb1"
    show "wp b' (part_loop i issuer reason ns (if r = HErr then HErr else res) s rb1)
        (\<lambda>(r, sv', rb'). still b sv sv' \<and> rb_inv lb rb')"
      by (rule wp_mono [OF Cons.IH [OF still_good [OF s(1)] s(2)]]) (use s still_trans in auto)
  qed
  then show ?case by (auto simp: split_def elim: wp_mono)
qed simp

lemma cmd_part_fine:
  assumes "good b sv" and "ihas i (sv_clients sv)" and "rb_inv lb rb"
  shows "wp b' (cmd_part i from' reason sv rb) (fine b lb i sv)"
proof -
  obtain c where "iget i (sv_clients sv) = Some c" using assms(2) by (rule ihasE)
  moreover have "wp b' (part_loop i c reason (channel_names from') HOk sv rb) (fine b lb i sv)"
    by (rule wp_mono [OF wp_part_loop [OF assms(1,3)]]) (auto simp: still_good still_kept)
  ultimately show ?thesis by (simp add: cmd_part_def)
qed

text \<open>What remains of the table of channels when a client leaves all of its channels.\<close>

definition without_member :: "nat \<Rightarrow> channel utable \<Rightarrow> channel utable" where
  "without_member i chans =
     map (\<lambda>e. (fst e, (snd e)\<lparr>ch_members := idel i (ch_members (snd e))\<rparr>))
       (filter (\<lambda>e. ihas i (ch_members (snd e)) \<longrightarrow> idel i (ch_members (snd e)) \<noteq> []) chans)"

lemma without_member_ok: "channels_ok clients chans \<Longrightarrow> channels_ok clients (without_member i chans)"
  using chan_ok_remove_member
  by (auto simp: channels_ok_def without_member_def tok_def comp_def distinct_map_filter)

lemma idel_absent: "\<not> ihas i m \<Longrightarrow> idel i m = m"
  by (auto simp: tdel_def ihas_iff tkeys_def filter_id_conv)

lemma wp_part_all_loop:
  assumes "\<forall>e \<in> set cs. chan_ok (sv_clients sv) (snd e)" and "rb_inv lb rb"
  shows "wp b' (part_all_loop i issuer cs sv rb)
    (\<lambda>(kept, sv', rb'). kept = without_member i cs \<and> (\<exists>d. sv' = post sv d) \<and> rb_inv lb rb')"
  using assms
proof (induction i issuer cs sv rb rule: part_all_loop.induct)
  case (1 i issuer sv rb)
  then show ?case by (auto simp: without_member_def intro: exI [of _ "[]"])
next
  case (2 i issuer name ch cs sv rb)
  show ?case
  proof (cases "ihas i (ch_members ch)")
    case False
    have "wp b' (part_all_loop i issuer cs sv rb)
        (\<lambda>(kept, sv', rb'). kept = without_member i cs \<and> (\<exists>d. sv' = post sv d) \<and> rb_inv lb rb')"
      by (rule "2.IH"(1) [OF False]) (use "2.prems" in auto)
    then show ?thesis using False by (auto simp: without_member_def idel_absent elim!: wp_mono)
  next
    case True
    let ?ch = "ch\<lparr>ch_members := idel i (ch_members ch)\<rparr>"
    let ?calls = "[Param name, TrailingParam lines_PART_ALL]"
    let ?rb = "rb_message (cl_full_name issuer) Cmd_Part ?calls (rb_lr_batch_begin rb)"
    have "chan_ok (sv_clients sv) ?ch" using "2.prems" by (intro chan_ok_remove_member) simp
    then have ms: "\<forall>m \<in> set (tkeys (ch_members ?ch)). ihas m (sv_clients sv)"
      using chan_ok_members by blast
    let ?item = "\<lambda>_ _. Some (queue_item_from (buffer_message (cl_full_name issuer) Cmd_Part ?calls []))"
    obtain d where d: "send_each ?item (tkeys (ch_members ?ch)) sv = Some (post sv d)"
      using ms unfolding send_each_post by simp
    have "wp b' (part_all_loop i issuer cs (post sv d) ?rb)
        (\<lambda>(kept, sv', rb'). kept = without_member i cs \<and> (\<exists>e. sv' = post (post sv d) e) \<and> rb_inv lb rb')"
      using "2.IH"(2) [of ?ch ?calls ?rb "post sv d"] True d "2.prems" by simp
    then show ?thesis using True d by (auto simp: Let_def without_member_def elim!: wp_mono)
  qed
qed

lemma cmd_part_all_fine:
  assumes good: "good b sv" and "ihas i (sv_clients sv)" and "rb_inv lb rb"
  shows "wp b' (cmd_part_all i sv rb) (fine b lb i sv)"
proof -
  obtain c where c: "iget i (sv_clients sv) = Some c" using assms(2) by (rule ihasE)
  have inv: "channels_ok (sv_clients sv) (sv_channels sv)"
    using good_inv [OF good] by (simp add: server_inv_def)
  have all: "still b sv (sv\<lparr>sv_channels := without_member i (sv_channels sv)\<rparr>)"
    using good by (intro channels_still good without_member_ok inv)
      (auto simp: good_def server_ascii_def without_member_def)
  have "wp b' (part_all_loop i c (sv_channels sv) sv rb)
    (\<lambda>(kept, sv', rb'). kept = without_member i (sv_channels sv) \<and> (\<exists>d. sv' = post sv d) \<and> rb_inv lb rb')"
    using inv by (intro wp_part_all_loop assms(3)) (simp add: channels_ok_def)
  then have "wp b' (part_all_loop i c (sv_channels sv) sv rb)
    (\<lambda>(kept, sv', rb'). fine b lb i sv (HOk, sv'\<lparr>sv_channels := kept\<rparr>, rb'))"
    by (rule wp_mono) (use all in \<open>auto simp: post_channels still_good still_kept\<close>)
  then show ?thesis using c by (simp add: cmd_part_all_def split_def)
qed

section \<open>INVITE and KICK\<close>

lemma set_channel_still:
  assumes good: "good b sv" and ch: "uget name (sv_channels sv) = Some ch"
    and keys: "tkeys (ch_members ch') = tkeys (ch_members ch)"
  shows "still b sv (sv\<lparr>sv_channels := uupd name (\<lambda>_. ch') (sv_channels sv)\<rparr>)"
proof (rule upd_channel_still [OF good])
  show "chan_ok (sv_clients sv) ch'"
    using inv_channel [OF good_inv [OF good] ch] keys tok_keys [OF keys, of ikey] by (simp add: chan_ok_def)
qed

lemma still_others:
  assumes "good b sv" and "uget name (sv_channels sv) = Some ch"
  shows "\<forall>m \<in> set (others i ch). ihas m (sv_clients sv)"
  using chan_ok_others [OF inv_channel [OF good_inv [OF assms(1)] assms(2)]] by blast

lemma cmd_invite_fine:
  assumes good: "good b sv" and "ihas i (sv_clients sv)" and rb: "rb_inv lb rb"
  shows "wp b' (cmd_invite i who to sv rb) (fine b lb i sv)"
  unfolding cmd_invite_def wp_bind
proof (rule wp_find_nick [OF good_inv [OF good]])
  fix j c
  assume j: "iget j (sv_clients sv) = Some c"
  show "wp b' (case Inr (j, c) of
      Inl rb \<Rightarrow> Some (HErr, sv, rb)
    | Inr (who_id, who_data) \<Rightarrow>
        (case uget to (sv_channels sv) of
           None \<Rightarrow> Some (HErr, sv, reply_no_such_channel to rb)
         | Some channel \<Rightarrow>
             if \<not> can_invite channel i then Some (HErr, sv, chan_o_privs_needed to rb)
             else if ihas who_id (ch_members channel) then
               Some (HErr, sv, rb_reply (Reply rpl_ERR_USERONCHANNEL)
                 [Param who, Param to, TrailingParam lines_USER_ON_CHANNEL] rb)
             else if who_id \<in> ch_invites channel then Some (HErr, sv, rb)
             else
               do {
                 let channel = channel\<lparr>ch_invites := insert who_id (ch_invites channel)\<rparr>;
                 let sv = sv\<lparr>sv_channels := uupd to (\<lambda>_. channel) (sv_channels sv)\<rparr>;
                 let rb = rb_reply (Reply rpl_INVITING) [Param who, Param to] (rb_lr_batch_begin rb);
                 let rb = (case cl_away_message who_data of
                             Some away_msg \<Rightarrow>
                               rb_reply (Reply rpl_AWAY) [Param who, TrailingParam away_msg] rb
                           | None \<Rightarrow> rb);
                 client \<leftarrow> iget i (sv_clients sv);
                 let invite = queue_item_from
                       (buffer_message (cl_full_name client) Cmd_Invite [Param who, Param to] []);
                 sv \<leftarrow> send_each (\<lambda>_ _. Some invite) [who_id] sv;
                 sv \<leftarrow> send_each (\<lambda>m c. if cl_cap_enabled c INVITE_NOTIFY \<and> can_invite channel m
                                         then Some invite else None)
                         (others i channel) sv;
                 Some (HOk, sv, rb)
               })) (fine b lb i sv)"
  proof (cases "uget to (sv_channels sv)")
    case None
    then show ?thesis using good rb by simp
  next
    case (Some ch)
    let ?ch = "ch\<lparr>ch_invites := insert j (ch_invites ch)\<rparr>"
    obtain client where client: "iget i (sv_clients sv) = Some client" using assms(2) by (rule ihasE)
    have st: "still b sv (sv\<lparr>sv_channels := uupd to (\<lambda>_. ?ch) (sv_channels sv)\<rparr>)"
      by (rule set_channel_still [OF good Some]) simp
    have "others i ?ch = others i ch" by (simp add: others_def)
    then have others: "\<forall>m \<in> set (others i ?ch). ihas m (sv_clients sv)"
      using still_others [OF good Some] by simp
    have "ihas j (sv_clients sv)" using j by (simp add: thas_def)
    with Some st good rb client others show ?thesis
      by (simp add: send_each_post Let_def still_good still_kept split: option.splits)
  qed
qed (use good rb in simp)

lemma wp_kick_one:
  assumes good: "good b sv" and i: "ihas i (sv_clients sv)" and rb: "rb_inv lb rb"
    and name: "uget name (sv_channels sv) \<noteq> None"
  shows "wp b' (kick_one i name reason nick sv rb)
    (\<lambda>(sv', rb'). still b sv sv' \<and> rb_inv lb rb' \<and> uget name (sv_channels sv') \<noteq> None)"
proof -
  obtain ch where ch: "uget name (sv_channels sv) = Some ch" using name by blast
  obtain client where client: "iget i (sv_clients sv) = Some client" using i by (rule ihasE)
  have kicked: "wp b' (send_kick i ch' name nick reason
      (sv\<lparr>sv_channels := uupd name (\<lambda>_. ch') (sv_channels sv)\<rparr>) rb)
      (\<lambda>(sv', rb'). still b sv sv' \<and> rb_inv lb rb' \<and> uget name (sv_channels sv') \<noteq> None)"
    if ch': "ch' = ch\<lparr>ch_members := idel k (ch_members ch)\<rparr>" for k ch'
  proof -
    have ok: "chan_ok (sv_clients sv) ch'"
      unfolding ch' by (rule chan_ok_remove_member [OF inv_channel [OF good_inv [OF good] ch]])
    then have "still b sv (sv\<lparr>sv_channels := uupd name (\<lambda>_. ch') (sv_channels sv)\<rparr>)"
      by (intro upd_channel_still good)
    moreover have "\<forall>m \<in> set (others i ch'). ihas m (sv_clients sv)" using chan_ok_others [OF ok] by blast
    ultimately show ?thesis
      using client rb ch by (simp add: send_kick_def send_each_post Let_def)
  qed
  have "wp b' (find_nick nick sv rb) (\<lambda>found. wp b' (case found of
          Inr (k, _) \<Rightarrow>
            if ihas k (ch_members ch) then
              (let channel = ch\<lparr>ch_members := idel k (ch_members ch)\<rparr>
               in send_kick i channel name nick reason
                    (sv\<lparr>sv_channels := uupd name (\<lambda>_. channel) (sv_channels sv)\<rparr>) rb)
            else
              Some (sv, rb_reply (Reply rpl_ERR_USERNOTINCHANNEL)
                [Param nick, Param name, TrailingParam lines_USER_NOT_IN_CHANNEL] rb)
        | Inl rb \<Rightarrow>
            Some (sv, rb_reply (Reply rpl_ERR_USERNOTINCHANNEL)
              [Param nick, Param name, TrailingParam lines_USER_NOT_IN_CHANNEL] rb))
      (\<lambda>(sv', rb'). still b sv sv' \<and> rb_inv lb rb' \<and> uget name (sv_channels sv') \<noteq> None))"
    by (rule wp_find_nick [OF good_inv [OF good]]) (use kicked good rb ch in \<open>auto simp: Let_def\<close>)
  then show ?thesis using ch by (simp only: kick_one_def wp_bind) simp
qed

lemma wp_kick_loop:
  assumes "good b sv" and "ihas i (sv_clients sv)" and "rb_inv lb rb" and "uget name (sv_channels sv) \<noteq> None"
  shows "wp b' (kick_loop i name reason ns sv rb) (\<lambda>(sv', rb'). still b sv sv' \<and> rb_inv lb rb')"
  using assms
proof (induction ns arbitrary: sv rb)
  case (Cons n ns)
  have "wp b' (kick_one i name reason n sv rb) (\<lambda>(s, rb1).
      wp b' (kick_loop i name reason ns s rb1) (\<lambda>(sv', rb'). still b sv sv' \<and> rb_inv lb rb'))"
  proof (rule wp_mono [OF wp_kick_one [OF Cons.prems]], clarify)
    fix s rb1 ch assume s: "still b sv s" "rb_inv lb rb1" "uget name (sv_channels s) = Some ch"
    have "wp b' (kick_loop i name reason ns s rb1) (\<lambda>(sv', rb'). still b s sv' \<and> rb_inv lb rb')"
      by (rule Cons.IH) (use s Cons.prems in \<open>auto simp: still_def\<close>)
    then show "wp b' (kick_loop i name reason ns s rb1) (\<lambda>(sv', rb'). still b sv sv' \<and> rb_inv lb rb')"
      by (rule wp_mono) (use s still_trans in auto)
  qed
  then show ?case by (auto simp: split_def elim: wp_mono)
qed simp

lemma cmd_kick_fine:
  assumes good: "good b sv" and i: "ihas i (sv_clients sv)" and rb: "rb_inv lb rb"
    and ascii: "b \<or> (\<forall>r. reason = Some r \<longrightarrow> ascii_str r)"
  shows "wp b (cmd_kick i who from' reason sv rb) (fine b lb i sv)"
proof (cases "uget from' (sv_channels sv)")
  case None
  then show ?thesis using good rb by (simp add: cmd_kick_def)
next
  case (Some ch)
  have loop: "wp b (kick_loop i from' r (nicknames who) sv rb) (\<lambda>(sv', rb'). fine b lb i sv (HOk, sv', rb'))" for r
    by (rule wp_mono [OF wp_kick_loop [OF good i rb]]) (use Some in \<open>auto simp: still_good still_kept\<close>)
  have "wp b (case reason of None \<Rightarrow> Some None | Some r \<Rightarrow> map_option Some (str_trunc r (sv_kicklen sv)))
      (\<lambda>r. wp b (kick_loop i from' r (nicknames who) sv rb) (\<lambda>(sv', rb'). fine b lb i sv (HOk, sv', rb')))"
    using ascii loop by (auto split: option.splits intro!: wp_trunc)
  then show ?thesis
    using Some good rb find_member_Inl [of i ch from' rb]
    by (auto simp: cmd_kick_def split_def split: sum.splits)
qed

section \<open>TOPIC\<close>

lemma cmd_topic_set_fine:
  assumes good: "good b sv" and i: "ihas i (sv_clients sv)" and rb: "rb_inv lb rb"
    and ascii: "b \<or> ascii_str topic'"
  shows "wp b (cmd_topic_set env i name topic' sv rb) (fine b lb i sv)"
proof (cases "uget name (sv_channels sv)")
  case None
  then show ?thesis using good rb by (simp add: cmd_topic_set_def)
next
  case (Some ch)
  obtain client where client: "iget i (sv_clients sv) = Some client" using i by (rule ihasE)
  have "still b sv (sv\<lparr>sv_channels := uupd name (\<lambda>ch. ch\<lparr>ch_topic := t\<rparr>) (sv_channels sv)\<rparr>)" for t
    by (rule upd_channel_still [OF good]) (simp add: chan_ok_def)
  note set = still_good [OF this] still_kept [OF this]
  show ?thesis
    using Some client good rb ascii find_member_Inl [of i ch name rb] still_others [OF good Some]
    by (auto simp: cmd_topic_set_def send_each_post Let_def set split: sum.splits intro!: wp_trunc)
qed

section \<open>MODE\<close>

lemma member_flag_loop_total:
  "\<forall>m \<in> set (tkeys ms). nick_of m \<noteq> None \<Longrightarrow> member_flag_loop nick_of p f ms \<noteq> None"
  by (induction ms) (auto simp: tkeys_def Let_def split: prod.splits option.splits)

lemma change_member_total:
  assumes "\<forall>m \<in> set (tkeys (ch_members ch)). nick_of m \<noteq> None"
  obtains r ch' where "change_member nick_of p f ch = Some (r, ch')" "\<And>e. r = Inl e \<Longrightarrow> e = rpl_ERR_USERNOTINCHANNEL"
proof -
  obtain res where "member_flag_loop nick_of p f (ch_members ch) = Some res"
    using member_flag_loop_total [OF assms, of p f] by auto
  then have "change_member nick_of p f ch \<noteq> None"
    by (auto simp: change_member_def split: option.splits)
  then obtain r ch' where *: "change_member nick_of p f ch = Some (r, ch')" by auto
  then have "r = Inl e \<Longrightarrow> e = rpl_ERR_USERNOTINCHANNEL" for e
    by (cases rule: change_member_cases) auto
  with * show ?thesis by (rule that)
qed

text \<open>A change does not panic on ASCII keys, and its errors are those the handler knows.\<close>

lemma apply_mode_change_total:
  assumes "\<forall>m \<in> set (tkeys (ch_members ch)). nick_of m \<noteq> None"
    and "\<forall>p. change_param change = Some p \<longrightarrow> ascii_str p"
  shows "\<exists>r ch'. channel_apply_mode_change change keylen nick_of ch = Some (r, ch')"
proof (cases change)
  case (UserLimit l)
  then show ?thesis by (cases l) (auto split: option.splits)
next
  case (Key v k)
  then show ?thesis using assms(2) by (auto simp: str_trunc_ascii)
next
  case (ChangeOperator v p)
  then show ?thesis using change_member_total [OF assms(1)] by simp metis
next
  case (ChangeHalfop v p)
  then show ?thesis using change_member_total [OF assms(1)] by simp metis
next
  case (ChangeVoice v p)
  then show ?thesis using change_member_total [OF assms(1)] by simp metis
qed (auto simp: Let_def split: prod.splits)

lemma apply_mode_change_errors:
  assumes "channel_apply_mode_change change keylen nick_of ch = Some (Inl e, ch')"
  shows "e = rpl_ERR_KEYSET \<or> (e = rpl_ERR_USERNOTINCHANNEL \<and> change_param change \<noteq> None)"
proof (cases change)
  case (UserLimit l)
  then show ?thesis using assms by (cases l) (auto split: option.splits)
next
  case (ChangeOperator v p)
  then show ?thesis using assms by (auto elim: change_member_cases)
next
  case (ChangeHalfop v p)
  then show ?thesis using assms by (auto elim: change_member_cases)
next
  case (ChangeVoice v p)
  then show ?thesis using assms by (auto elim: change_member_cases)
qed (use assms in \<open>auto simp: Let_def split: prod.splits if_splits option.splits\<close>)

lemma wp_mode_change_one:
  assumes "b \<or> (\<forall>m \<in> set (tkeys (ch_members ch)). nick_of m \<noteq> None)"
    and "b \<or> (\<forall>change p. c = Inr change \<longrightarrow> change_param change = Some p \<longrightarrow> ascii_str p)"
    and "rb_inv lb rb"
  shows "wp b (mode_change_one name keylen nick_of c (ch, am, rb))
    (\<lambda>(ch', am', rb'). tkeys (ch_members ch') = tkeys (ch_members ch) \<and> rb_inv lb rb')"
proof (cases c)
  case (Inl e)
  then show ?thesis using assms(3) by (cases e) (simp_all add: mode_change_one_def)
next
  case (Inr change)
  let ?P = "\<lambda>(ch', am', rb'). tkeys (ch_members ch') = tkeys (ch_members ch) \<and> rb_inv lb rb'"
  have other: "wp b (mode_change_apply name keylen nick_of change (ch, am, rb)) ?P"
  proof (cases "channel_apply_mode_change change keylen nick_of ch")
    case None
    then have b using apply_mode_change_total [of ch nick_of change keylen] assms(1,2) Inr by auto
    then show ?thesis by (simp add: None mode_change_apply_def)
  next
    case (Some res)
    obtain r ch' where res: "res = (r, ch')" by fastforce
    have keys: "tkeys (ch_members ch') = tkeys (ch_members ch)"
      using channel_apply_mode_change_keeps Some res by blast
    show ?thesis
    proof (cases r)
      case (Inl e)
      then have "e = rpl_ERR_KEYSET \<or> (e = rpl_ERR_USERNOTINCHANNEL \<and> change_param change \<noteq> None)"
        using apply_mode_change_errors Some res by blast
      then show ?thesis
      proof (elim disjE conjE)
        assume "e = rpl_ERR_KEYSET"
        then show ?thesis
          using Some res Inl keys assms(3) by (simp add: mode_change_apply_def rpl_ERR_KEYSET_def rpl_ERR_USERNOTINCHANNEL_def)
      next
        assume "e = rpl_ERR_USERNOTINCHANNEL" "change_param change \<noteq> None"
        then show ?thesis
          using Some res Inl keys assms(3) by (cases "change_param change") (simp_all add: mode_change_apply_def)
      qed
    next
      case (Inr applied)
      then show ?thesis using Some res keys assms(3) by (cases applied) (simp_all add: mode_change_apply_def)
    qed
  qed
  show ?thesis using other assms(3) Inr by (cases change) (simp_all add: mode_change_one_def)
qed

lemma wp_mode_change_loop:
  assumes "b \<or> (\<forall>m \<in> set (tkeys (ch_members ch)). nick_of m \<noteq> None)"
    and "b \<or> (\<forall>change p. Inr change \<in> set cs \<longrightarrow> change_param change = Some p \<longrightarrow> ascii_str p)"
    and "rb_inv lb rb"
  shows "wp b (mode_change_loop name keylen nick_of cs (ch, am, rb))
    (\<lambda>(ch', am', rb'). tkeys (ch_members ch') = tkeys (ch_members ch) \<and> rb_inv lb rb')"
  using assms
proof (induction cs arbitrary: ch am rb)
  case (Cons c cs)
  have "wp b (mode_change_one name keylen nick_of c (ch, am, rb)) (\<lambda>st.
      wp b (mode_change_loop name keylen nick_of cs st)
      (\<lambda>(ch', am', rb'). tkeys (ch_members ch') = tkeys (ch_members ch) \<and> rb_inv lb rb'))"
  proof (rule wp_mono)
    show "wp b (mode_change_one name keylen nick_of c (ch, am, rb))
      (\<lambda>(ch', am', rb'). tkeys (ch_members ch') = tkeys (ch_members ch) \<and> rb_inv lb rb')"
      by (rule wp_mode_change_one) (use Cons.prems in auto)
  next
    fix st :: "channel \<times> applied_modes \<times> reply_buffer"
    assume "case st of (ch', am', rb') \<Rightarrow> tkeys (ch_members ch') = tkeys (ch_members ch) \<and> rb_inv lb rb'"
    then obtain ch1 am1 rb1 where st: "st = (ch1, am1, rb1)"
      and *: "tkeys (ch_members ch1) = tkeys (ch_members ch)" "rb_inv lb rb1"
      by (cases st) auto
    have "wp b (mode_change_loop name keylen nick_of cs (ch1, am1, rb1))
      (\<lambda>(ch', am', rb'). tkeys (ch_members ch') = tkeys (ch_members ch1) \<and> rb_inv lb rb')"
      by (rule Cons.IH) (use Cons.prems * in auto)
    then show "wp b (mode_change_loop name keylen nick_of cs st)
      (\<lambda>(ch', am', rb'). tkeys (ch_members ch') = tkeys (ch_members ch) \<and> rb_inv lb rb')"
      using * st by simp
  qed
  then show ?case by simp
qed simp

lemma cmd_mode_channel_set_fine:
  assumes good: "good b sv" and i: "ihas i (sv_clients sv)" and rb: "rb_inv lb rb"
    and ascii: "b \<or> (\<forall>p \<in> set params. ascii_str p)"
  shows "wp b (cmd_mode_channel_set i name modes params sv rb) (fine b lb i sv)"
proof (cases "uget name (sv_channels sv)")
  case None
  then show ?thesis using good rb by (simp add: cmd_mode_channel_set_def)
next
  case (Some ch)
  obtain client where client: "iget i (sv_clients sv) = Some client" using i by (rule ihasE)
  let ?nick_of = "\<lambda>a. map_option cl_nick (iget a (sv_clients sv))"
  have nicks: "\<forall>m \<in> set (tkeys (ch_members ch)). ?nick_of m \<noteq> None"
    using chan_ok_members [OF inv_channel [OF good_inv [OF good] Some]] by (simp add: thas_def)
  have ps: "b \<or> (\<forall>change p. Inr change \<in> set (channel_query modes params) \<longrightarrow>
      change_param change = Some p \<longrightarrow> ascii_str p)"
    using ascii channel_query_loop_param [of _ "simple_query modes" "filter (\<lambda>p. p \<noteq> []) params"]
    unfolding channel_query_def by (fastforce simp: is_ascii_def)
  let ?st = "(ch, \<lparr>am_modes = [], am_params = [], am_last = True\<rparr>, rb_lr_batch_begin rb)"
  have "wp b (mode_change_loop name (sv_keylen sv) ?nick_of (channel_query modes params) ?st)
      (\<lambda>(ch', am', rb'). tkeys (ch_members ch') = tkeys (ch_members ch) \<and> rb_inv lb rb')"
    using nicks ps rb by (intro wp_mode_change_loop) auto
  then have loop: "wp b (mode_change_loop name (sv_keylen sv) ?nick_of (channel_query modes params) ?st)
      (\<lambda>(channel, am, rb). wp b (let sv = sv\<lparr>sv_channels := uupd name (\<lambda>_. channel) (sv_channels sv)\<rparr> in
                     (if am_modes am = [] then Some (HOk, sv, rb)
                      else
                        do {
                          let calls = [Param name, Param (am_modes am)] @ map Param (am_params am);
                          sv \<leftarrow> send_each (\<lambda>_ _. Some (queue_item_from
                                    (buffer_message (cl_full_name client) Cmd_Mode calls [])))
                                  (others i channel) sv;
                          Some (HOk, sv, rb_message (cl_full_name client) Cmd_Mode calls rb)
                        })) (fine b lb i sv))"
  proof (rule wp_mono, clarify)
    fix ch' :: channel and am rb' assume *: "tkeys (ch_members ch') = tkeys (ch_members ch)" "rb_inv lb rb'"
    have st: "still b sv (sv\<lparr>sv_channels := uupd name (\<lambda>_. ch') (sv_channels sv)\<rparr>)"
      by (rule set_channel_still [OF good Some *(1)])
    have "others i ch' = others i ch" using * by (simp add: others_def)
    with st * still_others [OF good Some, of i]
    show "wp b (let sv = sv\<lparr>sv_channels := uupd name (\<lambda>_. ch') (sv_channels sv)\<rparr> in
                     (if am_modes am = [] then Some (HOk, sv, rb')
                      else
                        do {
                          let calls = [Param name, Param (am_modes am)] @ map Param (am_params am);
                          sv \<leftarrow> send_each (\<lambda>_ _. Some (queue_item_from
                                    (buffer_message (cl_full_name client) Cmd_Mode calls [])))
                                  (others i ch') sv;
                          Some (HOk, sv, rb_message (cl_full_name client) Cmd_Mode calls rb')
                        })) (fine b lb i sv)"
      by (simp add: Let_def send_each_post still_good [OF st] still_kept [OF st])
  qed
  show ?thesis
  proof (cases "find_member i ch name rb")
    case (Inl rb')
    then show ?thesis using Some client good rb find_member_Inl by (auto simp: cmd_mode_channel_set_def)
  next
    case (Inr modes')
    then show ?thesis
      using Some client good rb loop by (simp add: cmd_mode_channel_set_def split_def Let_def)
  qed
qed

section \<open>Messages\<close>

lemma wp_message_build:
  assumes "ihas i (sv_clients sv)" and "rb_inv lb rb"
  shows "wp b' (message_build env i client_tags command target content sv rb) (\<lambda>(msg, rb'). rb_inv lb rb')"
  using assms by (auto simp: message_build_def Let_def elim!: ihasE)

lemma cmd_message_channel_fine:
  assumes good: "good b sv" and i: "ihas i (sv_clients sv)" and rb: "rb_inv lb rb"
  shows "wp b' (cmd_message_channel env i client_tags command to content sv rb) (fine b lb i sv)"
proof (cases "find_channel to sv rb")
  case (Inl rb')
  then show ?thesis using good rb find_channel_Inl by (auto simp: cmd_message_channel_def)
next
  case (Inr ch)
  obtain client where client: "iget i (sv_clients sv) = Some client" using i by (rule ihasE)
  have "wp b' (message_build env i client_tags command to content sv rb) (\<lambda>(msg, rb).
      wp b' (let sv = send_capable i command msg (tkeys (ch_members ch)) sv in
        do { _ \<leftarrow> iget i (sv_clients sv); Some (HOk, touch env i sv, rb) }) (fine b lb i sv))"
    by (rule wp_mono [OF wp_message_build [OF i rb]])
      (use client good in \<open>auto simp: send_capable_post Let_def\<close>)
  then show ?thesis using Inr good rb by (simp add: cmd_message_channel_def split_def Let_def)
qed

lemma cmd_message_user_fine:
  assumes good: "good b sv" and i: "ihas i (sv_clients sv)" and rb: "rb_inv lb rb"
  shows "wp b' (cmd_message_user env i client_tags command to content sv rb) (fine b lb i sv)"
  unfolding cmd_message_user_def wp_bind
proof (rule wp_find_nick [OF good_inv [OF good]])
  fix j c assume j: "iget j (sv_clients sv) = Some c"
  obtain client where client: "iget i (sv_clients sv) = Some client" using i by (rule ihasE)
  have "wp b' (message_build env i client_tags command to content sv rb) (\<lambda>(msg, rb).
      wp b' (let sv = send j c msg sv; rb = (case cl_away_message c of
                 Some away_message \<Rightarrow> rb_reply (Reply rpl_AWAY) [Param to, TrailingParam away_message] rb
               | None \<Rightarrow> rb) in
        do { _ \<leftarrow> iget i (sv_clients sv); Some (HOk, touch env i sv, rb) }) (fine b lb i sv))"
    by (rule wp_mono [OF wp_message_build [OF i rb]])
      (use client good in \<open>auto simp: send_post Let_def split: option.splits\<close>)
  then show "wp b' (case Inr (j, c) of
          Inl rb \<Rightarrow> Some (HErr, sv, rb)
        | Inr (target_id, target) \<Rightarrow>
            if \<not> is_capable_of (cl_cap_enabled target) command then Some (HErr, sv, rb)
            else
              do {
                (msg, rb) \<leftarrow> message_build env i client_tags command to content sv rb;
                let sv = send target_id target msg sv;
                let rb = (case cl_away_message target of
                            Some away_message \<Rightarrow>
                              rb_reply (Reply rpl_AWAY) [Param to, TrailingParam away_message] rb
                          | None \<Rightarrow> rb);
                _ \<leftarrow> iget i (sv_clients sv);
                Some (HOk, touch env i sv, rb)
              }) (fine b lb i sv)"
    using good rb by (simp add: split_def Let_def)
qed (use good rb in simp)

end
