(* ===== verification/Transitions.thy ===== *)
theory Transitions
  imports Main
begin

text \<open>
  Systems that take steps: the contract between a start, a step relation and an invariant, and what
  follows for the states that are reached.  The server, the bindings and the rate limiter are
  instances.
\<close>

locale preserved =
  fixes start :: "'s \<Rightarrow> bool"
    and step :: "'s \<Rightarrow> 's \<Rightarrow> bool"
    and inv :: "'s \<Rightarrow> bool"
  assumes start_inv: "start s \<Longrightarrow> inv s"
    and step_inv: "inv s \<Longrightarrow> step s t \<Longrightarrow> inv t"
begin

lemma steps_inv: "rtranclp step s t \<Longrightarrow> inv s \<Longrightarrow> inv t"
  by (induction rule: rtranclp_induct) (auto intro: step_inv)

lemma reached_inv: "start s \<Longrightarrow> rtranclp step s t \<Longrightarrow> inv t"
  by (rule steps_inv) (auto intro: start_inv)

end

text \<open>A system whose steps are explained by those of an abstract one.\<close>

locale refines = preserved start step inv
  for start :: "'s \<Rightarrow> bool" and step :: "'s \<Rightarrow> 's \<Rightarrow> bool" and inv :: "'s \<Rightarrow> bool" +
  fixes abs' :: "'s \<Rightarrow> 'w"
    and astep :: "'w \<Rightarrow> 'w \<Rightarrow> bool"
  assumes step_abs: "inv s \<Longrightarrow> step s t \<Longrightarrow> rtranclp astep (abs' s) (abs' t)"
begin

lemma steps_abs: "rtranclp step s t \<Longrightarrow> inv s \<Longrightarrow> rtranclp astep (abs' s) (abs' t)"
proof (induction rule: rtranclp_induct)
  case (step t u)
  have "inv t" using step.hyps(1) step.prems by (rule steps_inv)
  then show ?case using rtranclp_trans [OF step.IH [OF step.prems] step_abs] step.hyps(2) by blast
qed simp

lemma reached_abs: "start s \<Longrightarrow> rtranclp step s t \<Longrightarrow> rtranclp astep (abs' s) (abs' t)"
  by (rule steps_abs) (auto intro: start_inv)

end

end
