(* ===== verification/ServerSafe.thy ===== *)
theory ServerSafe
  imports ChannelsInv Transitions
begin

text \<open>
  The whole of \<open>handle_message\<close> keeps the invariant, and on ASCII lines it does not panic; hence the
  invariant holds in every state the server reaches.
\<close>

section \<open>Texts that are cut or matched\<close>

text \<open>The requests whose handlers are implemented: the other two are \<open>todo!()\<close> in the source.\<close>

fun implemented :: "request \<Rightarrow> bool" where
  "implemented (Req_Authenticate _) = False"
| "implemented (Req_MessageAll _ _ _) = False"
| "implemented _ = True"

text \<open>The requests that do not read an idle time that would be negative.\<close>

fun clock_ok :: "env \<Rightarrow> server \<Rightarrow> request \<Rightarrow> bool" where
  "clock_ok env sv (Req_WhoIs nick) = (\<not> idle_underflows env sv nick)"
| "clock_ok env sv _ = True"

fun request_ascii :: "request \<Rightarrow> bool" where
  "request_ascii (Req_User username realname) = (ascii_str username \<and> ascii_str realname)"
| "request_ascii (Req_Nick nick) = ascii_str nick"
| "request_ascii (Req_Away reason) = (\<forall>r. reason = Some r \<longrightarrow> ascii_str r)"
| "request_ascii (Req_Join names keys) = ascii_str names"
| "request_ascii (Req_Kick who from' reason) = (\<forall>r. reason = Some r \<longrightarrow> ascii_str r)"
| "request_ascii (Req_TopicSet name topic') = ascii_str topic'"
| "request_ascii (Req_ModeChannelSet name modes params) = (\<forall>p \<in> set params. ascii_str p)"
| "request_ascii _ = True"

lemma run_request_panics:
  "\<not> (implemented req \<and> clock_ok env sv req) \<Longrightarrow> run_request env i tgs req sv rb = None"
  by (cases req) (simp_all add: run_request_def cmd_authenticate_def cmd_message_all_def whois_underflow)

lemma ascii_subset: "ascii_str s \<Longrightarrow> set t \<subseteq> set s \<Longrightarrow> ascii_str t"
  by (auto simp: list_all_iff)

lemma parsed_params_ascii:
  assumes "message_parse s = Some msg" and "ascii_str s" and "x \<in> set (msg_params msg)"
  shows "ascii_str x"
proof -
  from assms(1) obtain b1 b2 b3 where t: "parse_tags (trim_start s) = (msg_tags msg, b1)"
    and p: "parse_prefix b1 = (msg_prefix msg, b2)" and c: "parse_command b2 = (msg_command msg, b3)"
    and ps: "msg_params msg = parse_params PARAMS_LENGTH b3
           @ replicate (PARAMS_LENGTH - length (parse_params PARAMS_LENGTH b3)) []"
    by (rule message_parse_SomeE)
  have "set b3 \<subseteq> set s"
    using set_trim_start [of s] parse_tags_parts [OF t] parse_prefix_parts [OF p] parse_command_parts [OF c]
    by blast
  then have "set x \<subseteq> set s" using assms(3) ps parse_params_subset [of x] by auto
  with assms(2) show ?thesis by (rule ascii_subset)
qed

lemma request_texts_ascii:
  assumes "\<forall>x \<in> set (msg_params msg). ascii_str x" and "length (msg_params msg) = PARAMS_LENGTH"
    and "request_new msg = Some (Inr r)"
  shows "request_ascii r"
proof -
  have p: "ascii_str (param msg 0)" "ascii_str (param msg 1)" "ascii_str (param msg 2)" "ascii_str (param msg 3)"
    using assms(1,2) by (simp_all add: param_def PARAMS_LENGTH_def)
  have d: "\<forall>x \<in> set (drop 2 (take n (msg_params msg))). ascii_str x" for n
    using assms(1) by (auto dest: in_set_dropD in_set_takeD)
  show ?thesis
  proof (cases "msg_command msg")
    case (Inl w)
    then show ?thesis using assms(3) by (simp add: request_new_def)
  next
    case (Inr command)
    have "request_of msg command = Some (Inr r)"
      using assms(3) Inr by (simp add: request_new_def split: if_splits)
    then show ?thesis
      using p d
      by (cases command)
        (auto simp: request_of_def Let_def none_if_empty_def request_who_def request_cap_def request_mode_def params_from_2_def
          request_message_def split: sum.splits if_splits)
  qed
qed

section \<open>One request\<close>

lemma issue_registered:
  assumes "client_can_issue_request (Req_Join names keys) c"
  shows "client_is_registered c"
  using assms
  by (cases "cl_state c")
    (auto simp: client_can_issue_request_def client_is_registered_def request_patterns)

text \<open>The effect of a handler on the state.\<close>

definition effect :: "nat \<Rightarrow> request \<Rightarrow> server \<Rightarrow> server \<Rightarrow> bool" where
  "effect i req sv sv' \<longleftrightarrow>
     (case req of
        Req_Oper name password \<Rightarrow> oper_effect i name password sv sv'
      | Req_Kill who reason \<Rightarrow> kill_effect i who reason sv sv'
      | _ \<Rightarrow> kept i sv sv')"

definition handled_ok ::
  "bool \<Rightarrow> string \<Rightarrow> nat \<Rightarrow> request \<Rightarrow> server \<Rightarrow> handler_result \<times> server \<times> reply_buffer \<Rightarrow> bool" where
  "handled_ok b lb i req sv res \<longleftrightarrow>
     good b (fst (snd res)) \<and> rb_inv lb (snd (snd res)) \<and> effect i req sv (fst (snd res))
     \<and> (is_nick req \<longrightarrow> fst res = HOk \<longrightarrow> named i (fst (snd res)))
     \<and> (is_quit req \<longrightarrow> \<not> ihas i (sv_clients (fst (snd res))))"

lemma effect_grown: "good b sv \<Longrightarrow> effect i req sv sv' \<Longrightarrow> grown sv sv'"
  by (cases req) (auto simp: effect_def kept_grown dest: oper_effect_good kill_effect_good)

lemma remove_client_other:
  "server_inv sv \<Longrightarrow> j \<noteq> i \<Longrightarrow> iget j (sv_clients (remove_client i a e sv)) = iget j (sv_clients sv)"
  using remove_client_good(2) [of False] remove_client_good(2) [of True sv i a e]
  by (simp add: kept_def good_def)

lemma effect_state:
  assumes "good b sv" and "effect i req sv sv'" and "iget i (sv_clients sv) = Some c"
    and "iget i (sv_clients sv') = Some c'"
  shows "cl_state c' = cl_state c"
proof (cases "(\<exists>n p. req = Req_Oper n p) \<or> (\<exists>w r. req = Req_Kill w r)")
  case True
  then show ?thesis
  proof (elim disjE exE)
    fix n p assume "req = Req_Oper n p"
    then show ?thesis using assms by (auto simp: effect_def oper_effect_def table)
  next
    fix w r assume "req = Req_Kill w r"
    then have "sv' = sv \<or> (\<exists>j. sv' = remove_client j (''Killed: '' @ r) ''Killed'' sv)"
      using assms(2) by (auto simp: effect_def kill_effect_def)
    then show ?thesis
    proof (elim disjE exE)
      fix j assume j: "sv' = remove_client j (''Killed: '' @ r) ''Killed'' sv"
      then have "j \<noteq> i" using remove_client_good(3) [OF assms(1)] assms(4) by (auto simp: thas_def)
      then show ?thesis
        using j assms(3,4) remove_client_other [OF good_inv [OF assms(1)]] by simp
    qed (use assms in simp)
  qed
next
  case False
  then have "kept i sv sv'" using assms(2) by (cases req) (auto simp: effect_def)
  then show ?thesis using assms(3,4) by (auto simp: kept_def)
qed

lemma wp_run_request:
  assumes good: "good b sv" and c: "iget i (sv_clients sv) = Some c"
    and can: "client_can_issue_request req c" and ok: "request_ok req" and rb: "rb_inv lb rb"
    and ascii: "b \<or> (implemented req \<and> clock_ok env sv req \<and> request_ascii req)"
  shows "wp b (run_request env i tgs req sv rb) (handled_ok b lb i req sv)"
proof -
  have i: "ihas i (sv_clients sv)" using c by (simp add: thas_def)
  note q = answers_fine [OF good]
  note queries = simple_queries [OF rb, THEN q] state_queries [OF good i rb, THEN q]
    who_queries [OF good i rb, THEN q]
  note users = cmd_pass_fine [OF good i rb] cmd_cap_ls_fine [OF good i rb] cmd_user_fine [OF good i rb]
    cmd_away_fine [OF good i rb] cmd_setname_fine [OF good i rb] cmd_mode_user_set_fine [OF good i rb]
    cmd_rehash_fine [OF good i rb]
  note channels = cmd_part_fine [OF good i rb] cmd_part_all_fine [OF good i rb]
    cmd_invite_fine [OF good i rb] cmd_kick_fine [OF good i rb] cmd_topic_set_fine [OF good i rb]
    cmd_mode_channel_set_fine [OF good i rb] cmd_message_channel_fine [OF good i rb]
    cmd_message_user_fine [OF good i rb]
  show ?thesis
  proof (cases "is_nick req \<or> is_quit req \<or> (\<exists>n p. req = Req_Oper n p) \<or> (\<exists>w r. req = Req_Kill w r)")
    case True
    then consider nick where "req = Req_Nick nick" | reason where "req = Req_Quit reason"
      | n p where "req = Req_Oper n p" | w r where "req = Req_Kill w r"
      by (cases req) (auto simp: request_patterns)
    then show ?thesis
    proof cases
      case 1
      then have "wp b (cmd_nick i nick sv rb) (handled_ok b lb i req sv)"
        by (intro wp_mono [OF cmd_nick_fine [OF good i rb]])
          (use ok ascii in \<open>auto simp: handled_ok_def effect_def request_patterns\<close>)
      with 1 show ?thesis by (simp add: run_request_def)
    next
      case 2
      have "wp b (cmd_quit i reason sv rb) (handled_ok b lb i req sv)"
        by (rule wp_mono [OF cmd_quit_fine [OF good rb]])
          (use 2 in \<open>auto simp: handled_ok_def effect_def request_patterns\<close>)
      with 2 show ?thesis by (simp add: run_request_def)
    next
      case 3
      have "wp b (cmd_oper i n p sv rb) (handled_ok b lb i req sv)"
        by (rule wp_mono [OF cmd_oper_effect [OF i rb]])
          (use 3 oper_effect_good [OF good] in \<open>auto simp: handled_ok_def effect_def request_patterns\<close>)
      with 3 show ?thesis by (simp add: run_request_def)
    next
      case 4
      have "wp b (cmd_kill i w r sv rb) (handled_ok b lb i req sv)"
        by (rule wp_mono [OF cmd_kill_effect [OF good_inv [OF good] i rb]])
          (use 4 kill_effect_good [OF good] in \<open>auto simp: handled_ok_def effect_def request_patterns\<close>)
      with 4 show ?thesis by (simp add: run_request_def)
    qed
  next
    case False
    have "wp b (run_request env i tgs req sv rb) (fine b lb i sv)"
    proof (cases req)
      case (Req_Join names keys)
      then have "registered_id (sv_clients sv) i"
        using issue_registered can c by (auto simp: registered_id_def)
      then show ?thesis using Req_Join ascii by (simp add: run_request_def cmd_join_fine [OF good _ rb])
    next
      case (Req_WhoIs nick)
      then have "wp b (cmd_whois env nick sv rb) (answers lb sv)"
        using ascii by (intro whois_query [OF good_inv [OF good] rb]) simp
      then show ?thesis using Req_WhoIs by (simp add: run_request_def q)
    next
      case (Req_Authenticate p)
      then show ?thesis using ascii by (simp add: run_request_def cmd_authenticate_def)
    next
      case (Req_MessageAll f cmd content)
      then show ?thesis using ascii by (simp add: run_request_def cmd_message_all_def)
    qed (use False ok ascii queries users channels in \<open>simp_all add: run_request_def request_patterns\<close>)
    moreover have "effect i req sv s \<longleftrightarrow> kept i sv s" for s
      using False by (cases req) (simp_all add: effect_def)
    ultimately show ?thesis
      by (elim wp_mono) (use False in \<open>auto simp: handled_ok_def fine_def\<close>)
  qed
qed

section \<open>After the handler\<close>

lemma wp_send_welcome:
  assumes "ihas i (sv_clients sv)" and "rb_inv lb rb"
  shows "wp b' (send_welcome i sv rb) (rb_inv lb)"
  using assms by (auto simp: send_welcome_def Let_def elim!: ihasE)

lemma apply_request_good:
  assumes good: "good b sv" and c: "iget i (sv_clients sv) = Some c"
    and app: "state_apply (cl_state c) req = Inr st" and "\<not> is_quit req"
    and named: "is_nick req \<longrightarrow> named i sv"
  shows "good b (sv\<lparr>sv_clients := iupd i (\<lambda>_. c\<lparr>cl_state := st\<rparr>) (sv_clients sv)\<rparr>)"
proof (rule iupd_good [OF good])
  fix d assume d: "iget i (sv_clients sv) = Some d" "client_ok d"
  then have "d = c" using c by simp
  moreover have "cl_nick c \<noteq> ''*''" if "nick_given st"
    using state_apply_nick [OF app that] d \<open>d = c\<close> named c by (auto simp: client_ok_def named_def)
  moreover have "st = Registered" if "cl_state c = Registered"
    using state_apply_registered [of req st] app that assms(4) by simp
  ultimately show "cl_nick (c\<lparr>cl_state := st\<rparr>) = cl_nick d \<and> client_ok (c\<lparr>cl_state := st\<rparr>)
      \<and> (client_is_registered d \<longrightarrow> client_is_registered (c\<lparr>cl_state := st\<rparr>))
      \<and> (\<not> b \<longrightarrow> client_ascii d \<longrightarrow> client_ascii (c\<lparr>cl_state := st\<rparr>))"
    using d by (auto simp: client_ok_def full_name_ok_def client_is_registered_def client_ascii_def)
qed

text \<open>What is sent to the issuer at the end: at most one item, which carries the label of the request.\<close>

definition answered :: "string \<Rightarrow> nat \<Rightarrow> (nat \<times> queue_item) list \<Rightarrow> bool" where
  "answered lb i d \<longleftrightarrow>
     (d = [] \<and> lb = []) \<or> (\<exists>it. d = [(i, it)] \<and> (lb \<noteq> [] \<longrightarrow> carries (label_text lb) (qi_buf it)))"

text \<open>After the handler: the connection state follows the request, and the issuer is answered.\<close>

definition set_state :: "nat \<Rightarrow> connection_state \<Rightarrow> server \<Rightarrow> server" where
  "set_state i st sv = sv\<lparr>sv_clients := iupd i (\<lambda>c. c\<lparr>cl_state := st\<rparr>) (sv_clients sv)\<rparr>"

definition settled :: "string \<Rightarrow> nat \<Rightarrow> request \<Rightarrow> handler_result \<Rightarrow> server \<Rightarrow> server \<Rightarrow> bool" where
  "settled lb i req res sv sv' \<longleftrightarrow>
     (\<exists>c st d. iget i (sv_clients sv) = Some c
        \<and> (if res = HOk then state_apply (cl_state c) req = Inr st else st = cl_state c)
        \<and> sv' = post (set_state i st sv) d \<and> answered lb i d)"

lemma client_send_buf [simp]: "qi_buf (client_send c it) = qi_buf it"
  by (simp add: client_send_def)

lemma queue_item_from_buf [simp]: "qi_buf (queue_item_from s) = s"
  by (simp add: queue_item_from_def)

lemma answered_item: "lb \<noteq> [] \<longrightarrow> carries (label_text lb) (qi_buf it) \<Longrightarrow> answered lb i [(i, client_send c it)]"
  by (simp add: answered_def)

lemma clients_tok: "good b sv \<Longrightarrow> tok ikey (sv_clients sv)"
  by (simp add: good_def server_inv_def clients_ok_def)

lemma set_state_client:
  assumes "good b sv" and "iget i (sv_clients sv) = Some c"
  shows "sv\<lparr>sv_clients := iupd i (\<lambda>_. c\<lparr>cl_state := st\<rparr>) (sv_clients sv)\<rparr> = set_state i st sv"
  using tupd_cong [of ikey i "sv_clients sv" "\<lambda>_. c\<lparr>cl_state := st\<rparr>" "\<lambda>c. c\<lparr>cl_state := st\<rparr>"]
    clients_tok [OF assms(1)] assms(2) by (simp add: set_state_def)

lemma set_state_same:
  assumes "good b sv" and "iget i (sv_clients sv) = Some c"
  shows "set_state i (cl_state c) sv = sv"
proof -
  have "iupd i (\<lambda>c'. c'\<lparr>cl_state := cl_state c\<rparr>) (sv_clients sv) = iupd i (\<lambda>c. c) (sv_clients sv)"
    using assms by (intro tupd_cong clients_tok) auto
  moreover have "iupd i (\<lambda>c. c) m = m" for m :: "client itable"
    by (rule tupd_same)
  ultimately show ?thesis by (simp add: set_state_def)
qed

lemma wp_finish_ok:
  assumes good: "good b sv" and c: "iget i (sv_clients sv) = Some c" and rb: "rb_inv lb rb"
    and app: "state_apply (cl_state c) req = Inr st" and quit: "\<not> is_quit req"
    and named: "is_nick req \<longrightarrow> named i sv"
  shows "wp b' (finish_ok i req sv rb) (\<lambda>(sv', rb'). good b sv' \<and> rb_inv lb rb' \<and> sv' = set_state i st sv)"
proof -
  let ?c = "c\<lparr>cl_state := st\<rparr>"
  let ?sv = "sv\<lparr>sv_clients := iupd i (\<lambda>_. ?c) (sv_clients sv)\<rparr>"
  have sv: "?sv = set_state i st sv" by (rule set_state_client [OF good c])
  have "good b ?sv" by (rule apply_request_good [OF good c app quit named])
  moreover have "ihas i (sv_clients ?sv)" using c by (simp add: thas_def)
  moreover from this have "wp b' (if client_is_registered ?c \<and> \<not> client_is_registered c
      then send_welcome i ?sv rb else Some rb) (rb_inv lb)"
    using wp_send_welcome rb by simp
  ultimately have "wp b' (if client_is_registered ?c \<and> \<not> client_is_registered c
      then send_welcome i ?sv rb else Some rb)
      (\<lambda>rb'. good b ?sv \<and> rb_inv lb rb' \<and> ?sv = set_state i st sv)"
    using sv by (auto elim: wp_mono)
  then show ?thesis
    using c app by (simp add: finish_ok_def client_apply_request_def Let_def)
qed

lemma wp_finish_request:
  assumes good: "good b sv" and c: "iget i (sv_clients sv) = Some c" and rb: "rb_inv lb rb"
    and app: "state_apply (cl_state c) req = Inr st" and quit: "\<not> is_quit req"
    and named: "is_nick req \<longrightarrow> res = HOk \<longrightarrow> named i sv"
  shows "wp b' (finish_request i req oper res sv rb) (\<lambda>(pts, sv'). good b sv' \<and> settled lb i req res sv sv')"
proof -
  let ?st = "if res = HOk then st else cl_state c"
  have "wp b' (if res = HOk then do { (sv, rb) \<leftarrow> finish_ok i req sv rb; Some (points req, sv, rb) }
          else Some (saturating_double (points req), sv, rb))
      (\<lambda>(pts, sv', rb'). good b sv' \<and> rb_inv lb rb' \<and> sv' = set_state i ?st sv)"
    using wp_finish_ok [OF good c rb app quit] named good rb c set_state_same [OF good c]
    by (auto simp: split_def elim: wp_mono)
  then have "wp b' (if res = HOk then do { (sv, rb) \<leftarrow> finish_ok i req sv rb; Some (points req, sv, rb) }
          else Some (saturating_double (points req), sv, rb))
      (\<lambda>(used_points, sv1, rb). wp b' (do {
       rb \<leftarrow> rb_lr_end rb;
       sv \<leftarrow> (if \<not> rb_is_empty rb
              then do { client \<leftarrow> iget i (sv_clients sv1);
                        Some (send i client (queue_item_from (rb_buf rb)) sv1) }
              else Some sv1);
       Some (if oper then 1 else used_points, sv) }) (\<lambda>(pts, sv'). good b sv' \<and> settled lb i req res sv sv'))"
  proof (rule wp_mono, clarify)
    fix p s rb1 assume *: "good b (set_state i ?st sv)" "rb_inv lb rb1"
    obtain rb2 where rb2: "rb_lr_end rb1 = Some rb2" "lb \<noteq> [] \<longrightarrow> carries (label_text lb) (rb_buf rb2)"
      using rb_lr_end_no_panic [OF *(2)] by blast
    have fin: "settled lb i req res sv (post (set_state i ?st sv) d)" if "answered lb i d" for d
      using c app that unfolding settled_def
      by (intro exI [of _ c] exI [of _ ?st] exI [of _ d]) simp
    have c': "iget i (sv_clients (set_state i ?st sv)) = Some (c\<lparr>cl_state := ?st\<rparr>)"
      using c by (simp add: set_state_def)
    have quiet: "rb_is_empty rb2 \<Longrightarrow> answered lb i []"
      using rb2(2) label_text_nonempty by (auto simp: rb_is_empty_def answered_def carries_def)
    show "wp b' (do {
       rb \<leftarrow> rb_lr_end rb1;
       sv \<leftarrow> (if \<not> rb_is_empty rb
              then do { client \<leftarrow> iget i (sv_clients (set_state i ?st sv));
                        Some (send i client (queue_item_from (rb_buf rb)) (set_state i ?st sv)) }
              else Some (set_state i ?st sv));
       Some (if oper then 1 else p, sv) }) (\<lambda>(pts, sv'). good b sv' \<and> settled lb i req res sv sv')"
      using rb2 c' *(1) fin [of "[]"] fin [OF answered_item] quiet by (simp add: send_post)
  qed
  then show ?thesis by (simp only: finish_request_def wp_bind) (simp add: split_def)
qed

text \<open>Everything a request does: the handler, and what follows it.\<close>

definition performed ::
  "bool \<Rightarrow> env \<Rightarrow> nat \<Rightarrow> string \<Rightarrow> string \<Rightarrow> request \<Rightarrow> server \<Rightarrow> reply_buffer \<Rightarrow> server \<Rightarrow> bool" where
  "performed b env i tgs lb req sv rb sv' \<longleftrightarrow>
     (\<exists>res s rb'. run_request env i tgs req sv rb = Some (res, s, rb') \<and> handled_ok b lb i req sv (res, s, rb')
        \<and> (if ihas i (sv_clients s) then settled lb i req res s sv' else sv' = s))"

lemma wp_handle_request:
  assumes good: "good b sv" and c: "iget i (sv_clients sv) = Some c"
    and can: "client_can_issue_request req c" and ok: "request_ok req" and rb: "rb_inv lb rb"
    and ascii: "b \<or> (implemented req \<and> clock_ok env sv req \<and> request_ascii req)"
  shows "wp b (handle_request env i tgs req oper sv rb)
    (\<lambda>(pts, sv'). good b sv' \<and> performed b env i tgs lb req sv rb sv')"
proof -
  have "wp b (run_request env i tgs req sv rb) (\<lambda>(res, s, rb1). wp b
      (if \<not> ihas i (sv_clients s) then Some (999999, s) else finish_request i req oper res s rb1)
      (\<lambda>(pts, sv'). good b sv' \<and> performed b env i tgs lb req sv rb sv'))"
  proof (rule wp_mono [OF wp_run_request [OF assms]], clarify)
    fix res s rb1 assume run: "run_request env i tgs req sv rb = Some (res, s, rb1)"
      and h: "handled_ok b lb i req sv (res, s, rb1)"
    then have s: "good b s" "rb_inv lb rb1" "effect i req sv s" by (simp_all add: handled_ok_def)
    note did = exI [of _ res, OF exI [of _ s, OF exI [of _ rb1]]]
    show "wp b (if \<not> ihas i (sv_clients s) then Some (999999, s) else finish_request i req oper res s rb1)
      (\<lambda>(pts, sv'). good b sv' \<and> performed b env i tgs lb req sv rb sv')"
    proof (cases "iget i (sv_clients s)")
      case (Some d)
      then have "cl_state d = cl_state c" by (rule effect_state [OF good s(3) c])
      then obtain st where "state_apply (cl_state d) req = Inr st"
        using can by (cases "state_apply (cl_state c) req") (auto simp: client_can_issue_request_def)
      moreover have "\<not> is_quit req" using h Some by (auto simp: handled_ok_def thas_def)
      moreover have "is_nick req \<longrightarrow> res = HOk \<longrightarrow> named i s" using h by (simp add: handled_ok_def)
      ultimately have "wp b (finish_request i req oper res s rb1)
          (\<lambda>(pts, sv'). good b sv' \<and> settled lb i req res s sv')"
        using wp_finish_request [OF s(1) Some s(2)] by simp
      then have "wp b (finish_request i req oper res s rb1)
          (\<lambda>(pts, sv'). good b sv' \<and> performed b env i tgs lb req sv rb sv')"
        by (rule wp_mono) (use run h Some in \<open>auto simp: performed_def thas_def\<close>)
      then show ?thesis using Some by (simp add: thas_def)
    next
      case None
      then show ?thesis using s run h by (auto simp: thas_def performed_def)
    qed
  qed
  then show ?thesis by (simp only: handle_request_def wp_bind) (simp add: split_def)
qed

section \<open>One message\<close>

text \<open>All that \<open>handle_message\<close> may do.\<close>

definition outcome :: "bool \<Rightarrow> env \<Rightarrow> nat \<Rightarrow> message \<Rightarrow> server \<Rightarrow> server \<Rightarrow> bool" where
  "outcome b env i msg sv sv' \<longleftrightarrow>
     (sv' = sv \<and> (\<not> ihas i (sv_clients sv) \<or> MAX_TAG_DATA_LENGTH < length (msg_tags msg)))
     \<or> (\<exists>d. sv' = post sv d \<and> d \<noteq> [] \<and> answered (message_label msg) i d)
     \<or> (\<exists>c req. iget i (sv_clients sv) = Some c \<and> request_new msg = Some (Inr req)
          \<and> client_can_issue_request req c
          \<and> performed b env i (msg_tags msg) (message_label msg) req sv (client_reply c (message_label msg)) sv')"

lemma rb_inv_request_error [simp]: "rb_inv lb rb \<Longrightarrow> rb_inv lb (reply_request_error client msg err rb)"
  by (cases err) (simp_all add: reply_need_more_params_def Let_def)

lemma rb_reply_no_label [simp]: "\<not> rb_has_label (rb_reply c cs rb)"
  by (simp add: rb_reply_def rb_prefixed_message_def rb_message_def)

lemma request_error_no_label: "\<not> rb_has_label (reply_request_error client msg err rb)"
  by (cases err) (simp_all add: reply_need_more_params_def reply_no_such_channel_def Let_def)

lemma outcome_reply:
  assumes "rb_inv (message_label msg) rb" and "\<not> rb_has_label rb"
  shows "outcome b env i msg sv (post sv [(i, client_send c (queue_item_from (rb_buf rb)))])"
proof -
  have "answered (message_label msg) i [(i, client_send c (queue_item_from (rb_buf rb)))]"
    using assms by (intro answered_item) (simp add: rb_inv_def)
  then show ?thesis unfolding outcome_def by blast
qed

lemma wp_handle_message:
  assumes good: "good b sv" and parse: "message_parse line = Some msg"
    and ascii: "b \<or> (ascii_str line \<and> (\<forall>req. request_new msg = Some (Inr req) \<longrightarrow> implemented req \<and> clock_ok env sv req))"
  shows "wp b (handle_message env i msg sv) (\<lambda>(pts, sv'). good b sv' \<and> outcome b env i msg sv sv')"
proof (cases "iget i (sv_clients sv)")
  case None
  then show ?thesis using good by (simp add: handle_message_def outcome_def thas_def)
next
  case (Some c)
  obtain res where res: "request_new msg = Some res" "\<And>r. res = Inr r \<Longrightarrow> request_ok r"
    using request_new_cases [OF parse] by blast
  have rb: "rb_inv (message_label msg) (client_reply c (message_label msg))" by (simp add: client_reply_def)
  have long: "MAX_TAG_DATA_LENGTH < length (msg_tags msg) \<Longrightarrow> outcome b env i msg sv sv" by (simp add: outcome_def)
  show ?thesis
  proof (cases res)
    case (Inl err)
    then show ?thesis using Some res good long outcome_reply [OF rb_inv_request_error [OF rb]] request_error_no_label
      by (simp add: handle_message_def Let_def send_post)
  next
    case (Inr req)
    have "b \<or> (implemented req \<and> clock_ok env sv req \<and> request_ascii req)"
      using ascii res(1) Inr request_texts_ascii [of msg req] parsed_params_ascii [OF parse]
        message_parse_shape(1) [OF parse] by auto
    then have run: "wp b (handle_request env i (msg_tags msg) req (cl_operator c) sv (client_reply c (message_label msg)))
        (\<lambda>(pts, sv'). good b sv' \<and> outcome b env i msg sv sv')" if "client_can_issue_request req c"
      by (intro wp_mono [OF wp_handle_request [OF good Some that res(2) [OF Inr] rb]])
        (use Some res Inr that in \<open>auto simp: outcome_def\<close>)
    have "rb_inv (message_label msg) (reply_cannot_issue c (client_reply c (message_label msg)))"
      "\<not> rb_has_label (reply_cannot_issue c (client_reply c (message_label msg)))"
      using rb by (simp_all add: reply_cannot_issue_def)
    from outcome_reply [OF this] show ?thesis
      using Some res Inr good long run by (simp add: handle_message_def Let_def send_post)
  qed
qed

section \<open>Steps\<close>

text \<open>What the tasks of the connections do to the shared state, one lock at a time.  For \<open>b = False\<close>
  the addresses and the lines are ASCII.\<close>

inductive server_step :: "bool \<Rightarrow> server \<Rightarrow> server \<Rightarrow> bool" for b where
  step_connect: "\<not> ihas fresh (sv_clients sv) \<Longrightarrow> b \<or> ascii_str (sa_ip addr) \<Longrightarrow>
     server_step b sv (peer_joined env fresh addr sv)"
| step_message: "message_parse line = Some msg \<Longrightarrow> b \<or> ascii_str line \<Longrightarrow>
     handle_message env i msg sv = Some (pts, sv') \<Longrightarrow> server_step b sv sv'"
| step_quit: "server_step b sv (peer_quit i err sv)"
| step_timeout: "server_step b sv (remove_if_unregistered i sv)"
| step_rehash: "server_step b sv (server_rehash cfg sv)"

inductive_cases server_stepE: "server_step b sv sv'"

inductive server_start :: "server \<Rightarrow> bool" where
  "server_start (server_new env motd cfg)"

definition reachable :: "bool \<Rightarrow> server \<Rightarrow> bool" where
  "reachable b sv \<longleftrightarrow> (\<exists>s. server_start s \<and> rtranclp (server_step b) s sv)"

lemma handle_message_outcome:
  assumes "good b sv" and "message_parse line = Some msg" and "b \<or> ascii_str line"
    and "handle_message env i msg sv = Some (pts, sv')"
  shows "good b sv' \<and> outcome b env i msg sv sv'"
proof (cases "b \<or> (\<forall>req. request_new msg = Some (Inr req) \<longrightarrow> implemented req \<and> clock_ok env sv req)")
  case True
  then show ?thesis
    using wp_handle_message [OF assms(1,2), of env i] assms(3,4) by (auto simp: wp_def)
next
  case todo: False
  then obtain req where req: "request_new msg = Some (Inr req)" "\<not> (implemented req \<and> clock_ok env sv req)" "\<not> b"
    by blast
  then have "run_request env i tgs req sv rb = None" for tgs rb
    using run_request_panics by blast
  then have "(\<not> ihas i (sv_clients sv) \<or> MAX_TAG_DATA_LENGTH < length (msg_tags msg)) \<and> sv' = sv
      \<or> (\<exists>c. sv' = post sv [(i, client_send c (queue_item_from
            (rb_buf (reply_cannot_issue c (client_reply c (message_label msg))))))])"
    using assms(4) req(1)
    by (auto simp: handle_message_def handle_request_def Let_def send_post thas_def split: option.splits if_splits)
  moreover have "rb_inv (message_label msg) (reply_cannot_issue c (client_reply c (message_label msg)))"
    "\<not> rb_has_label (reply_cannot_issue c (client_reply c (message_label msg)))" for c
    by (simp_all add: reply_cannot_issue_def client_reply_def)
  ultimately show ?thesis using assms(1) outcome_reply [of msg _ b env i sv] by (auto simp: outcome_def)
qed

lemmas handle_message_good = handle_message_outcome [THEN conjunct1]

lemma server_step_good: "good b sv \<Longrightarrow> server_step b sv sv' \<Longrightarrow> good b sv'"
proof (erule server_stepE)
  fix i assume "good b sv" "sv' = remove_if_unregistered i sv"
  then show "good b sv'"
    by (simp add: remove_if_unregistered_def remove_client_good split: option.splits)
next
  fix i err assume "good b sv" "sv' = peer_quit i err sv"
  then show "good b sv'" by (simp add: peer_quit_def remove_client_good split: option.splits)
qed (auto intro: handle_message_good simp: peer_joined_good rehash_good)

interpretation irc: preserved server_start "server_step b" "good b" for b
  by unfold_locales (auto elim: server_start.cases intro: server_new_good server_step_good)

lemma reachable_good: "reachable b sv \<Longrightarrow> good b sv"
  by (auto simp: reachable_def intro: irc.reached_inv)

lemma reachable_inv: "reachable b sv \<Longrightarrow> server_inv sv"
  by (rule good_inv [OF reachable_good])

lemma reachable_start: "reachable b (server_new env motd cfg)"
  by (auto simp: reachable_def intro: server_start.intros)

lemma reachable_step: "reachable b sv \<Longrightarrow> server_step b sv sv' \<Longrightarrow> reachable b sv'"
  by (auto simp: reachable_def intro: rtranclp.rtrancl_into_rtrancl)

end
