(* ===== verification/Net.thy ===== *)
theory Net
  imports Reader ServerSafe
begin

text \<open>
  \<open>src/net.rs\<close>: what a connection does - the accepting task, the rate limiter, and the loop that reads
  messages and hands them to the state.  Sockets, TLS (rustls) and the clock are parameters.
\<close>

section \<open>Accepting connections\<close>

text \<open>\<open>build_acceptor\<close>.  The file system, the PEM parser and rustls are the arguments \<open>read\<close>, \<open>certs\<close>,
  \<open>keys\<close> and \<open>set_cert\<close>; the boxed errors are told apart by where they come from.\<close>

datatype ('io, 'tls) acceptor_error =
    ReadError 'io
  | ParseError
  | NoKeyError
  | CertError 'tls

definition build_acceptor ::
  "(string \<Rightarrow> 'io + string) \<Rightarrow> (string \<Rightarrow> 'cert list option) \<Rightarrow> (string \<Rightarrow> 'key list option)
   \<Rightarrow> ('cert list \<Rightarrow> 'key \<Rightarrow> 'tls + 'acc) \<Rightarrow> string \<Rightarrow> string \<Rightarrow> ('io, 'tls) acceptor_error + 'acc" where
  "build_acceptor read certs keys set_cert certfile keyfile =
     (case read certfile of
        Inl err \<Rightarrow> Inl (ReadError err)
      | Inr cert_text \<Rightarrow>
          (case certs cert_text of
             None \<Rightarrow> Inl ParseError
           | Some cert \<Rightarrow>
               (case read keyfile of
                  Inl err \<Rightarrow> Inl (ReadError err)
                | Inr key_text \<Rightarrow>
                    (case keys key_text of
                       None \<Rightarrow> Inl ParseError
                     | Some [] \<Rightarrow> Inl NoKeyError
                     | Some (key # _) \<Rightarrow>
                         (case set_cert cert key of
                            Inl err \<Rightarrow> Inl (CertError err)
                          | Inr acceptor \<Rightarrow> Inr acceptor)))))"

text \<open>An acceptor is built exactly from two readable files, the certificates of the one and the first
  key of the other; each failure says why.\<close>

lemma build_acceptor_ok:
  "build_acceptor read certs keys set_cert certfile keyfile = Inr acceptor \<longleftrightarrow>
     (\<exists>ct cert kt key rest. read certfile = Inr ct \<and> certs ct = Some cert \<and> read keyfile = Inr kt
        \<and> keys kt = Some (key # rest) \<and> set_cert cert key = Inr acceptor)"
  by (auto simp: build_acceptor_def split: sum.splits option.splits list.splits)

lemma build_acceptor_no_key:
  "build_acceptor read certs keys set_cert certfile keyfile = Inl NoKeyError \<Longrightarrow>
     \<exists>kt. read keyfile = Inr kt \<and> keys kt = Some []"
  by (auto simp: build_acceptor_def split: sum.splits option.splits list.splits)

text \<open>\<open>TlsIdentityStore::acceptor\<close>: a cache keyed by the path of the certificate; \<open>build\<close> is
  \<open>build_acceptor\<close>, which reads the files and asks rustls.\<close>

type_synonym 'acc tls_store = "string \<rightharpoonup> 'acc"

definition store_acceptor ::
  "(string \<Rightarrow> string \<Rightarrow> 'e + 'acc) \<Rightarrow> string \<Rightarrow> string \<Rightarrow> 'acc tls_store \<Rightarrow> ('e + 'acc) \<times> 'acc tls_store" where
  "store_acceptor build cert key store =
     (case store cert of
        Some acceptor \<Rightarrow> (Inr acceptor, store)
      | None \<Rightarrow>
          (case build cert key of
             Inl e \<Rightarrow> (Inl e, store)
           | Inr acceptor \<Rightarrow> (Inr acceptor, store(cert \<mapsto> acceptor))))"

text \<open>\<open>control::Command\<close>, what the accepting task hears, and what it starts.\<close>

datatype 'acc control_command = UsePlain | UseTls 'acc

datatype 'acc listen_event =
    Accepted socket_addr
  | AcceptFailed
  | Commanded "'acc control_command"
  | ChannelClosed

datatype 'acc served = ServedTcp socket_addr | ServedTls socket_addr 'acc

text \<open>The loop of \<open>listen\<close>: what it starts, and the acceptor it goes on with, or \<^const>\<open>None\<close> when it
  has gone offline.\<close>

fun listen_loop :: "'acc option \<Rightarrow> 'acc listen_event list \<Rightarrow> 'acc served list \<times> 'acc option option" where
  "listen_loop acceptor [] = ([], Some acceptor)"
| "listen_loop acceptor (Accepted peer # es) =
     (let (started, final) = listen_loop acceptor es
      in ((case acceptor of Some a \<Rightarrow> ServedTls peer a | None \<Rightarrow> ServedTcp peer) # started, final))"
| "listen_loop acceptor (AcceptFailed # es) = listen_loop acceptor es"
| "listen_loop acceptor (Commanded UsePlain # es) = listen_loop None es"
| "listen_loop acceptor (Commanded (UseTls a) # es) = listen_loop (Some a) es"
| "listen_loop acceptor (ChannelClosed # es) = ([], None)"

text \<open>\<open>listen\<close>: binding may fail, and then the address is sent to the control task.\<close>

datatype 'acc listen_result = BindFailed socket_addr | Listened "'acc served list" "'acc option option"

definition listen ::
  "bool \<Rightarrow> socket_addr \<Rightarrow> 'acc option \<Rightarrow> 'acc listen_event list \<Rightarrow> 'acc listen_result" where
  "listen bound addr acceptor es =
     (if \<not> bound then BindFailed addr
      else case listen_loop acceptor es of (started, final) \<Rightarrow> Listened started final)"

definition KEEPALIVE_SECS :: "64 word" where "KEEPALIVE_SECS = 75"
definition TLS_TIMEOUT_SECS :: "64 word" where "TLS_TIMEOUT_SECS = 30"

text \<open>Which connection gets to \<open>handle\<close>, if any.  \<open>set_keepalive\<close> sets the option of a socket and may
  fail; \<open>accept\<close> is the TLS handshake within so many seconds, whose outer error is the timeout.\<close>

definition handle_tcp :: "('sock \<Rightarrow> 64 word \<Rightarrow> bool) \<Rightarrow> 'sock \<Rightarrow> 'sock option" where
  "handle_tcp set_keepalive conn = (if set_keepalive conn KEEPALIVE_SECS then Some conn else None)"

definition handle_tls ::
  "('sock \<Rightarrow> 64 word \<Rightarrow> bool) \<Rightarrow> (64 word \<Rightarrow> 'acc \<Rightarrow> 'sock \<Rightarrow> unit + 'e + 'conn) \<Rightarrow> 'sock \<Rightarrow> 'acc \<Rightarrow> 'conn option" where
  "handle_tls set_keepalive accept conn acceptor =
     (if \<not> set_keepalive conn KEEPALIVE_SECS then None
      else case accept TLS_TIMEOUT_SECS acceptor conn of Inr (Inr tls_conn) \<Rightarrow> Some tls_conn | _ \<Rightarrow> None)"

section \<open>The rate limiter\<close>

text \<open>Checked arithmetic of \<open>u32\<close>: an overflow panics in a debug build.\<close>

definition u32_add :: "32 word \<Rightarrow> 32 word \<Rightarrow> 32 word option" where
  "u32_add a b = (if unat a + unat b < 2 ^ 32 then Some (a + b) else None)"

definition u32_mul :: "32 word \<Rightarrow> 32 word \<Rightarrow> 32 word option" where
  "u32_mul a b = (if unat a * unat b < 2 ^ 32 then Some (a * b) else None)"

definition u32_div :: "32 word \<Rightarrow> 32 word \<Rightarrow> 32 word option" where
  "u32_div a b = (if b = 0 then None else Some (a div b))"

definition u32_saturating_sub :: "32 word \<Rightarrow> 32 word \<Rightarrow> 32 word" where
  "u32_saturating_sub a b = (if b \<le> a then a - b else 0)"

text \<open>Instants are in nanoseconds.\<close>

record limiter =
  lm_used_points :: "32 word"
  lm_last_round :: nat

definition millis_u32 :: "nat \<Rightarrow> 32 word" where
  "millis_u32 elapsed =
     (let millis = elapsed div 1000000 in if 2 ^ 32 - 1 < millis then - 1 else of_nat millis)"

text \<open>One round of the macro \<open>rate_limit!\<close> after the future gave its points: the new state and the
  delay in milliseconds, if any.\<close>

definition rate_round ::
  "32 word \<Rightarrow> 32 word \<Rightarrow> 32 word \<Rightarrow> nat \<Rightarrow> limiter \<Rightarrow> (limiter \<times> 32 word option) option" where
  "rate_round rate burst pts now lm =
     do {
       used_points \<leftarrow> u32_add (lm_used_points lm) pts;
       (if burst < used_points then
          do {
            let elapsed = now - lm_last_round lm;
            refill \<leftarrow> u32_div (millis_u32 elapsed) rate;
            let used_points = u32_saturating_sub used_points refill;
            let last_round = lm_last_round lm + elapsed;
            (if burst < used_points then
               do {
                 wait_millis \<leftarrow> u32_mul (used_points - burst) rate;
                 Some (\<lparr>lm_used_points = burst, lm_last_round = last_round + unat wait_millis * 1000000\<rparr>,
                       Some wait_millis)
               }
             else Some (\<lparr>lm_used_points = used_points, lm_last_round = last_round\<rparr>, None))
          }
        else Some (lm\<lparr>lm_used_points := used_points\<rparr>, None))
     }"

section \<open>A connection\<close>

definition handle_buffer :: "env \<Rightarrow> nat \<Rightarrow> string \<Rightarrow> server \<Rightarrow> (32 word \<times> server) option" where
  "handle_buffer env i buf sv =
     (case message_parse buf of
        Some msg \<Rightarrow> handle_message env i msg sv
      | None \<Rightarrow> Some (1, sv))"

text \<open>The future of one round: read a message, handle it.\<close>

datatype 'e io_error = ReadFailed "'e read_error" | UnexpectedEof | WriteFailed 'e

definition incoming_once ::
  "('r, 'e) filler \<Rightarrow> 'r consumer \<Rightarrow> env \<Rightarrow> nat \<Rightarrow> 'r \<Rightarrow> server
   \<Rightarrow> (('e io_error + 32 word) \<times> 'r \<times> server) option" where
  "incoming_once fill consume env i r sv =
     (case read_message fill consume r 512 [] of
        (Inl e, r, _) \<Rightarrow> Some (Inl (ReadFailed e), r, sv)
      | (Inr n, r, buf) \<Rightarrow>
          if n = 0 then Some (Inl UnexpectedEof, r, sv)
          else do { (pts, sv) \<leftarrow> handle_buffer env i buf sv; Some (Inr pts, r, sv) })"

text \<open>The rounds of a connection.  Each comes with its surroundings, the time at its end, and what the
  other tasks have done to the state before it.  A run ends with an error, or when the list is
  exhausted: the outgoing half has ended first.\<close>

fun incoming ::
  "('r, 'e) filler \<Rightarrow> 'r consumer \<Rightarrow> nat \<Rightarrow> (env \<times> nat \<times> (server \<Rightarrow> server)) list \<Rightarrow> limiter \<Rightarrow> 'r \<Rightarrow> server
   \<Rightarrow> ('e io_error option \<times> server) option" where
  "incoming fill consume i [] lm r sv = Some (None, sv)"
| "incoming fill consume i ((env, now, interference) # rounds) lm r sv =
     (case incoming_once fill consume env i r (interference sv) of
        None \<Rightarrow> None
      | Some (Inl e, r, sv) \<Rightarrow> Some (Some e, sv)
      | Some (Inr pts, r, sv) \<Rightarrow>
          (case rate_round 125 32 pts now lm of
             None \<Rightarrow> None
           | Some (lm, _) \<Rightarrow> incoming fill consume i rounds lm r sv))"

text \<open>The outgoing half writes the items of the queue, until the queue is closed, since the client was
  removed, or until \<open>write_all\<close> on the socket fails: the error, if any, and the socket.\<close>

fun outgoing :: "('w \<Rightarrow> string \<Rightarrow> 'e + 'w) \<Rightarrow> queue_item list \<Rightarrow> 'w \<Rightarrow> ('e option \<times> 'w) option" where
  "outgoing write_all [] writer = Some (None, writer)"
| "outgoing write_all (msg # queue) writer =
     (case queue_item_as_ref msg of
        None \<Rightarrow> None
      | Some s \<Rightarrow>
          (case write_all writer s of
             Inl err \<Rightarrow> Some (Some err, writer)
           | Inr writer \<Rightarrow> outgoing write_all queue writer))"

text \<open>\<open>handle\<close>: the half that ends first decides with which error the client leaves.  \<open>ended\<close> is the
  error of the outgoing half, used when that half is the first; \<open>describe\<close> is the text of an error.
  \<^const>\<open>None\<close> is a panic: then the task ends where it is, \<open>peer_quit\<close> is not called and the client stays,
  which the steps of theory \<^verbatim>\<open>Tasks\<close> follow further.\<close>

definition handle_connection ::
  "('r, 'e) filler \<Rightarrow> 'r consumer \<Rightarrow> ('e io_error \<Rightarrow> string) \<Rightarrow> env \<Rightarrow> nat \<Rightarrow> socket_addr \<Rightarrow> nat
   \<Rightarrow> (env \<times> nat \<times> (server \<Rightarrow> server)) list \<Rightarrow> 'e option \<Rightarrow> 'r \<Rightarrow> server \<Rightarrow> server option" where
  "handle_connection fill consume describe env fresh addr start rounds ended r sv =
     do {
       (err, sv) \<leftarrow> incoming fill consume fresh rounds \<lparr>lm_used_points = 0, lm_last_round = start\<rparr> r
                      (peer_joined env fresh addr sv);
       let res = (case err of Some err \<Rightarrow> Some err | None \<Rightarrow> map_option WriteFailed ended);
       Some (peer_quit fresh (map_option describe res) sv)
     }"

text \<open>\<open>login_timeout\<close>: the delay, then the removal.\<close>

definition login_timeout :: "nat \<Rightarrow> server \<Rightarrow> 64 word \<times> (server \<Rightarrow> server)" where
  "login_timeout i sv = (sv_login_timeout sv, remove_if_unregistered i)"

section \<open>Facts about the rate limiter\<close>

lemma u32_add_Some: "u32_add a b = Some c \<longleftrightarrow> unat a + unat b < 2 ^ 32 \<and> c = a + b"
  by (auto simp: u32_add_def)

lemma unat_u32_add: "unat (a :: 32 word) + unat b < 2 ^ 32 \<Longrightarrow> unat (a + b) = unat a + unat b"
  using unat_add_lem [of a b] by simp

lemma unat_u32_mul: "unat (a :: 32 word) * unat b < 2 ^ 32 \<Longrightarrow> unat (a * b) = unat a * unat b"
  using unat_mult_lem [of a b] by simp

lemma unat_saturating_sub: "unat (u32_saturating_sub a b) = unat a - unat b"
  by (auto simp: u32_saturating_sub_def unat_sub word_le_nat_alt)

lemma unat_millis: "unat (millis_u32 elapsed) \<le> elapsed div 1000000"
proof (cases "2 ^ 32 - 1 < elapsed div 1000000")
  case True
  have "unat (- 1 :: 32 word) = 2 ^ 32 - 1" by (simp add: unsigned_minus_1_eq_mask mask_eq_exp_minus_1)
  with True show ?thesis by (simp add: millis_u32_def Let_def)
next
  case False
  then show ?thesis by (simp add: millis_u32_def Let_def unat_of_nat)
qed

text \<open>A round pays for its points with points kept or with time.\<close>

lemma rate_round_pays:
  assumes "rate_round rate burst pts now lm = Some (lm', wait)" and "lm_last_round lm \<le> now"
  shows "(unat (lm_used_points lm) + unat pts) * (unat rate * 1000000)
      + lm_last_round lm
    \<le> unat (lm_used_points lm') * (unat rate * 1000000) + lm_last_round lm'"
    and "lm_used_points lm' \<le> burst" and "lm_last_round lm \<le> lm_last_round lm'"
proof -
  let ?K = "unat rate * 1000000"
  obtain u where u: "u32_add (lm_used_points lm) pts = Some u"
    using assms(1) by (cases "u32_add (lm_used_points lm) pts") (auto simp: rate_round_def)
  then have nu: "unat u = unat (lm_used_points lm) + unat pts"
    by (auto simp: u32_add_Some unat_u32_add)
  have "(unat (lm_used_points lm) + unat pts) * ?K + lm_last_round lm
      \<le> unat (lm_used_points lm') * ?K + lm_last_round lm'
    \<and> lm_used_points lm' \<le> burst \<and> lm_last_round lm \<le> lm_last_round lm'"
  proof (cases "burst < u")
    case False
    then have "lm' = lm\<lparr>lm_used_points := u\<rparr>" using assms(1) u by (simp add: rate_round_def)
    then show ?thesis using False nu by (simp add: not_less)
  next
    case True
    let ?e = "now - lm_last_round lm" and ?last = "lm_last_round lm + (now - lm_last_round lm)"
    have rate: "rate \<noteq> 0" using assms(1) u True by (auto simp: rate_round_def u32_div_def)
    define v where "v = u32_saturating_sub u (millis_u32 ?e div rate)"
    have "unat (millis_u32 ?e div rate) * ?K \<le> ?e"
    proof -
      have "unat (millis_u32 ?e div rate) * unat rate \<le> unat (millis_u32 ?e)"
        by (simp add: unat_div_distrib)
      also have "\<dots> \<le> ?e div 1000000" by (rule unat_millis)
      finally have "unat (millis_u32 ?e div rate) * unat rate * 1000000 \<le> ?e div 1000000 * 1000000"
        by simp
      also have "\<dots> \<le> ?e" by simp
      finally show ?thesis by (simp add: mult.assoc)
    qed
    moreover have "unat u \<le> unat v + unat (millis_u32 ?e div rate)"
      by (simp add: v_def unat_saturating_sub)
    then have "unat u * ?K \<le> (unat v + unat (millis_u32 ?e div rate)) * ?K" by (rule mult_le_mono1)
    ultimately have pay: "unat u * ?K \<le> unat v * ?K + ?e" by (simp add: distrib_right)
    show ?thesis
    proof (cases "burst < v")
      case False
      then have "lm' = \<lparr>lm_used_points = v, lm_last_round = ?last\<rparr>"
        using assms(1) u True rate by (simp add: rate_round_def u32_div_def Let_def v_def)
      then show ?thesis using False pay nu by (simp add: not_less)
    next
      case wait: True
      then obtain w where w: "u32_mul (v - burst) rate = Some w"
        and lm': "lm' = \<lparr>lm_used_points = burst, lm_last_round = ?last + unat w * 1000000\<rparr>"
        using assms(1) u True rate
        by (cases "u32_mul (v - burst) rate") (auto simp: rate_round_def u32_div_def Let_def v_def)
      have "unat w = (unat v - unat burst) * unat rate"
        using w wait unat_u32_mul [of "v - burst" rate]
        by (auto simp: u32_mul_def unat_sub word_less_nat_alt word_le_nat_alt split: if_splits)
      then have "unat v * ?K = unat burst * ?K + unat w * 1000000"
        using wait by (simp add: word_less_nat_alt diff_mult_distrib)
      then show ?thesis using lm' pay nu by simp
    qed
  qed
  then show "(unat (lm_used_points lm) + unat pts) * ?K + lm_last_round lm
      \<le> unat (lm_used_points lm') * ?K + lm_last_round lm'"
    "lm_used_points lm' \<le> burst" "lm_last_round lm \<le> lm_last_round lm'"
    by blast+
qed

text \<open>The rounds of a limiter, with the points of each; the delay of a round has passed when the next
  one ends.\<close>

inductive limiter_step :: "32 word \<Rightarrow> 32 word \<Rightarrow> limiter \<Rightarrow> limiter \<Rightarrow> bool" for rate burst where
  "lm_last_round lm \<le> now \<Longrightarrow> rate_round rate burst pts now lm = Some (lm', wait) \<Longrightarrow>
     limiter_step rate burst lm lm'"

inductive_cases limiter_stepE: "limiter_step rate burst lm lm'"

inductive rated :: "32 word \<Rightarrow> 32 word \<Rightarrow> limiter \<Rightarrow> 32 word list \<Rightarrow> limiter \<Rightarrow> bool" for rate burst where
  rated_Nil: "rated rate burst lm [] lm"
| rated_Cons: "lm_last_round lm \<le> now \<Longrightarrow> rate_round rate burst pts now lm = Some (lm1, wait) \<Longrightarrow>
     rated rate burst lm1 ps lm2 \<Longrightarrow> rated rate burst lm (pts # ps) lm2"

interpretation limiter_bound: preserved "\<lambda>lm. lm_used_points lm \<le> burst" "limiter_step rate burst"
  "\<lambda>lm. lm_used_points lm \<le> burst" for rate burst
  by unfold_locales (auto elim!: limiter_stepE intro: rate_round_pays(2))

lemma rated_steps: "rated rate burst lm ps lm' \<Longrightarrow> rtranclp (limiter_step rate burst) lm lm'"
  by (induction rule: rated.induct) (auto intro: converse_rtranclp_into_rtranclp limiter_step.intros)

lemma rated_pays:
  assumes "rated rate burst lm ps lm'"
  shows "(unat (lm_used_points lm) + sum_list (map unat ps)) * (unat rate * 1000000) + lm_last_round lm
    \<le> unat (lm_used_points lm') * (unat rate * 1000000) + lm_last_round lm'"
  using assms
proof (induction rule: rated.induct)
  case (rated_Cons lm now pts lm1 wait ps lm2)
  have "(unat (lm_used_points lm) + unat pts) * (unat rate * 1000000) + lm_last_round lm
      \<le> unat (lm_used_points lm1) * (unat rate * 1000000) + lm_last_round lm1"
    by (rule rate_round_pays(1) [OF rated_Cons.hyps(2,1)])
  with rated_Cons.IH show ?case by (simp add: add_mult_distrib)
qed simp

text \<open>The points that the state charges.\<close>

lemma points_unat: "unat (points r) \<le> 24" "unat (saturating_double (points r)) \<le> 48"
proof -
  show "unat (points r) \<le> 24" using points_range(2) [of r] by (simp add: word_le_nat_alt)
  then show "unat (saturating_double (points r)) \<le> 48"
    using unat_u32_mul [of 2 "points r"] by (simp add: saturating_double_def)
qed

lemma handle_request_points:
  "handle_request env i tgs req oper sv rb = Some (pts, sv') \<Longrightarrow> unat pts \<le> 999999"
  using points_unat [of req]
  by (auto simp: handle_request_def finish_request_def Let_def bind_eq_Some_conv split: if_splits prod.splits)

lemma handle_message_points:
  "handle_message env i msg sv = Some (pts, sv') \<Longrightarrow> unat pts \<le> 999999"
  using handle_request_points
  by (auto simp: handle_message_def Let_def split: option.splits sum.splits if_splits)

lemma incoming_once_points:
  "incoming_once fill consume env i r sv = Some (Inr pts, r', sv') \<Longrightarrow> unat pts \<le> 999999"
  using handle_message_points
  by (auto simp: incoming_once_def handle_buffer_def bind_eq_Some_conv
      split: prod.splits sum.splits if_splits option.splits)

lemma rate_round_total:
  assumes "lm_used_points lm \<le> 32" and "unat pts \<le> 999999"
  shows "\<exists>lm' wait. rate_round 125 32 pts now lm = Some (lm', wait)
    \<and> (\<forall>m. wait = Some m \<longrightarrow> unat m \<le> 999999 * 125)"
proof -
  let ?u = "lm_used_points lm + pts"
  have used: "unat (lm_used_points lm) \<le> 32" using assms(1) by (simp add: word_le_nat_alt)
  then have u: "u32_add (lm_used_points lm) pts = Some ?u" and nu: "unat ?u \<le> 32 + 999999"
    using assms(2) by (auto simp: u32_add_def unat_u32_add)
  define v where "v = u32_saturating_sub ?u (millis_u32 (now - lm_last_round lm) div 125)"
  have v: "unat v \<le> 32 + 999999" using nu by (simp add: v_def unat_saturating_sub)
  show ?thesis
  proof (cases "32 < ?u \<and> 32 < v")
    case True
    then have d: "unat (v - 32) = unat v - 32"
      by (simp add: unat_sub word_less_nat_alt word_le_nat_alt)
    then have "unat (v - 32) * unat (125 :: 32 word) \<le> 999999 * 125" using v by simp
    then have "u32_mul (v - 32) 125 = Some ((v - 32) * 125)" "unat ((v - 32) * 125) \<le> 999999 * 125"
      using unat_u32_mul [of "v - 32" 125] by (auto simp: u32_mul_def)
    with True u show ?thesis by (simp add: rate_round_def u32_div_def Let_def v_def)
  next
    case False
    then show ?thesis using u by (auto simp: rate_round_def u32_div_def Let_def v_def)
  qed
qed

lemma rate_round_used:
  assumes "rate_round rate burst pts now lm = Some (lm', wait)"
  shows "lm_used_points lm' \<le> burst"
proof -
  obtain u where "u32_add (lm_used_points lm) pts = Some u"
    using assms by (cases "u32_add (lm_used_points lm) pts") (auto simp: rate_round_def)
  then show ?thesis
    using assms by (cases "burst < u") (auto simp: rate_round_def Let_def bind_eq_Some_conv not_less split: if_splits)
qed

section \<open>Facts about a connection\<close>

lemma incoming_once_reachable:
  assumes "reachable True sv" and "incoming_once fill consume env i r sv = Some (res, r', sv')"
  shows "reachable True sv'"
  using assms
  by (auto simp: incoming_once_def handle_buffer_def bind_eq_Some_conv
      split: prod.splits sum.splits if_splits option.splits intro: reachable_step step_message)

lemma incoming_reachable:
  assumes "\<forall>(env, now, interference) \<in> set rounds. \<forall>s. reachable True s \<longrightarrow> reachable True (interference s)"
    and "reachable True sv" and "incoming fill consume i rounds lm r sv = Some (err, sv')"
  shows "reachable True sv'"
  using assms
proof (induction rounds arbitrary: lm r sv)
  case (Cons round rounds)
  obtain env now g where round: "round = (env, now, g)" by (cases round)
  have g: "reachable True (g sv)" using Cons.prems(1,2) round by auto
  obtain res r1 sv1 where once: "incoming_once fill consume env i r (g sv) = Some (res, r1, sv1)"
    using Cons.prems(3) round by (auto split: option.splits)
  have "reachable True sv1" by (rule incoming_once_reachable [OF g once])
  then show ?case
    using Cons.prems Cons.IH [of sv1] round once by (auto split: sum.splits option.splits)
qed simp

lemma gone_everywhere:
  assumes "server_inv sv" and "\<not> ihas i (sv_clients sv)"
  shows "\<forall>n. uget n (sv_nicks sv) \<noteq> Some i"
    and "\<forall>e \<in> set (sv_channels sv). i \<notin> set (tkeys (ch_members (snd e)))"
proof -
  show "\<forall>n. uget n (sv_nicks sv) \<noteq> Some i"
    using inv_nick_client [OF assms(1)] assms(2) by (fastforce simp: thas_def)
  show "\<forall>e \<in> set (sv_channels sv). i \<notin> set (tkeys (ch_members (snd e)))"
    using inv_entry [OF assms(1)] chan_ok_members assms(2) by blast
qed

section \<open>Properties\<close>

text \<open>C35: The rate limiter never overflows.  Every round of a connection charges at most 999999 points;
  with the rate and the burst of the server, the 32-bit arithmetic of the limiter stays in range, the
  points left over are at most the burst, and the delay is at most 124999875 milliseconds, a little less
  than a day and a half.\<close>

theorem rate_limiter_in_range:
  assumes "lm_used_points lm \<le> 32" and "incoming_once fill consume env i r sv = Some (Inr pts, r', sv')"
    and "lm_last_round lm \<le> now"
  shows "\<exists>lm' wait. rate_round 125 32 pts now lm = Some (lm', wait) \<and> lm_used_points lm' \<le> 32
    \<and> (\<forall>m. wait = Some m \<longrightarrow> unat m \<le> 124999875)"
proof -
  obtain lm' wait where *: "rate_round 125 32 pts now lm = Some (lm', wait)"
    "\<forall>m. wait = Some m \<longrightarrow> unat m \<le> 999999 * 125"
    using rate_round_total [OF assms(1) incoming_once_points [OF assms(2)]] by blast
  moreover have "lm_used_points lm' \<le> 32" by (rule rate_round_pays(2) [OF *(1) assms(3)])
  ultimately show ?thesis by auto
qed

text \<open>C36: The rate limiter limits the rate.  Over any rounds that start with an empty account, the
  points charged are at most 32 and one for each 125 milliseconds that have passed: the burst, and the
  rate.\<close>

theorem rate_limiter_bounds_rate:
  assumes "rated 125 32 \<lparr>lm_used_points = 0, lm_last_round = start\<rparr> ps lm"
  shows "sum_list (map unat ps) * 125000000 \<le> 32 * 125000000 + (lm_last_round lm - start)"
proof -
  have "lm_used_points lm \<le> 32"
    by (rule limiter_bound.reached_inv [OF _ rated_steps [OF assms]]) simp
  then have "unat (lm_used_points lm) \<le> 32" by (simp add: word_le_nat_alt)
  moreover have "sum_list (map unat ps) * 125000000 + start \<le> unat (lm_used_points lm) * 125000000 + lm_last_round lm"
    using rated_pays [OF assms] by simp
  ultimately show ?thesis by linarith
qed

theorem rate_limiter_bounds_rate_witness:
  "sum_list (map unat [20, 24 :: 32 word]) * 125000000 \<le> (32 :: nat) * 125000000 + (2001000000 - 1000000)"
proof -
  have one: "rate_round 125 32 20 2000000 \<lparr>lm_used_points = 0, lm_last_round = 1000000\<rparr>
      = Some (\<lparr>lm_used_points = 20, lm_last_round = 1000000\<rparr>, None)"
    by (simp add: rate_round_def u32_add_def)
  have "millis_u32 2000000000 = 2000" by (simp add: millis_u32_def)
  then have two: "rate_round 125 32 24 2001000000 \<lparr>lm_used_points = 20, lm_last_round = 1000000\<rparr>
      = Some (\<lparr>lm_used_points = 28, lm_last_round = 2001000000\<rparr>, None)"
    by (simp add: rate_round_def u32_add_def u32_div_def u32_saturating_sub_def Let_def)
  have "rated 125 32 \<lparr>lm_used_points = 0, lm_last_round = 1000000\<rparr> [20, 24]
      \<lparr>lm_used_points = 28, lm_last_round = 2001000000\<rparr>"
    by (rule rated_Cons [OF _ one], simp, rule rated_Cons [OF _ two], simp, rule rated_Nil)
  from rate_limiter_bounds_rate [OF this] show ?thesis by simp
qed

text \<open>However a connection ends - by an error of either half or because the client was removed - and
  whatever the other tasks do to the state in between, when \<open>handle\<close> gets to its end the state is
  reachable, and the identifier of the client is in no table.\<close>

lemma connection_end:
  assumes "reachable True sv" and "\<not> ihas fresh (sv_clients sv)"
    and "\<forall>(env, now, interference) \<in> set rounds. \<forall>s. reachable True s \<longrightarrow> reachable True (interference s)"
    and "handle_connection fill consume describe env fresh addr start rounds ended r sv = Some sv'"
  shows "reachable True sv' \<and> \<not> ihas fresh (sv_clients sv') \<and> (\<forall>n. uget n (sv_nicks sv') \<noteq> Some fresh)
    \<and> (\<forall>e \<in> set (sv_channels sv'). fresh \<notin> set (tkeys (ch_members (snd e))))"
proof -
  have joined: "reachable True (peer_joined env fresh addr sv)"
    using assms(1,2) by (auto intro: reachable_step step_connect)
  obtain err res s where run: "incoming fill consume fresh rounds \<lparr>lm_used_points = 0, lm_last_round = start\<rparr> r
      (peer_joined env fresh addr sv) = Some (err, s)" and sv': "sv' = peer_quit fresh (map_option describe res) s"
    using assms(4) by (auto simp: handle_connection_def bind_eq_Some_conv Let_def)
  have s: "reachable True s" by (rule incoming_reachable [OF assms(3) joined run])
  then have r': "reachable True sv'" unfolding sv' by (rule reachable_step) (rule step_quit)
  have "\<not> ihas fresh (sv_clients sv')"
    unfolding sv' peer_quit_def using remove_client_good(3) [OF reachable_good [OF s]]
    by (auto split: option.splits)
  then show ?thesis using r' gone_everywhere [OF reachable_inv [OF r']] by blast
qed

text \<open>A sample state, for the witnesses.\<close>

definition env_sample :: env where
  "env_sample = \<lparr>env_now = 0, env_time_str = ''now'', env_time_precise = ''now'', env_message_id = ''id''\<rparr>"

definition server_sample :: server where
  "server_sample = server_new env_sample None state_config_sample"

lemma server_sample_reachable: "reachable b server_sample"
  by (simp add: server_sample_def reachable_start)

lemma server_sample_empty [simp]: "sv_clients server_sample = []"
  by (simp add: server_sample_def server_new_def)

theorem rate_limiter_in_range_witness:
  "\<exists>lm' wait. rate_round 125 32 1 0 \<lparr>lm_used_points = 32, lm_last_round = 0\<rparr> = Some (lm', wait)
    \<and> lm_used_points lm' \<le> 32"
proof -
  let ?r = "\<lparr>mr_rest = [CHR 0x0A], mr_pieces = []\<rparr>"
  have "read_message mem_fill mem_consume ?r 512 [] = (Inr 1, \<lparr>mr_rest = [], mr_pieces = [8191]\<rparr>, [CHR 0x0A])"
    by (simp add: read_message_def read_info_new_def read_line.simps mem_fill_def mem_consume_def mem_piece_def
        MAX_READ_PER_MESSAGE_def MAX_TAG_LENGTH_def set_limit_def scan_line_def is_eol_def from_utf8_ok_def of_char_def)
  moreover have "message_parse [CHR 0x0A] = None" by code_simp
  ultimately have once: "incoming_once mem_fill mem_consume env_sample 0 ?r server_sample
      = Some (Inr 1, \<lparr>mr_rest = [], mr_pieces = [8191]\<rparr>, server_sample)"
    by (simp add: incoming_once_def handle_buffer_def)
  from rate_limiter_in_range [OF _ once, of "\<lparr>lm_used_points = 32, lm_last_round = 0\<rparr>" 0]
  show ?thesis by auto
qed

end
