(* ===== verification/Control.thy ===== *)
theory Control
  imports Net "HOL-Library.Multiset"
begin

text \<open>
  \<open>src/control.rs\<close>: the task that starts the bindings and reloads the configuration.  A binding task is
  known by a handle, the sending end of its channel, numbered here; whether a send succeeds, the result
  of loading a TLS identity and the files are parameters.
\<close>

section \<open>Bindings\<close>

type_synonym running = "(socket_addr \<times> nat) list"

record 'acc loaded_binding =
  lb_address :: socket_addr
  lb_acceptor :: "'acc option"
  lb_handle :: nat

text \<open>\<open>Vec::swap_remove\<close>, and its panic.\<close>

definition swap_remove :: "nat \<Rightarrow> 'a list \<Rightarrow> 'a list option" where
  "swap_remove i xs =
     (if i < length xs then Some (butlast (xs[i := last xs])) else None)"

text \<open>\<open>load_bindings\<close>: the first failure ends the process, \<^const>\<open>None\<close>.  \<open>h\<close> is the next free handle.\<close>

fun load_bindings ::
  "(string \<Rightarrow> string \<Rightarrow> 'e + 'acc) \<Rightarrow> binding list \<Rightarrow> 'acc tls_store \<Rightarrow> nat
   \<Rightarrow> 'acc loaded_binding list option" where
  "load_bindings build [] store h = Some []"
| "load_bindings build (b # bs) store h =
     (case bd_tls b of
        Some t \<Rightarrow>
          (case store_acceptor build (tls_certificate t) (tls_key t) store of
             (Inl _, _) \<Rightarrow> None
           | (Inr acceptor, store) \<Rightarrow>
               map_option (\<lambda>rest. \<lparr>lb_address = bd_address b, lb_acceptor = Some acceptor, lb_handle = h\<rparr> # rest)
                 (load_bindings build bs store (h + 1)))
      | None \<Rightarrow>
          map_option (\<lambda>rest. \<lparr>lb_address = bd_address b, lb_acceptor = None, lb_handle = h\<rparr> # rest)
            (load_bindings build bs store (h + 1)))"

text \<open>What the caller keeps of them.\<close>

definition running_of :: "'acc loaded_binding list \<Rightarrow> running" where
  "running_of = map (\<lambda>b. (lb_address b, lb_handle b))"

text \<open>\<open>reload_bindings\<close> skips the bindings that cannot be made.\<close>

fun reload_bindings ::
  "(string \<Rightarrow> string \<Rightarrow> 'e + 'acc) \<Rightarrow> binding list \<Rightarrow> 'acc tls_store \<Rightarrow> nat \<Rightarrow> 'acc loaded_binding list" where
  "reload_bindings build [] store h = []"
| "reload_bindings build (b # bs) store h =
     (case bd_tls b of
        Some t \<Rightarrow>
          (case store_acceptor build (tls_certificate t) (tls_key t) store of
             (Inl _, store) \<Rightarrow> reload_bindings build bs store (h + 1)
           | (Inr acceptor, store) \<Rightarrow>
               \<lparr>lb_address = bd_address b, lb_acceptor = Some acceptor, lb_handle = h\<rparr>
               # reload_bindings build bs store (h + 1))
      | None \<Rightarrow>
          \<lparr>lb_address = bd_address b, lb_acceptor = None, lb_handle = h\<rparr>
          # reload_bindings build bs store (h + 1))"

section \<open>Reloading\<close>

text \<open>The two loops of \<open>do_rehash\<close>.  The first drops the old bindings that are not wanted any more;
  \<^const>\<open>None\<close> is the panic of \<open>swap_remove\<close>.\<close>

function drop_old :: "socket_addr list \<Rightarrow> nat \<Rightarrow> running \<Rightarrow> running option" where
  "drop_old wanted i bindings =
     (if i < length bindings then
        if list_all (\<lambda>a. fst (bindings ! i) \<noteq> a) wanted
        then (case swap_remove i bindings of None \<Rightarrow> None | Some bs \<Rightarrow> drop_old wanted i bs)
        else drop_old wanted (i + 1) bindings
      else Some bindings)"
  by pat_completeness auto

lemma length_swap_remove: "swap_remove i xs = Some ys \<Longrightarrow> length xs = Suc (length ys)"
  by (auto simp: swap_remove_def split: if_splits)

termination drop_old
  by (relation "measure (\<lambda>(_, i, bs). length bs - i)") (auto dest!: length_swap_remove)

declare drop_old.simps [simp del]

text \<open>What a reload does to the world: the commands it sends, and the bindings it starts.\<close>

datatype 'acc action = Send nat "'acc control_command" | Spawn "'acc loaded_binding"

fun position :: "('a \<Rightarrow> bool) \<Rightarrow> 'a list \<Rightarrow> nat option" where
  "position P [] = None"
| "position P (x # xs) = (if P x then Some 0 else map_option Suc (position P xs))"

definition command_for :: "'acc loaded_binding \<Rightarrow> 'acc control_command" where
  "command_for b = (case lb_acceptor b of Some a \<Rightarrow> UseTls a | None \<Rightarrow> UsePlain)"

text \<open>\<open>alive h\<close>: sending to the handle \<open>h\<close> succeeds.\<close>

definition apply_one ::
  "(nat \<Rightarrow> bool) \<Rightarrow> 'acc loaded_binding \<Rightarrow> running \<Rightarrow> 'acc action list \<Rightarrow> (running \<times> 'acc action list) option" where
  "apply_one alive b bindings done' =
     (case position (\<lambda>old. fst old = lb_address b) bindings of
        Some i \<Rightarrow>
          (let h = snd (bindings ! i); done' = done' @ [Send h (command_for b)]
           in if alive h then Some (bindings, done')
              else do {
                bindings \<leftarrow> swap_remove i bindings;
                Some (bindings @ [(lb_address b, lb_handle b)], done' @ [Spawn b])
              })
      | None \<Rightarrow> Some (bindings @ [(lb_address b, lb_handle b)], done' @ [Spawn b]))"

fun apply_new ::
  "(nat \<Rightarrow> bool) \<Rightarrow> 'acc loaded_binding list \<Rightarrow> running \<Rightarrow> 'acc action list
   \<Rightarrow> (running \<times> 'acc action list) option" where
  "apply_new alive [] bindings done' = Some (bindings, done')"
| "apply_new alive (b # bs) bindings done' =
     (case apply_one alive b bindings done' of
        None \<Rightarrow> None
      | Some (bindings, done') \<Rightarrow> apply_new alive bs bindings done')"


definition do_rehash ::
  "(nat \<Rightarrow> bool) \<Rightarrow> (config \<times> 'acc loaded_binding list) option \<Rightarrow> running \<Rightarrow> server
   \<Rightarrow> (running \<times> 'acc action list \<times> server) option" where
  "do_rehash alive reloaded bindings sv =
     (case reloaded of
        None \<Rightarrow> Some (bindings, [], sv)
      | Some (cfg, new_bindings) \<Rightarrow>
          do {
            bindings \<leftarrow> drop_old (map lb_address new_bindings) 0 bindings;
            (bindings, acts) \<leftarrow> apply_new alive new_bindings bindings [];
            Some (bindings, acts, server_rehash (cf_state cfg) sv)
          })"

section \<open>The loop\<close>

text \<open>The events of \<open>run\<close>: a binding reports that it failed, all of them have, or a reload is asked for,
  by a signal or by an operator.\<close>

datatype 'acc control_event =
    Failure socket_addr
  | NoSenders
  | Reload "nat \<Rightarrow> bool" "(config \<times> 'acc loaded_binding list) option"

definition remove_failed :: "socket_addr \<Rightarrow> running \<Rightarrow> running option" where
  "remove_failed addr bindings =
     (case position (\<lambda>b. fst b = addr) bindings of
        None \<Rightarrow> Some bindings
      | Some i \<Rightarrow> swap_remove i bindings)"

fun run_control ::
  "'acc control_event list \<Rightarrow> running \<Rightarrow> server \<Rightarrow> (running \<times> server) option" where
  "run_control [] bindings sv = Some (bindings, sv)"
| "run_control (Failure addr # es) bindings sv =
     (case remove_failed addr bindings of
        None \<Rightarrow> None
      | Some bindings \<Rightarrow> run_control es bindings sv)"
| "run_control (NoSenders # es) bindings sv = Some (bindings, sv)"
| "run_control (Reload alive reloaded # es) bindings sv =
     (case do_rehash alive reloaded bindings sv of
        None \<Rightarrow> None
      | Some (bindings, _, sv) \<Rightarrow> run_control es bindings sv)"

section \<open>Starting\<close>

text \<open>\<open>parse_args\<close> of \<open>src/main.rs\<close>: the ways it ends the process, and the panic on an empty list.\<close>

datatype parsed_args = Path string | Usage | ShowHelp | ShowVersion

definition parse_args :: "string list \<Rightarrow> parsed_args option" where
  "parse_args args =
     (case args of
        [] \<Rightarrow> None
      | [program] \<Rightarrow> Some Usage
      | program # config_path # _ \<Rightarrow>
          Some (if config_path = ''-h'' \<or> config_path = ''--help'' then ShowHelp
                else if config_path = ''-v'' \<or> config_path = ''--version'' then ShowVersion
                else Path config_path))"

text \<open>\<open>create_runtime\<close>: what is asked of tokio's builder.  \<open>build_rt\<close> builds the runtime; without one the
  process ends.\<close>

record runtime_settings =
  rt_core_threads :: "nat option"
  rt_threaded :: bool
  rt_io :: bool
  rt_time :: bool

definition create_runtime :: "(runtime_settings \<Rightarrow> 'e + 'rt) \<Rightarrow> nat \<Rightarrow> 'rt option" where
  "create_runtime build_rt workers =
     (let builder = \<lparr>rt_core_threads = None, rt_threaded = False, rt_io = False, rt_time = False\<rparr>;
          builder = (if workers \<noteq> 0 then builder\<lparr>rt_core_threads := Some workers\<rparr> else builder);
          builder = builder\<lparr>rt_threaded := True, rt_io := True, rt_time := True\<rparr>
      in case build_rt builder of Inl _ \<Rightarrow> None | Inr runtime \<Rightarrow> Some runtime)"

text \<open>How a process goes: it panics, it exits with a code, or the control task gets somewhere.\<close>

datatype 'a process = Panics | Exits nat | Ran 'a

text \<open>\<open>run\<close>: \<open>signals\<close> says whether the handler of the signal can be registered, \<open>read\<close> reads a file.\<close>

definition run ::
  "bool \<Rightarrow> (string \<Rightarrow> string option) \<Rightarrow> (string \<Rightarrow> string \<Rightarrow> 'e + 'acc) \<Rightarrow> env \<Rightarrow> config
   \<Rightarrow> 'acc control_event list \<Rightarrow> (running \<times> server) process" where
  "run signals read build env cfg es =
     (if \<not> signals then Exits 1
      else (let shared = server_new env (read (cs_motd_file (cf_state cfg))) (cf_state cfg)
            in case load_bindings build (cf_bindings cfg) Map.empty 0 of
                 None \<Rightarrow> Exits 1
               | Some bs \<Rightarrow>
                   (case run_control es (running_of bs) shared of None \<Rightarrow> Panics | Some res \<Rightarrow> Ran res)))"

text \<open>\<open>load_config_and_run\<close>: \<open>load\<close> is \<open>Config::from_file\<close>.\<close>

definition load_config_and_run ::
  "(string \<Rightarrow> 'f + config) \<Rightarrow> (runtime_settings \<Rightarrow> 'r + 'rt) \<Rightarrow> bool \<Rightarrow> (string \<Rightarrow> string option)
   \<Rightarrow> (string \<Rightarrow> string \<Rightarrow> 'e + 'acc) \<Rightarrow> env \<Rightarrow> string \<Rightarrow> 'acc control_event list \<Rightarrow> (running \<times> server) process" where
  "load_config_and_run load build_rt signals read build env config_path es =
     (case load config_path of
        Inl _ \<Rightarrow> Exits 1
      | Inr cfg \<Rightarrow>
          (case create_runtime build_rt (cf_workers cfg) of
             None \<Rightarrow> Exits 1
           | Some _ \<Rightarrow> run signals read build env cfg es))"

text \<open>\<open>main\<close>, after the set-up of the logger.\<close>

definition main ::
  "(string \<Rightarrow> 'f + config) \<Rightarrow> (runtime_settings \<Rightarrow> 'r + 'rt) \<Rightarrow> bool \<Rightarrow> (string \<Rightarrow> string option)
   \<Rightarrow> (string \<Rightarrow> string \<Rightarrow> 'e + 'acc) \<Rightarrow> env \<Rightarrow> string list \<Rightarrow> 'acc control_event list \<Rightarrow> (running \<times> server) process" where
  "main load build_rt signals read build env args es =
     (case parse_args args of
        None \<Rightarrow> Panics
      | Some (Path config_path) \<Rightarrow> load_config_and_run load build_rt signals read build env config_path es
      | Some _ \<Rightarrow> Exits 1)"

section \<open>Facts\<close>

lemma mset_swap_remove: "swap_remove i xs = Some ys \<Longrightarrow> mset xs = add_mset (xs ! i) (mset ys)"
proof -
  assume "swap_remove i xs = Some ys"
  then have i: "i < length xs" and ys: "ys = butlast (xs[i := last xs])"
    by (auto simp: swap_remove_def split: if_splits)
  obtain zs z where xs: "xs = zs @ [z]" using i by (cases xs rule: rev_cases) auto
  show ?thesis
  proof (cases "i = length zs")
    case True
    then show ?thesis using ys xs by (simp add: butlast_append)
  next
    case False
    then have "i < length zs" using i xs by simp
    then show ?thesis
      using ys xs mset_update [of i zs z] by (simp add: list_update_append nth_append insert_DiffM)
  qed
qed

lemma position_Some: "position P xs = Some i \<Longrightarrow> i < length xs \<and> P (xs ! i)"
  by (induction xs arbitrary: i) (auto split: if_splits)

lemma position_None: "position P xs = None \<longleftrightarrow> (\<forall>x \<in> set xs. \<not> P x)"
  by (induction xs) auto

lemma swap_remove_total: "i < length xs \<Longrightarrow> \<exists>ys. swap_remove i xs = Some ys"
  by (simp add: swap_remove_def)

text \<open>The first loop keeps exactly the bindings that are still wanted.\<close>

lemma drop_old_mset:
  "list_all (\<lambda>b. fst b \<in> set wanted) (take i bindings) \<Longrightarrow>
   \<exists>bs. drop_old wanted i bindings = Some bs \<and> mset bs = filter_mset (\<lambda>b. fst b \<in> set wanted) (mset bindings)"
proof (induction wanted i bindings rule: drop_old.induct)
  case (1 wanted i bindings)
  show ?case
  proof (cases "i < length bindings")
    case False
    then have "filter (\<lambda>b. fst b \<in> set wanted) bindings = bindings"
      using "1.prems" by (simp add: filter_id_conv list_all_iff)
    then show ?thesis using False by (simp add: drop_old.simps flip: mset_filter)
  next
    case i: True
    show ?thesis
    proof (cases "list_all (\<lambda>a. fst (bindings ! i) \<noteq> a) wanted")
      case True
      obtain bs where bs: "swap_remove i bindings = Some bs" using swap_remove_total [OF i] by blast
      have "take i bs = take i bindings"
        using bs i by (auto simp: swap_remove_def butlast_conv_take min_def)
      then have "\<exists>cs. drop_old wanted i bs = Some cs \<and> mset cs = filter_mset (\<lambda>b. fst b \<in> set wanted) (mset bs)"
        using "1.IH"(1) [OF i True bs] "1.prems" by simp
      moreover have "fst (bindings ! i) \<notin> set wanted" using True by (auto simp: list_all_iff)
      ultimately show ?thesis
        using i True bs mset_swap_remove [OF bs] by (simp add: drop_old.simps [of wanted i bindings])
    next
      case False
      then have "fst (bindings ! i) \<in> set wanted" by (auto simp: list_all_iff)
      then have "list_all (\<lambda>b. fst b \<in> set wanted) (take (i + 1) bindings)"
        using "1.prems" i by (simp add: take_Suc_conv_app_nth)
      then show ?thesis
        using "1.IH"(2) [OF i False] i False by (simp add: drop_old.simps [of wanted i bindings])
    qed
  qed
qed

definition one_each :: "running \<Rightarrow> bool" where
  "one_each bindings \<longleftrightarrow> distinct (map fst bindings)"

lemma one_each_mset: "mset xs = mset ys \<Longrightarrow> one_each xs \<longleftrightarrow> one_each ys"
  unfolding one_each_def by (intro mset_eq_imp_distinct_iff) simp

lemma swap_remove_parts:
  assumes "swap_remove i xs = Some ys"
  shows "set xs = insert (xs ! i) (set ys)" and "one_each xs \<longleftrightarrow> one_each (xs ! i # ys)"
proof -
  have m: "mset xs = mset (xs ! i # ys)" using mset_swap_remove [OF assms] by simp
  show "set xs = insert (xs ! i) (set ys)" using mset_eq_setD [OF m] by simp
  show "one_each xs \<longleftrightarrow> one_each (xs ! i # ys)" by (rule one_each_mset [OF m])
qed

lemma apply_one_ok:
  assumes "one_each bindings"
  obtains bs acts where "apply_one alive b bindings done' = Some (bs, acts)" and "one_each bs"
    and "fst ` set bs = insert (lb_address b) (fst ` set bindings)"
    and "\<And>x. x \<in> set bindings \<Longrightarrow> alive (snd x) \<Longrightarrow> x \<in> set bs"
proof (cases "position (\<lambda>old. fst old = lb_address b) bindings")
  case None
  then have "lb_address b \<notin> fst ` set bindings" unfolding position_None by auto
  with None assms show ?thesis
    by (intro that [of "bindings @ [(lb_address b, lb_handle b)]" "done' @ [Spawn b]"])
      (auto simp: apply_one_def one_each_def)
next
  case (Some i)
  then have i: "i < length bindings" "fst (bindings ! i) = lb_address b" using position_Some by blast+
  then have at: "bindings ! i = (lb_address b, snd (bindings ! i))" by (cases "bindings ! i") simp
  let ?send = "Send (snd (bindings ! i)) (command_for b)"
  show ?thesis
  proof (cases "alive (snd (bindings ! i))")
    case True
    have "lb_address b \<in> fst ` set bindings" using nth_mem [OF i(1)] i(2) by (metis image_eqI)
    then show ?thesis
      using True Some assms
      by (intro that [of bindings "done' @ [?send]"]) (auto simp: apply_one_def insert_absorb)
  next
    case False
    obtain bs where bs: "swap_remove i bindings = Some bs" using swap_remove_total [OF i(1)] by blast
    have "set bindings = insert (bindings ! i) (set bs)" "one_each (bindings ! i # bs)"
      using swap_remove_parts [OF bs] assms by simp_all
    then have parts: "set bindings = insert (lb_address b, snd (bindings ! i)) (set bs)"
      "lb_address b \<notin> fst ` set bs" "one_each bs"
      using at i(2) by (auto simp: one_each_def)
    show ?thesis
    proof (rule that [of "bs @ [(lb_address b, lb_handle b)]" "done' @ [?send, Spawn b]"])
      show "apply_one alive b bindings done' = Some (bs @ [(lb_address b, lb_handle b)], done' @ [?send, Spawn b])"
        using Some False bs by (simp add: apply_one_def Let_def)
      show "one_each (bs @ [(lb_address b, lb_handle b)])" using parts by (auto simp: one_each_def)
      show "fst ` set (bs @ [(lb_address b, lb_handle b)]) = insert (lb_address b) (fst ` set bindings)"
        using parts by auto
      fix x assume "x \<in> set bindings" "alive (snd x)"
      then show "x \<in> set (bs @ [(lb_address b, lb_handle b)])" using parts False by auto
    qed
  qed
qed

text \<open>\<open>rebound alive bindings addrs bs\<close>: the bindings \<open>bs\<close> are those of before and of \<open>addrs\<close>, one for
  each address, and what was alive goes on.\<close>

definition rebound :: "(nat \<Rightarrow> bool) \<Rightarrow> running \<Rightarrow> socket_addr set \<Rightarrow> running \<Rightarrow> bool" where
  "rebound alive bindings addrs bs \<longleftrightarrow>
     one_each bs \<and> fst ` set bs = addrs \<union> fst ` set bindings
     \<and> (\<forall>b \<in> set bindings. alive (snd b) \<longrightarrow> b \<in> set bs)"

lemma rebound_trans: "rebound alive s A t \<Longrightarrow> rebound alive t B u \<Longrightarrow> rebound alive s (A \<union> B) u"
  by (simp add: rebound_def Un_ac)

lemma apply_new_ok:
  "one_each bindings \<Longrightarrow> \<exists>bs acts. apply_new alive new bindings done' = Some (bs, acts)
    \<and> rebound alive bindings (lb_address ` set new) bs"
proof (induction new arbitrary: bindings done')
  case Nil
  then show ?case by (simp add: rebound_def)
next
  case (Cons b new)
  obtain bs1 acts1 where one: "apply_one alive b bindings done' = Some (bs1, acts1)"
    "rebound alive bindings {lb_address b} bs1"
  proof (rule apply_one_ok [OF Cons.prems])
    fix bs acts
    assume "one_each bs" "fst ` set bs = insert (lb_address b) (fst ` set bindings)"
      "\<And>x. x \<in> set bindings \<Longrightarrow> alive (snd x) \<Longrightarrow> x \<in> set bs"
    then have "rebound alive bindings {lb_address b} bs" by (simp add: rebound_def)
    moreover assume "apply_one alive b bindings done' = Some (bs, acts)"
    ultimately show thesis by (intro that)
  qed
  then have "one_each bs1" by (simp add: rebound_def)
  from Cons.IH [OF this] obtain bs acts where rest: "apply_new alive new bs1 acts1 = Some (bs, acts)"
    "rebound alive bs1 (lb_address ` set new) bs"
    by blast
  have "apply_new alive (b # new) bindings done' = Some (bs, acts)" using one(1) rest(1) by simp
  moreover have "rebound alive bindings (lb_address ` set (b # new)) bs"
    using rebound_trans [OF one(2) rest(2)] by simp
  ultimately show ?case by blast
qed

lemma drop_old_ok:
  assumes "one_each bindings"
  obtains kept where "drop_old wanted 0 bindings = Some kept" and "one_each kept"
    and "set kept = {b \<in> set bindings. fst b \<in> set wanted}"
proof -
  obtain kept where kept: "drop_old wanted 0 bindings = Some kept"
    and m: "mset kept = mset (filter (\<lambda>b. fst b \<in> set wanted) bindings)"
    using drop_old_mset [of wanted 0 bindings] by auto
  have "one_each (filter (\<lambda>b. fst b \<in> set wanted) bindings)"
    using assms by (simp add: one_each_def distinct_map_filter)
  then have "one_each kept" using one_each_mset [OF m] by simp
  moreover have "set kept = {b \<in> set bindings. fst b \<in> set wanted}" using mset_eq_setD [OF m] by simp
  ultimately show ?thesis using that kept by blast
qed

definition rehashed ::
  "(nat \<Rightarrow> bool) \<Rightarrow> (config \<times> 'acc loaded_binding list) option \<Rightarrow> running \<Rightarrow> server \<Rightarrow> running \<Rightarrow> server \<Rightarrow> bool" where
  "rehashed alive reloaded bindings sv bs sv' \<longleftrightarrow>
     one_each bs
     \<and> (case reloaded of
          None \<Rightarrow> bs = bindings \<and> sv' = sv
        | Some (cfg, new) \<Rightarrow>
            fst ` set bs = lb_address ` set new \<and> sv' = server_rehash (cf_state cfg) sv
            \<and> (\<forall>b \<in> set bindings. fst b \<in> lb_address ` set new \<longrightarrow> alive (snd b) \<longrightarrow> b \<in> set bs))"

lemma do_rehash_ok:
  assumes "one_each bindings"
  shows "\<exists>bs acts sv'. do_rehash alive reloaded bindings sv = Some (bs, acts, sv')
    \<and> rehashed alive reloaded bindings sv bs sv'"
proof (cases reloaded)
  case None
  then show ?thesis using assms by (simp add: do_rehash_def rehashed_def)
next
  case (Some r)
  obtain cfg new where r: "r = (cfg, new)" by fastforce
  obtain kept where drop: "drop_old (map lb_address new) 0 bindings = Some kept" "one_each kept"
    and kept: "set kept = {b \<in> set bindings. fst b \<in> set (map lb_address new)}"
    by (rule drop_old_ok [OF assms])
  obtain bs acts where new: "apply_new alive new kept [] = Some (bs, acts)"
    "rebound alive kept (lb_address ` set new) bs"
    using apply_new_ok [OF drop(2)] by blast
  have "fst ` set kept \<subseteq> lb_address ` set new" unfolding kept by auto
  then have "rehashed alive reloaded bindings sv bs (server_rehash (cf_state cfg) sv)"
    using new(2) Some r unfolding rehashed_def rebound_def kept by (auto simp: Un_absorb2)
  moreover have "do_rehash alive reloaded bindings sv = Some (bs, acts, server_rehash (cf_state cfg) sv)"
    using Some r drop(1) new(1) by (simp add: do_rehash_def)
  ultimately show ?thesis by blast
qed

text \<open>Removing a failed binding takes out the binding of its address and no other.\<close>

lemma remove_failed_ok:
  assumes "one_each bindings"
  shows "\<exists>bs. remove_failed addr bindings = Some bs \<and> one_each bs \<and> set bs = {b \<in> set bindings. fst b \<noteq> addr}"
proof (cases "position (\<lambda>b. fst b = addr) bindings")
  case None
  then have "\<forall>b \<in> set bindings. fst b \<noteq> addr" unfolding position_None .
  then show ?thesis using None assms by (auto simp: remove_failed_def)
next
  case (Some i)
  then have i: "i < length bindings" "fst (bindings ! i) = addr" using position_Some by blast+
  obtain bs where bs: "swap_remove i bindings = Some bs" using swap_remove_total [OF i(1)] by blast
  have parts: "set bindings = insert (bindings ! i) (set bs)" "one_each (bindings ! i # bs)"
    using swap_remove_parts [OF bs] assms by simp_all
  then have "one_each bs" "\<forall>b \<in> set bs. fst b \<noteq> addr" using i(2) by (auto simp: one_each_def image_iff)
  then show ?thesis using Some bs parts(1) i(2) by (auto simp: remove_failed_def)
qed

text \<open>The steps, for a type of acceptors.\<close>

inductive control_step :: "'acc itself \<Rightarrow> running \<Rightarrow> running \<Rightarrow> bool" for acc :: "'acc itself" where
  control_failure: "remove_failed addr bindings = Some bs \<Longrightarrow> control_step acc bindings bs"
| control_reload: "do_rehash alive (reloaded :: (config \<times> 'acc loaded_binding list) option) bindings sv
     = Some (bs, acts, sv') \<Longrightarrow> control_step acc bindings bs"

inductive_cases control_stepE: "control_step acc bindings bs"

lemma control_step_ok: "one_each bindings \<Longrightarrow> control_step acc bindings bs \<Longrightarrow> one_each bs"
proof (erule control_stepE)
  fix alive reloaded sv acts sv'
  assume "one_each bindings" "do_rehash alive (reloaded :: (config \<times> 'a loaded_binding list) option) bindings sv
     = Some (bs, acts, sv')"
  then show "one_each bs" using do_rehash_ok [of bindings alive reloaded sv] by (auto simp: rehashed_def)
next
  fix addr
  assume "one_each bindings" "remove_failed addr bindings = Some bs"
  then show "one_each bs" using remove_failed_ok [of bindings addr] by simp
qed

interpretation control: preserved one_each "control_step acc" one_each for acc
  by unfold_locales (auto intro: control_step_ok)

lemma run_control_steps:
  "one_each bindings \<Longrightarrow> \<exists>bs sv'. run_control (es :: 'acc control_event list) bindings sv = Some (bs, sv')
    \<and> rtranclp (control_step TYPE('acc)) bindings bs"
proof (induction es bindings sv rule: run_control.induct)
  case (2 addr es bindings sv)
  obtain left where f: "remove_failed addr bindings = Some left" "one_each left"
    using remove_failed_ok [OF "2.prems"] by blast
  obtain bs sv' where "run_control es left sv = Some (bs, sv')" "rtranclp (control_step TYPE('acc)) left bs"
    using "2.IH" [OF f] by blast
  moreover have "control_step TYPE('acc) bindings left" by (rule control_failure [OF f(1)])
  ultimately show ?case using f(1) by (simp add: converse_rtranclp_into_rtranclp)
next
  case (4 alive reloaded es bindings sv)
  obtain bs acts sv1 where r: "do_rehash alive reloaded bindings sv = Some (bs, acts, sv1)" "rehashed alive reloaded bindings sv bs sv1"
    using do_rehash_ok [OF 4(2)] by blast
  then have "one_each bs" by (simp add: rehashed_def)
  have "\<exists>bs' sv'. run_control es bs sv1 = Some (bs', sv') \<and> rtranclp (control_step TYPE('acc)) bs bs'"
    by (rule 4(1) [OF r(1) refl refl \<open>one_each bs\<close>])
  then obtain bs' sv' where rest: "run_control es bs sv1 = Some (bs', sv')"
    "rtranclp (control_step TYPE('acc)) bs bs'"
    by blast
  have "control_step TYPE('acc) bindings bs" by (rule control_reload [OF r(1)])
  then have "rtranclp (control_step TYPE('acc)) bindings bs'"
    using rest(2) by (rule converse_rtranclp_into_rtranclp)
  moreover have "run_control (Reload alive reloaded # es) bindings sv = Some (bs', sv')"
    using r(1) rest(1) by simp
  ultimately show ?case by blast
qed auto




section \<open>Properties\<close>



text \<open>C40: The control task.  Started on bindings with different addresses, the control task never
  panics, whatever failures and reloads it is told of, and never comes to hold two bindings for one
  address; when a binding reports that it failed, the binding of its address is taken out and every
  other one stays.  With an address twice in the configuration this is not so
  (\<open>duplicate_address_goes_offline\<close>).\<close>

theorem control_keeps_one_each:
  assumes "one_each bindings"
  shows "(\<exists>bs sv'. run_control es bindings sv = Some (bs, sv') \<and> one_each bs)
    \<and> (\<exists>bs. remove_failed addr bindings = Some bs \<and> set bs = {b \<in> set bindings. fst b \<noteq> addr})"
proof -
  have "\<exists>bs sv'. run_control es bindings sv = Some (bs, sv') \<and> one_each bs"
    using run_control_steps [OF assms] control.reached_inv [OF assms] by blast
  then show ?thesis using remove_failed_ok [OF assms] by blast
qed

theorem control_keeps_one_each_witness:
  "(\<exists>bs sv'. run_control [Failure \<lparr>sa_ip = ''a'', sa_port = 1\<rparr> :: unit control_event]
     [(\<lparr>sa_ip = ''a'', sa_port = 1\<rparr>, 0), (\<lparr>sa_ip = ''b'', sa_port = 1\<rparr>, 1)] server_sample = Some (bs, sv') \<and> one_each bs)
   \<and> (\<exists>bs. remove_failed \<lparr>sa_ip = ''a'', sa_port = 1\<rparr> [(\<lparr>sa_ip = ''a'', sa_port = 1\<rparr>, 0), (\<lparr>sa_ip = ''b'', sa_port = 1\<rparr>, 1)]
        = Some bs \<and> set bs = {(\<lparr>sa_ip = ''b'', sa_port = 1\<rparr>, 1 :: nat)})"
proof -
  have one: "one_each [(\<lparr>sa_ip = ''a'', sa_port = 1\<rparr>, 0), (\<lparr>sa_ip = ''b'', sa_port = 1\<rparr>, 1)]"
    by (simp add: one_each_def)
  have "{b \<in> set [(\<lparr>sa_ip = ''a'', sa_port = 1\<rparr>, 0), (\<lparr>sa_ip = ''b'', sa_port = 1\<rparr>, 1 :: nat)]. fst b \<noteq> \<lparr>sa_ip = ''a'', sa_port = 1\<rparr>}
      = {(\<lparr>sa_ip = ''b'', sa_port = 1\<rparr>, 1)}"
    by auto
  with control_keeps_one_each [OF one, of "[Failure \<lparr>sa_ip = ''a'', sa_port = 1\<rparr> :: unit control_event]" server_sample
      "\<lparr>sa_ip = ''a'', sa_port = 1\<rparr>"]
  show ?thesis by simp
qed

lemma load_reload:
  "(case load_bindings build bs store h of
      Some r \<Rightarrow> reload_bindings build bs store h = r
    | None \<Rightarrow> length (reload_bindings build bs store h) < length bs)
   \<and> length (reload_bindings build bs store h) \<le> length bs"
proof (induction build bs store h rule: reload_bindings.induct)
  case (2 build b bs store h)
  show ?case
  proof (cases "bd_tls b")
    case None
    then show ?thesis using 2(1) None by (auto split: option.splits)
  next
    case (Some t)
    obtain res store' where acc: "store_acceptor build (tls_certificate t) (tls_key t) store = (res, store')"
      by fastforce
    show ?thesis
    proof (cases res)
      case (Inl e)
      then have "length (reload_bindings build bs store' (h + 1)) \<le> length bs"
        using 2(2) [OF Some acc [symmetric] Inl] by blast
      then show ?thesis using Some acc Inl by simp
    next
      case (Inr a)
      then show ?thesis using Some acc 2(3) [OF Some acc [symmetric] Inr] by (auto split: option.splits)
    qed
  qed
qed simp

text \<open>Starting and reloading agree.  \<open>reload_bindings\<close> does what \<open>load_bindings\<close> does when every TLS
  identity can be loaded; otherwise the one ends the process where the other leaves out the bindings
  that fail, so a reload binds fewer addresses than the configuration lists.\<close>

lemma reload_agrees_with_load:
  "case load_bindings build bs store h of
     Some r \<Rightarrow> reload_bindings build bs store h = r
   | None \<Rightarrow> length (reload_bindings build bs store h) < length bs"
  using load_reload by blast

text \<open>The whole process: started with a path, on a configuration without a duplicate address, it does not
  panic; it exits only with the code 1, before the loop; and in the loop it has one binding for an
  address.\<close>

lemma load_bindings_addresses:
  "load_bindings build bs store h = Some lbs \<Longrightarrow> map lb_address lbs = map bd_address bs"
  by (induction build bs store h arbitrary: lbs rule: load_bindings.induct)
    (auto split: option.splits sum.splits prod.splits)

lemma run_no_panic:
  assumes "distinct (map bd_address (cf_bindings cfg))"
  shows "run signals read build env cfg es = Exits 1
    \<or> (\<exists>bs sv. run signals read build env cfg es = Ran (bs, sv) \<and> one_each bs)"
proof (cases "load_bindings build (cf_bindings cfg) Map.empty 0")
  case (Some lbs)
  have "one_each (running_of lbs)"
    using load_bindings_addresses [OF Some] assms by (simp add: one_each_def running_of_def comp_def)
  then obtain bs sv where "run_control es (running_of lbs)
      (server_new env (read (cs_motd_file (cf_state cfg))) (cf_state cfg)) = Some (bs, sv)" "one_each bs"
    using run_control_steps control.reached_inv by blast
  with Some show ?thesis by (simp add: run_def Let_def)
qed (simp add: run_def)

lemma main_no_panic:
  assumes "args \<noteq> []" and "\<And>p cfg. load p = Inr cfg \<Longrightarrow> distinct (map bd_address (cf_bindings cfg))"
  shows "main load build_rt signals read build env args es = Exits 1
    \<or> (\<exists>bs sv. main load build_rt signals read build env args es = Ran (bs, sv) \<and> one_each bs)"
  using assms run_no_panic [of _ signals read build env es]
  by (auto simp: main_def parse_args_def load_config_and_run_def
      split: list.splits sum.splits option.splits)

text \<open>The number of worker threads is passed on unless it is 0, when tokio chooses one.\<close>

lemma create_runtime_threads:
  "create_runtime (\<lambda>s. Inr (rt_core_threads s) :: unit + nat option) workers
     = Some (if workers = 0 then None else Some workers)"
  by (simp add: create_runtime_def Let_def)

text \<open>A configuration that lists an address twice: the second task fails to bind, and its report takes
  the first, which listens, out of the table.\<close>

lemma duplicate_address_goes_offline:
  "remove_failed a [(a, 0), (a, 1)] = Some [(a, 1)]"
  by (simp add: remove_failed_def swap_remove_def)

text \<open>Identities are cached by the path of the certificate alone: the key of the second is not read.\<close>

lemma store_ignores_key:
  "store_acceptor build cert key1 Map.empty = (Inr a, store) \<Longrightarrow> store_acceptor build cert key2 store = (Inr a, store)"
  by (auto simp: store_acceptor_def split: sum.splits)

end
