(* ===== verification/Samples.thy ===== *)
theory Samples
  imports Net
begin

text \<open>
  A small server for the witnesses: alice, who is an operator of the server, and bob are registered and
  members of a channel; carol has just connected.
\<close>

definition client_sample :: "string \<Rightarrow> client" where
  "client_sample nick =
     (set_user ''u'' (set_nick nick (client_new 0 ''irc.example.org'' ''::1'')))\<lparr>cl_state := Registered\<rparr>"

definition alice :: client where "alice = (client_sample ''alice'')\<lparr>cl_operator := True\<rparr>"
definition bob :: client where "bob = client_sample ''bob''"
definition carol :: client where "carol = client_new 0 ''irc.example.org'' ''::1''"

definition channel_sample :: channel where
  "channel_sample = add_member 1 (add_member 0 channel_empty)"

definition chat_sample :: server where
  "chat_sample = server_sample\<lparr>sv_clients := [(0, alice), (1, bob), (2, carol)],
     sv_nicks := [(''alice'', 0), (''bob'', 1)], sv_channels := [(''#rust'', channel_sample)]\<rparr>"

lemma client_sample_fields [simp]:
  "cl_nick (client_sample n) = n" "cl_state (client_sample n) = Registered" "cl_user (client_sample n) = ''u''"
  "cl_host (client_sample n) = ''::1''" "cl_full_name (client_sample n) = n @ ''!~u@::1''"
  "cl_away_message (client_sample n) = None" "cl_operator (client_sample n) = False"
  "cl_cap_enabled (client_sample n) = capabilities_default" "cl_domain (client_sample n) = ''irc.example.org''"
  "cl_account (client_sample n) = None"
  by (simp_all add: client_sample_def set_user_def set_nick_def update_full_name_def client_new_def)

lemma people_fields [simp]:
  "cl_nick alice = ''alice''" "cl_state alice = Registered" "cl_operator alice"
  "cl_full_name alice = ''alice!~u@::1''" "cl_away_message alice = None" "cl_cap_enabled alice = capabilities_default"
  "cl_nick bob = ''bob''" "cl_state bob = Registered" "\<not> cl_operator bob"
  "cl_full_name bob = ''bob!~u@::1''" "cl_away_message bob = None" "cl_cap_enabled bob = capabilities_default"
  "cl_nick carol = ''*''" "cl_state carol = ConnectionEstablished" "\<not> cl_operator carol"
  by (simp_all add: alice_def bob_def carol_def client_new_def)

lemma people_registered [simp]:
  "client_is_registered alice" "client_is_registered bob" "\<not> client_is_registered carol"
  by (simp_all add: client_is_registered_def)

lemma chat_sample_fields [simp]:
  "sv_clients chat_sample = [(0, alice), (1, bob), (2, carol)]"
  "sv_nicks chat_sample = [(''alice'', 0), (''bob'', 1)]"
  "sv_channels chat_sample = [(''#rust'', channel_sample)]"
  "sv_sent chat_sample = []" "sv_opers chat_sample = sv_opers server_sample"
  by (simp_all add: chat_sample_def server_sample_def server_new_def)

lemma channel_sample_members:
  "ch_members channel_sample = [(0, member_modes_default\<lparr>mm_operator := True\<rparr>), (1, member_modes_default)]"
  by (simp add: channel_sample_def add_member_def channel_empty_def Let_def)

lemma sample_names:
  "nickname_ok ''alice''" "nickname_ok ''bob''" "is_valid_channel_name ''#rust''"
  "ukey ''alice'' \<noteq> ukey ''bob''" "ukey ''bob'' \<noteq> ukey ''alice''"
  by code_simp+

lemma people_ok: "client_ok alice" "client_ok bob" "client_ok carol"
  by (simp_all add: client_ok_def full_name_ok_def sample_names alice_def bob_def)
    (simp add: carol_def client_new_def nick_given_def)

lemma chat_sample_inv: "server_inv chat_sample"
proof -
  have "clients_ok (sv_clients chat_sample)"
    by (auto simp: clients_ok_def tok_def people_ok split: if_splits)
  moreover have "nicks_ok (sv_clients chat_sample) (sv_nicks chat_sample)"
    using sample_names(4,5) by (auto simp: nicks_ok_def tok_def ukey_star split: if_splits)
  moreover have "channels_ok (sv_clients chat_sample) (sv_channels chat_sample)"
    by (auto simp: channels_ok_def tok_def chan_ok_def channel_sample_members tkeys_def registered_id_def sample_names)
  ultimately show ?thesis by (simp add: server_inv_def)
qed

section \<open>A message\<close>

text \<open>\<open>@label=x PING tok\<close>\<close>

definition ping_sample :: message where
  "ping_sample = \<lparr>msg_tags = ''label=x'', msg_prefix = None, msg_command = Inr Cmd_Ping, msg_num_params = 1,
     msg_params = ''tok'' # replicate 14 []\<rparr>"

lemma ping_sample_parse: "message_parse ''@label=x PING tok'' = Some ping_sample"
  unfolding ping_sample_def by code_simp

lemma ping_sample_request: "request_new ping_sample = Some (Inr (Req_Ping ''tok''))"
  unfolding ping_sample_def by code_simp

lemma ping_sample_label: "message_label ping_sample = ''x''"
  by code_simp

lemma ping_sample_tags: "msg_tags ping_sample = ''label=x''"
  by (simp add: ping_sample_def)

lemma rb_prefixed_message_fields:
  "rb_batch (rb_prefixed_message c cs rb) = rb_batch rb" "\<not> rb_has_label (rb_prefixed_message c cs rb)"
  "rb_buf (rb_prefixed_message c cs rb) \<noteq> []"
  by (simp_all add: rb_prefixed_message_def rb_message_def)

text \<open>Every connected client may send it, and gets an answer.\<close>

lemma ping_sample_handled:
  assumes "iget i (sv_clients sv) = Some c" and "cl_state c \<in> {ConnectionEstablished, Registered}"
    and "tok ikey (sv_clients sv)"
  shows "\<exists>pts sv'. handle_message env i ping_sample sv = Some (pts, sv') \<and> sv_clients sv' = sv_clients sv"
proof -
  have "state_apply (cl_state c) (Req_Ping p) = Inr (cl_state c)" for p
    using assms(2) by (auto simp: request_patterns)
  then have st: "\<not> isl (state_apply (cl_state c) (Req_Ping p))"
    "client_apply_request (Req_Ping p) c = Some c" for p
    by (auto simp: client_apply_request_def)
  have "iupd i (\<lambda>_. c) (sv_clients sv) = sv_clients sv"
    using tupd_cong [of ikey i "sv_clients sv" "\<lambda>_. c" "\<lambda>v. v"] assms(1,3) by (simp add: tupd_same)
  then show ?thesis
    using assms(1) st
    by (simp add: handle_message_def handle_request_def client_can_issue_request_def run_request_def cmd_ping_def
        finish_request_def finish_ok_def thas_def rb_lr_end_def rb_prefixed_message_fields Let_def send_post
        ping_sample_request ping_sample_label ping_sample_tags MAX_TAG_DATA_LENGTH_def rb_is_empty_def
        client_reply_def rb_new_def)
qed

lemma chat_ping:
  assumes "i < 3"
  shows "\<exists>pts sv'. handle_message env_sample i ping_sample chat_sample = Some (pts, sv')
    \<and> sv_clients sv' = sv_clients chat_sample"
proof -
  have "tok ikey (sv_clients chat_sample)" by (simp add: tok_def)
  moreover consider "i = 0" | "i = 1" | "i = 2" using assms by linarith
  then have "\<exists>c. iget i (sv_clients chat_sample) = Some c \<and> cl_state c \<in> {ConnectionEstablished, Registered}"
    by cases simp_all
  ultimately show ?thesis using ping_sample_handled by blast
qed

end
