(* ===== verification/Promises.thy ===== *)
theory Promises
  imports Samples
begin

text \<open>
  What the server as a whole promises: its invariant, that it does not panic, whom a message may
  affect, who becomes an operator, and that labelled requests are answered.
\<close>

section \<open>The parts of an outcome\<close>

lemma set_state_get:
  "iget j (sv_clients (set_state i st sv)) =
     (if j = i then map_option (\<lambda>c. c\<lparr>cl_state := st\<rparr>) (iget i (sv_clients sv)) else iget j (sv_clients sv))"
  by (simp add: set_state_def table)

lemma set_state_fields [simp]:
  "sv_channels (set_state i st sv) = sv_channels sv" "sv_nicks (set_state i st sv) = sv_nicks sv"
  "sv_sent (set_state i st sv) = sv_sent sv"
  by (simp_all add: set_state_def)

lemma settledE:
  assumes "settled lb i req res sv sv'"
  obtains c st d where "iget i (sv_clients sv) = Some c" "sv' = post (set_state i st sv) d" "answered lb i d"
  using assms unfolding settled_def by blast

lemma outcomeE:
  assumes "outcome b env i msg sv sv'"
  obtains (nothing) "sv' = sv" "\<not> ihas i (sv_clients sv) \<or> MAX_TAG_DATA_LENGTH < length (msg_tags msg)"
  | (refused) d where "sv' = post sv d" "d \<noteq> []" "answered (message_label msg) i d"
  | (left) c req res rb where "iget i (sv_clients sv) = Some c" "request_new msg = Some (Inr req)"
      "client_can_issue_request req c"
      "run_request env i (msg_tags msg) req sv (client_reply c (message_label msg)) = Some (res, sv', rb)"
      "effect i req sv sv'" "\<not> ihas i (sv_clients sv')"
  | (served) c req res s rb c' st d where "iget i (sv_clients sv) = Some c" "request_new msg = Some (Inr req)"
      "client_can_issue_request req c"
      "run_request env i (msg_tags msg) req sv (client_reply c (message_label msg)) = Some (res, s, rb)"
      "effect i req sv s" "iget i (sv_clients s) = Some c'"
      "sv' = post (set_state i st s) d" "answered (message_label msg) i d"
proof -
  consider "sv' = sv \<and> (\<not> ihas i (sv_clients sv) \<or> MAX_TAG_DATA_LENGTH < length (msg_tags msg))"
    | d where "sv' = post sv d" "d \<noteq> []" "answered (message_label msg) i d"
    | c req where "iget i (sv_clients sv) = Some c" "request_new msg = Some (Inr req)"
      "client_can_issue_request req c"
      "performed b env i (msg_tags msg) (message_label msg) req sv (client_reply c (message_label msg)) sv'"
    using assms unfolding outcome_def by blast
  then show thesis
  proof cases
    case 1
    from 1 [THEN conjunct1] 1 [THEN conjunct2] show thesis by (rule nothing)
  next
    case 2
    then show thesis by (rule refused)
  next
    case (3 c req)
    then obtain res s rb where s: "run_request env i (msg_tags msg) req sv (client_reply c (message_label msg)) = Some (res, s, rb)"
      "effect i req sv s" "if ihas i (sv_clients s) then settled (message_label msg) i req res s sv' else sv' = s"
      unfolding performed_def handled_ok_def by auto
    show thesis
    proof (cases "ihas i (sv_clients s)")
      case True
      then have "settled (message_label msg) i req res s sv'" using s(3) by simp
      then show thesis by (rule settledE) (rule served [OF 3(1-3) s(1,2)])
    next
      case False
      then show thesis using left [OF 3(1-3)] s by simp
    qed
  qed
qed

lemma answered_receiver: "answered lb i d \<Longrightarrow> (k, it) \<in> set d \<Longrightarrow> k = i"
  by (auto simp: answered_def)

lemma reachable_outcome:
  assumes "reachable b sv" and "message_parse line = Some msg" and "b \<or> ascii_str line"
    and "handle_message env i msg sv = Some (pts, sv')"
  shows "outcome b env i msg sv sv'"
  using handle_message_outcome [OF reachable_good [OF assms(1)] assms(2-4)] by blast

section \<open>Effects\<close>

lemma kept_other: "kept i sv s \<Longrightarrow> j \<noteq> i \<Longrightarrow> iget j (sv_clients s) = iget j (sv_clients sv)"
  by (simp add: kept_def)

lemma effect_kept:
  "effect i req sv s \<Longrightarrow> (\<And>n p. req \<noteq> Req_Oper n p) \<Longrightarrow> (\<And>w r. req \<noteq> Req_Kill w r) \<Longrightarrow> kept i sv s"
  by (cases req) (auto simp: effect_def)

lemma effect_others:
  assumes "good b sv" and "effect i req sv s" and "j \<noteq> i"
  shows "iget j (sv_clients s) = iget j (sv_clients sv)
    \<or> (iget j (sv_clients s) = None \<and> (\<exists>who reason c. req = Req_Kill who reason
          \<and> iget i (sv_clients sv) = Some c \<and> cl_operator c \<and> uget who (sv_nicks sv) = Some j))"
proof (cases "(\<exists>n p. req = Req_Oper n p) \<or> (\<exists>w r. req = Req_Kill w r)")
  case True
  then show ?thesis
  proof (elim disjE exE)
    fix n p assume "req = Req_Oper n p"
    then show ?thesis using assms by (auto simp: effect_def oper_effect_def table)
  next
    fix w r assume req: "req = Req_Kill w r"
    then have "kill_effect i w r sv s" using assms(2) by (simp add: effect_def)
    then consider "s = sv" | c k where "iget i (sv_clients sv) = Some c" "cl_operator c"
      "uget w (sv_nicks sv) = Some k" "s = remove_client k (''Killed: '' @ r) ''Killed'' sv"
      unfolding kill_effect_def by blast
    then show ?thesis
    proof cases
      case (2 c k)
      show ?thesis
      proof (cases "k = j")
        case True
        then have "iget j (sv_clients s) = None"
          using 2 remove_client_good(3) [OF assms(1)] by (simp add: thas_def)
        then show ?thesis using 2 True req by blast
      next
        case False
        then show ?thesis using 2 remove_client_other [OF good_inv [OF assms(1)]] by simp
      qed
    qed simp
  qed
next
  case False
  then show ?thesis using kept_other effect_kept assms by blast
qed

lemma effect_operator:
  assumes "good b sv" and "effect i req sv s" and "iget j (sv_clients s) = Some c'" and "cl_operator c'"
  shows "\<exists>c. iget j (sv_clients sv) = Some c \<and> (cl_operator c \<or> (j = i \<and> (\<exists>name password. req = Req_Oper name password
    \<and> (\<exists>o' \<in> set (sv_opers sv). op_name o' = name \<and> op_password o' = password))))"
proof (cases "j = i")
  case False
  then show ?thesis using effect_others [OF assms(1,2)] assms(3,4) by fastforce
next
  case True
  consider (oper) n p where "req = Req_Oper n p" | (kill) w r where "req = Req_Kill w r" | (other) "kept i sv s"
    using effect_kept assms(2) by blast
  then show ?thesis
  proof cases
    case oper
    then show ?thesis using assms True by (auto simp: effect_def oper_effect_def table) blast
  next
    case kill
    then have "kill_effect i w r sv s" using assms(2) by (simp add: effect_def)
    then consider "s = sv" | k where "s = remove_client k (''Killed: '' @ r) ''Killed'' sv"
      unfolding kill_effect_def by blast
    then show ?thesis
    proof cases
      case (2 k)
      then have "k \<noteq> i" using True assms(3) remove_client_good(3) [OF assms(1)] by (auto simp: thas_def)
      then show ?thesis using 2 True assms(3,4) remove_client_other [OF good_inv [OF assms(1)]] by auto
    qed (use assms in auto)
  next
    case other
    then show ?thesis using assms(3,4) True by (auto simp: kept_def)
  qed
qed

section \<open>Clients that are not registered\<close>

text \<open>Only the issuer hears of it, and no channel changes.\<close>

definition discreet :: "nat \<Rightarrow> server \<Rightarrow> server \<Rightarrow> bool" where
  "discreet i sv sv' \<longleftrightarrow>
     sv_channels sv' = sv_channels sv
     \<and> (\<exists>d. sv_sent sv' = sv_sent sv @ d \<and> (\<forall>(k, it) \<in> set d. k = i))"

lemma discreet_same: "sv_channels sv' = sv_channels sv \<Longrightarrow> sv_sent sv' = sv_sent sv \<Longrightarrow> discreet i sv sv'"
  by (simp add: discreet_def)

lemma discreet_post: "discreet i sv s \<Longrightarrow> answered lb i d \<Longrightarrow> discreet i sv (post (set_state i st s) d)"
  using answered_receiver by (fastforce simp: discreet_def)

lemma discreet_remove:
  "iget i (sv_clients sv) = Some c \<Longrightarrow> \<not> client_is_registered c \<Longrightarrow> discreet i sv (remove_client i a e sv)"
  by (simp add: remove_client_def discreet_def send_def Let_def)

lemma unregistered_requests:
  assumes "client_can_issue_request req c" and "\<not> client_is_registered c"
  shows "is_cap_start req \<or> is_cap_end req \<or> is_auth_or_ping req \<or> is_pass req \<or> is_nick req
    \<or> is_user req \<or> is_quit req"
  using assms
  by (cases "cl_state c") (auto simp: client_can_issue_request_def client_is_registered_def split: if_splits)

lemma unregistered_discreet:
  assumes c: "iget i (sv_clients sv) = Some c" "\<not> client_is_registered c"
    and can: "client_can_issue_request req c"
    and run: "run_request env i tgs req sv rb = Some (res, s, rb')"
  shows "discreet i sv s"
proof -
  note known = unregistered_requests [OF can c(2)]
  show ?thesis
  proof (cases req)
    case (Req_Nick nick)
    then show ?thesis using run c
      by (auto simp: run_request_def cmd_nick_def change_nick_def discreet_def Let_def
          split: option.splits if_splits)
  next
    case (Req_User u r)
    then show ?thesis using run c discreet_remove [OF c]
      by (auto simp: run_request_def cmd_user_def discreet_same bind_eq_Some_conv split: if_splits)
  next
    case (Req_Quit reason)
    then show ?thesis using run discreet_remove [OF c] by (auto simp: run_request_def cmd_quit_def)
  next
    case (Req_Pass p)
    then show ?thesis using run c by (auto simp: run_request_def cmd_pass_def discreet_same split: if_splits)
  next
    case (Req_Ping p)
    then show ?thesis using run by (auto simp: run_request_def cmd_ping_def discreet_same)
  qed (use run known c in \<open>auto simp: run_request_def request_patterns cmd_authenticate_def cmd_cap_ls_def
      cmd_cap_req_def cmd_cap_end_def discreet_same\<close>)
qed

section \<open>Properties\<close>

text \<open>C1: The tables of the server agree.  In every state the server reaches - clients connect, send any
  lines, quit, time out, the configuration is reloaded - the nickname table and the nicknames of the
  clients agree up to case, nicknames of registered clients are valid, and every member of a channel is
  a registered client of the server.\<close>

theorem server_invariant:
  assumes "reachable b sv"
  shows "server_inv sv"
  using assms by (rule reachable_inv)

theorem server_invariant_witness:
  "server_inv (peer_joined env_sample 3 \<lparr>sa_ip = ''::1'', sa_port = 6667\<rparr> server_sample)"
proof -
  have "server_step True server_sample
      (peer_joined env_sample 3 \<lparr>sa_ip = ''::1'', sa_port = 6667\<rparr> server_sample)"
    by (rule step_connect) (simp_all add: thas_def)
  from server_invariant [OF reachable_step [OF server_sample_reachable this]] show ?thesis .
qed

text \<open>C11: Nicknames are unique.  In every state the server reaches, a nickname leads to a client exactly
  when it is the client's nickname up to the case of ASCII letters, whoever took or left it before; so
  two clients that have chosen a nickname never share one.\<close>

theorem nicknames_unique:
  assumes "reachable b sv"
  shows "(uget n (sv_nicks sv) = Some j \<longleftrightarrow>
        (\<exists>d. iget j (sv_clients sv) = Some d \<and> cl_nick d \<noteq> ''*'' \<and> unicase_eq Ascii n (cl_nick d)))
    \<and> (iget i (sv_clients sv) = Some c \<longrightarrow> iget j (sv_clients sv) = Some d \<longrightarrow> cl_nick c \<noteq> ''*'' \<longrightarrow>
        unicase_eq Ascii (cl_nick c) (cl_nick d) \<longrightarrow> i = j)"
proof (intro conjI iffI impI)
  have inv: "server_inv sv" by (rule good_inv [OF reachable_good [OF assms]])
  show "\<exists>d. iget j (sv_clients sv) = Some d \<and> cl_nick d \<noteq> ''*'' \<and> unicase_eq Ascii n (cl_nick d)"
    if n: "uget n (sv_nicks sv) = Some j"
  proof -
    obtain d where d: "iget j (sv_clients sv) = Some d" "ukey (cl_nick d) = ukey n"
      using inv_nick_client [OF inv n] by blast
    then have "uget (cl_nick d) (sv_nicks sv) = Some j"
      using n tget_cong [of ukey "cl_nick d" n "sv_nicks sv"] by simp
    then have "cl_nick d \<noteq> ''*''" using inv_no_star [OF inv] by auto
    then show ?thesis using d by (auto simp: unicase_eq_iff_hash)
  qed
  show "uget n (sv_nicks sv) = Some j"
    if "\<exists>d. iget j (sv_clients sv) = Some d \<and> cl_nick d \<noteq> ''*'' \<and> unicase_eq Ascii n (cl_nick d)"
  proof -
    from that obtain d where d: "iget j (sv_clients sv) = Some d" "cl_nick d \<noteq> ''*''" "ukey n = ukey (cl_nick d)"
      by (auto simp: unicase_eq_iff_hash)
    have "uget (cl_nick d) (sv_nicks sv) = Some j" by (rule inv_client_nick [OF inv d(1,2)])
    then show ?thesis using tget_cong [of ukey n "cl_nick d" "sv_nicks sv"] d(3) by simp
  qed
  show "i = j"
    if "iget i (sv_clients sv) = Some c" "iget j (sv_clients sv) = Some d" "cl_nick c \<noteq> ''*''"
      "unicase_eq Ascii (cl_nick c) (cl_nick d)"
    using same_nick_same_client [OF inv that(2,1)] that(3,4) by (simp add: unicase_eq_iff_hash)
qed

theorem nicknames_unique_witness:
  "uget ''alice'' (sv_nicks (peer_joined env_sample 3 \<lparr>sa_ip = ''::1'', sa_port = 6667\<rparr> server_sample)) \<noteq> Some 3"
proof -
  let ?sv = "peer_joined env_sample 3 \<lparr>sa_ip = ''::1'', sa_port = 6667\<rparr> server_sample"
  have "server_step True server_sample ?sv" by (rule step_connect) (simp_all add: thas_def)
  then have "reachable True ?sv" by (rule reachable_step [OF server_sample_reachable])
  from nicknames_unique [OF this, of "''alice''" 3] show ?thesis
    by (auto simp: peer_joined_def client_new_def)
qed

text \<open>C3: No panic.  In a state the server reaches with clients that send ASCII lines, every ASCII line is
  handled to the end, unless its handler is one of the two \<open>todo!()\<close>s of the source, or it asks for
  the idle time of a client whose last action is later than the present time of a clock set back; and it
  leads to such a state again: none of the indexings, \<open>unwrap\<close>s, slices and \<open>unreachable!\<close>s of the
  handlers fails.\<close>

theorem no_panic:
  assumes "reachable False sv" and "message_parse line = Some msg" and "ascii_str line"
    and "\<forall>req. request_new msg = Some (Inr req) \<longrightarrow> implemented req \<and> clock_ok env sv req"
  shows "\<exists>pts sv'. handle_message env i msg sv = Some (pts, sv') \<and> reachable False sv'"
proof -
  have "wp False (handle_message env i msg sv) (\<lambda>(pts, sv'). good False sv' \<and> outcome False env i msg sv sv')"
    by (rule wp_handle_message [OF reachable_good [OF assms(1)] assms(2)]) (use assms(3,4) in blast)
  then obtain pts sv' where run: "handle_message env i msg sv = Some (pts, sv')"
    by (auto dest: wp_total)
  then have "server_step False sv sv'" using assms(2,3) by (auto intro: step_message)
  then show ?thesis using run reachable_step [OF assms(1)] by blast
qed

theorem no_panic_witness:
  "\<exists>pts sv'. handle_message env_sample 0 ping_sample server_sample = Some (pts, sv') \<and> reachable False sv'"
  by (rule no_panic [OF server_sample_reachable ping_sample_parse])
    (simp_all add: ping_sample_request is_ascii_def)

text \<open>C6: Labelled requests are answered.  When a client labels a message and is still connected after it
  has been handled, the last thing sent is an item for this client which carries the label, whichever
  way the request took: an error, a reply, a batch of replies, or nothing to say.  The exception is a
  message whose tags are too long, label included: it is dropped and nothing at all is sent.  The label
  that is carried is the raw text of the tag escaped once more, as the code does; it is what the client
  sent when no character of that text needs escaping.\<close>

theorem labelled_request_answered:
  assumes "server_inv sv" and "message_parse line = Some msg" and "handle_message env i msg sv = Some (pts, sv')"
    and "message_label msg \<noteq> []" and "ihas i (sv_clients sv')"
  shows "if MAX_TAG_DATA_LENGTH < length (msg_tags msg) then sv' = sv
    else \<exists>d it. sv_sent sv' = sv_sent sv @ d @ [(i, it)]
      \<and> carries (label_text (message_label msg)) (qi_buf it)
      \<and> ((\<forall>c \<in> set (message_label msg). escape_char c = [c]) \<longrightarrow>
          carries (''label='' @ message_label msg) (qi_buf it))"
proof (cases "MAX_TAG_DATA_LENGTH < length (msg_tags msg)")
  case True
  then show ?thesis using assms(3) by (auto simp: handle_message_def split: option.splits if_splits)
next
  case False
  have good: "good True sv" using assms(1) by (simp add: good_def)
  have plain: "label_text lb = ''label='' @ lb" if "\<forall>c \<in> set lb. escape_char c = [c]" for lb
  proof -
    have "concat (map escape_char lb) = lb" using that by (induction lb) simp_all
    then show ?thesis by (simp add: label_text_def)
  qed
  have "outcome True env i msg sv sv'" using handle_message_outcome [OF good assms(2) _ assms(3)] by simp
  then have "\<exists>d it. sv_sent sv' = sv_sent sv @ d @ [(i, it)] \<and> carries (label_text (message_label msg)) (qi_buf it)"
  proof (cases rule: outcomeE)
    case nothing
    then show ?thesis using assms(5) False by simp
  next
    case (refused d)
    then show ?thesis using assms(4) by (auto simp: answered_def)
  next
    case (left c req res rb)
    then show ?thesis using assms(5) by simp
  next
    case (served c req res s rb c' st d)
    obtain e where "sv_sent s = sv_sent sv @ e" using effect_grown [OF good served(5)] by (auto simp: grown_def)
    then show ?thesis using served assms(4) by (auto simp: answered_def)
  qed
  then show ?thesis using False plain [of "message_label msg"] by (simp only: if_False) metis
qed

theorem labelled_request_answered_witness:
  "\<exists>pts sv' d it. handle_message env_sample 0 ping_sample chat_sample = Some (pts, sv')
     \<and> sv_sent sv' = d @ [(0, it)] \<and> carries ''label=x'' (qi_buf it)"
proof -
  obtain pts sv' where h: "handle_message env_sample 0 ping_sample chat_sample = Some (pts, sv')"
    "sv_clients sv' = sv_clients chat_sample"
    using chat_ping [of 0] by auto
  then have "ihas 0 (sv_clients sv')" by (simp add: thas_def)
  with labelled_request_answered [OF chat_sample_inv ping_sample_parse h(1)] h(1) show ?thesis
    by (simp add: ping_sample_label ping_sample_tags MAX_TAG_DATA_LENGTH_def label_text_def escape_char_def)
qed

text \<open>A label with a semicolon in it, which the client writes as a backslash and a colon, comes back with two
  backslashes.\<close>

lemma label_escaped_twice: "label_text [CHR 0x5C, CHR '':''] = ''label='' @ [CHR 0x5C, CHR 0x5C, CHR '':'']"
  by (simp add: label_text_def escape_char_def)

text \<open>C9: Operators are made by credentials.  Whoever is an operator after a message was one before, or
  is the client that sent the message and it was an \<open>OPER\<close> with the name and the password of an
  operator of the configuration.\<close>

theorem operators_have_credentials:
  assumes "server_inv sv" and "message_parse line = Some msg" and "handle_message env i msg sv = Some (pts, sv')"
    and "iget j (sv_clients sv') = Some c'" and "cl_operator c'"
  shows "\<exists>c. iget j (sv_clients sv) = Some c \<and> (cl_operator c \<or> (j = i \<and> (\<exists>name password.
    request_new msg = Some (Inr (Req_Oper name password))
    \<and> (\<exists>o' \<in> set (sv_opers sv). op_name o' = name \<and> op_password o' = password))))"
proof -
  have good: "good True sv" using assms(1) by (simp add: good_def)
  have "outcome True env i msg sv sv'" using handle_message_outcome [OF good assms(2) _ assms(3)] by simp
  then show ?thesis
  proof (cases rule: outcomeE)
    case (left c req res rb)
    then show ?thesis using effect_operator [OF good left(5) assms(4,5)] by simp
  next
    case (served c req res s rb c0 st d)
    obtain c1 where "iget j (sv_clients s) = Some c1" "cl_operator c1"
      using served(7) assms(4,5) by (auto simp: set_state_get split: if_splits)
    then show ?thesis using effect_operator [OF good served(5)] served(2) by simp
  qed (use assms(4,5) in auto)
qed

theorem operators_have_credentials_witness:
  "\<exists>pts sv' c. handle_message env_sample 0 ping_sample chat_sample = Some (pts, sv')
     \<and> iget 0 (sv_clients sv') = Some alice \<and> iget 0 (sv_clients chat_sample) = Some c \<and> cl_operator c"
proof -
  obtain pts sv' where h: "handle_message env_sample 0 ping_sample chat_sample = Some (pts, sv')"
    "sv_clients sv' = sv_clients chat_sample"
    using chat_ping [of 0] by auto
  with operators_have_credentials [OF chat_sample_inv ping_sample_parse h(1), of 0 alice] show ?thesis
    by (auto simp: ping_sample_request)
qed

text \<open>C8: Clients are isolated.  A message changes no client but the one that sent it, except that an
  operator's \<open>KILL\<close> removes the client whose nickname it names.\<close>

theorem others_untouched:
  assumes "server_inv sv" and "message_parse line = Some msg" and "handle_message env i msg sv = Some (pts, sv')"
    and "j \<noteq> i"
  shows "iget j (sv_clients sv') = iget j (sv_clients sv)
    \<or> (iget j (sv_clients sv') = None \<and> (\<exists>who reason c. request_new msg = Some (Inr (Req_Kill who reason))
          \<and> iget i (sv_clients sv) = Some c \<and> cl_operator c \<and> uget who (sv_nicks sv) = Some j))"
proof -
  have good: "good True sv" using assms(1) by (simp add: good_def)
  have "outcome True env i msg sv sv'" using handle_message_outcome [OF good assms(2) _ assms(3)] by simp
  then show ?thesis
  proof (cases rule: outcomeE)
    case (left c req res rb)
    then show ?thesis using effect_others [OF good left(5) assms(4)] by auto
  next
    case (served c req res s rb c0 st d)
    have "iget j (sv_clients sv') = iget j (sv_clients s)" using served(7) assms(4) by (simp add: set_state_get)
    then show ?thesis using effect_others [OF good served(5) assms(4)] served(2) by auto
  qed simp_all
qed

theorem others_untouched_witness:
  "\<exists>pts sv'. handle_message env_sample 0 ping_sample chat_sample = Some (pts, sv')
     \<and> iget 1 (sv_clients sv') = Some bob"
proof -
  obtain pts sv' where h: "handle_message env_sample 0 ping_sample chat_sample = Some (pts, sv')"
    using chat_ping [of 0] by auto
  with others_untouched [OF chat_sample_inv ping_sample_parse h, of 1] show ?thesis
    by (simp add: ping_sample_request)
qed

text \<open>C10: A client that is not registered is powerless: whatever it sends, no channel changes, no other
  client changes, and nothing is sent to anyone but itself.\<close>

theorem unregistered_powerless:
  assumes "server_inv sv" and "message_parse line = Some msg" and "handle_message env i msg sv = Some (pts, sv')"
    and "iget i (sv_clients sv) = Some c" and "\<not> client_is_registered c"
  shows "sv_channels sv' = sv_channels sv \<and> (\<forall>j. j \<noteq> i \<longrightarrow> iget j (sv_clients sv') = iget j (sv_clients sv))
    \<and> (\<exists>d. sv_sent sv' = sv_sent sv @ d \<and> (\<forall>(k, it) \<in> set d. k = i))"
proof -
  have good: "good True sv" using assms(1) by (simp add: good_def)
  have "outcome True env i msg sv sv'" using handle_message_outcome [OF good assms(2) _ assms(3)] by simp
  then have "discreet i sv sv' \<and> (\<forall>j. j \<noteq> i \<longrightarrow> iget j (sv_clients sv') = iget j (sv_clients sv))"
  proof (cases rule: outcomeE)
    case nothing
    then show ?thesis by (simp add: discreet_def)
  next
    case (refused d)
    then show ?thesis using answered_receiver by (fastforce simp: discreet_def)
  next
    case (left c1 req res rb)
    then have c1: "c1 = c" using assms(4) by simp
    note quiet = unregistered_discreet [OF assms(4,5) left(3) [unfolded c1] left(4)]
      unregistered_requests [OF left(3) [unfolded c1] assms(5)]
    then have "kept i sv sv'" by (intro effect_kept [OF left(5)]) (auto simp: request_patterns)
    then show ?thesis using quiet(1) kept_other by blast
  next
    case (served c1 req res s rb c0 st d)
    then have c1: "c1 = c" using assms(4) by simp
    note quiet = unregistered_discreet [OF assms(4,5) served(3) [unfolded c1] served(4)]
      unregistered_requests [OF served(3) [unfolded c1] assms(5)]
    then have "kept i sv s" by (intro effect_kept [OF served(5)]) (auto simp: request_patterns)
    moreover have "discreet i sv sv'" unfolding served(7) by (rule discreet_post [OF quiet(1) served(8)])
    ultimately show ?thesis using served(7) kept_other by (auto simp: set_state_get)
  qed
  then show ?thesis by (simp add: discreet_def)
qed

theorem unregistered_powerless_witness:
  "\<exists>pts sv' d. handle_message env_sample 2 ping_sample chat_sample = Some (pts, sv')
     \<and> sv_channels sv' = sv_channels chat_sample \<and> sv_sent sv' = d \<and> (\<forall>(k, it) \<in> set d. k = 2)"
proof -
  obtain pts sv' where h: "handle_message env_sample 2 ping_sample chat_sample = Some (pts, sv')"
    using chat_ping [of 2] by auto
  with unregistered_powerless [OF chat_sample_inv ping_sample_parse h, of carol] show ?thesis by simp
qed

end
