(* ===== verification/Delivery.thy ===== *)
theory Delivery
  imports Promises
begin

text \<open>
  Who is sent what: messages to channels and users, the notices of a departure and of a change of
  nickname.
\<close>

section \<open>Deliveries\<close>

text \<open>Each client that a condition selects is sent a message exactly once, and nobody else.\<close>

definition exactly ::
  "(nat \<Rightarrow> client \<Rightarrow> bool) \<Rightarrow> client itable \<Rightarrow> queue_item \<Rightarrow> (nat \<times> queue_item) list \<Rightarrow> bool" where
  "exactly P clients msg d \<longleftrightarrow>
     distinct (map fst d)
     \<and> (\<forall>m it. (m, it) \<in> set d \<longleftrightarrow> (\<exists>e. iget m clients = Some e \<and> P m e \<and> it = client_send e msg))"

lemma exactly_cong: "(\<And>m e. iget m clients = Some e \<Longrightarrow> P m e = Q m e) \<Longrightarrow> exactly P clients msg d \<Longrightarrow> exactly Q clients msg d"
  unfolding exactly_def by (metis (no_types, lifting))

lemma deliveries_set:
  "(m, it) \<in> set (deliveries item clients ms) \<longleftrightarrow>
     m \<in> set ms \<and> (\<exists>e x. iget m clients = Some e \<and> item m e = Some x \<and> it = client_send e x)"
proof (induction ms)
  case (Cons a ms)
  show ?case
    by (cases "iget a clients"; cases "item a (the (iget a clients))") (auto simp: deliveries_Cons Cons.IH)
qed simp

lemma deliveries_distinct: "distinct ms \<Longrightarrow> distinct (map fst (deliveries item clients ms))"
proof (induction ms)
  case (Cons m ms)
  moreover have "m \<notin> fst ` set (deliveries item clients ms)" using Cons.prems by (auto simp: deliveries_set)
  ultimately show ?case by (auto simp: deliveries_Cons split: option.splits)
qed simp

lemma deliveries_exactly:
  "distinct ms \<Longrightarrow> exactly (\<lambda>m e. m \<in> set ms \<and> P m e) clients msg
     (deliveries (\<lambda>m e. if P m e then Some msg else None) clients ms)"
  by (auto simp: exactly_def deliveries_set deliveries_distinct)

lemma deliveries_exactly_not:
  "distinct ms \<Longrightarrow> exactly (\<lambda>m e. m \<in> set ms \<and> \<not> P m e) clients msg
     (deliveries (\<lambda>m e. if P m e then None else Some msg) clients ms)"
  by (auto simp: exactly_def deliveries_set deliveries_distinct)

lemma members_distinct: "chan_ok clients ch \<Longrightarrow> distinct (tkeys (ch_members ch))"
  by (auto simp: chan_ok_def tok_tkeys distinct_map)

section \<open>The message that is built\<close>

lemma fold_apply_append: "fold mb_apply calls (a @ b) = a @ fold mb_apply calls b" if "b \<noteq> []"
  using that
proof (induction calls arbitrary: b)
  case (Cons call calls)
  have "mb_apply call (a @ b) = a @ mb_apply call b \<and> mb_apply call b \<noteq> []"
    using Cons.prems
    by (cases call) (simp_all add: mb_param_def mb_fmt_param_def mb_raw_param_def mb_trailing_param_def
        mb_fmt_trailing_param_def mb_raw_trailing_param_def Let_def)
  then show ?case using Cons.IH by simp
qed simp

text \<open>The message without its tags.\<close>

definition plain_message :: "client \<Rightarrow> command \<Rightarrow> string \<Rightarrow> string option \<Rightarrow> string" where
  "plain_message issuer command target content =
     buffer_message (cl_full_name issuer) command (Param target # reason_param content) []"

lemma statement_after_tags:
  assumes "tags_of [] tb x" and "x \<noteq> []" and "p \<noteq> []"
  shows "mb_statement calls (tb_prefixed_command p command tb) = (''@'' @ x @ '' '') @ buffer_message p command calls []"
  using assms fold_apply_append [of "CHR '':'' # p @ CHR '' '' # as_str command" calls "CHR ''@'' # x @ '' ''"]
  by (simp add: tags_of_def tb_prefixed_command_def tb_is_empty_def mb_with_prefix_def mb_statement_def mb_drop_def
      buffer_message_def)

lemma plain_message_hd: "cl_full_name c \<noteq> [] \<Longrightarrow> \<exists>r. plain_message c command target content = CHR '':'' # r"
proof -
  assume "cl_full_name c \<noteq> []"
  then show ?thesis
    using mb_statement_appends [of "Param target # reason_param content" "CHR '':'' # cl_full_name c @ CHR '' '' # as_str command"]
    by (auto simp: plain_message_def buffer_message_def mb_with_prefix_def)
qed

text \<open>The tags of the server end with the time or the account.\<close>

definition no_at_end :: "string \<Rightarrow> bool" where
  "no_at_end v \<longleftrightarrow> v = [] \<or> last v \<noteq> CHR ''@''"

lemma last_escaped: "no_at_end v \<Longrightarrow> last (CHR ''='' # concat (map escape_char v)) \<noteq> CHR ''@''"
proof (cases v rule: rev_cases)
  case (snoc ys y)
  assume "no_at_end v"
  then have "y \<noteq> CHR ''@''" using snoc by (simp add: no_at_end_def)
  moreover have "last (escape_char y) \<noteq> CHR ''@''" if "y \<noteq> CHR ''@''" using that by (simp add: escape_char_def)
  ultimately show ?thesis using snoc by (simp add: last_append)
qed simp

lemma server_tags:
  assumes "tags_of [] tb x" and "\<forall>v \<in> {env_time_precise env} \<union> set_option (cl_account c). no_at_end v"
  shows "\<exists>y. tags_of [] (fold (\<lambda>(k, v). tb_tag k v) (message_tags_of env c) tb) y \<and> y \<noteq> [] \<and> last y \<noteq> CHR ''@''"
proof -
  have tag: "\<exists>y. tags_of [] (tb_tag k (Some v) t) y \<and> y \<noteq> [] \<and> last y \<noteq> CHR ''@''"
    if "tags_of [] t z" "no_at_end v" for t z k v
    using tags_of_tag [OF that(1), of k "Some v"] last_escaped [OF that(2)]
    by (auto simp: last_append simp del: last.simps)
  obtain a where a: "tags_of [] (tb_tag ''msgid'' (Some (env_message_id env)) tb) a"
    using tags_of_tag [OF assms(1)] by blast
  obtain b where b: "tags_of [] (tb_tag ''time'' (Some (env_time_precise env)) (tb_tag ''msgid'' (Some (env_message_id env)) tb)) b"
    "b \<noteq> []" "last b \<noteq> CHR ''@''"
    using tag [OF a, of "env_time_precise env" "''time''"] assms(2) by auto
  show ?thesis
    using b tag [OF b(1)] assms(2) by (cases "cl_account c") (auto simp: message_tags_of_def)
qed

lemma message_build_shape:
  assumes "iget i (sv_clients sv) = Some c" and "cl_full_name c \<noteq> []"
    and "\<forall>v \<in> {env_time_precise env} \<union> set_option (cl_account c). no_at_end v"
    and "message_build env i tgs command target content sv rb = Some (msg, rb')"
  obtains t where "msg = \<lparr>qi_start = length t, qi_buf = t @ plain_message c command target content\<rparr>"
    and "hd t = CHR ''@''" and "last t = CHR '' ''"
proof -
  obtain x where "tags_of [] (buffer_tagged_message tgs []) x" using tags_of_tagged by blast
  then obtain y where y: "tags_of [] (fold (\<lambda>(k, v). tb_tag k v) (message_tags_of env c) (buffer_tagged_message tgs [])) y"
    "y \<noteq> []" "last y \<noteq> CHR ''@''"
    using server_tags assms(3) by blast
  let ?tb = "fold (\<lambda>(k, v). tb_tag k v) (message_tags_of env c) (buffer_tagged_message tgs [])"
  have "tb_save_tag_len ?tb = length (''@'' @ y @ '' '')"
    using y by (simp add: tags_of_def tb_save_tag_len_def)
  moreover have "mb_statement calls (tb_prefixed_command (cl_full_name c) command ?tb)
      = (''@'' @ y @ '' '') @ buffer_message (cl_full_name c) command calls []" for calls
    by (rule statement_after_tags [OF y(1,2) assms(2)])
  ultimately have "msg = \<lparr>qi_start = length (''@'' @ y @ '' ''), qi_buf = (''@'' @ y @ '' '') @ plain_message c command target content\<rparr>"
    using assms(1,4) by (auto simp: message_build_def Let_def queue_item_from_def plain_message_def)
  then show thesis by (rule that) simp_all
qed

section \<open>Who shares a channel\<close>

definition shares :: "nat \<Rightarrow> nat \<Rightarrow> server \<Rightarrow> bool" where
  "shares i m sv \<longleftrightarrow> (\<exists>e \<in> set (sv_channels sv). ihas i (ch_members (snd e)) \<and> ihas m (ch_members (snd e)))"

lemma noticed_shares: "m \<in> set (noticed i sv) \<longleftrightarrow> shares i m sv"
  by (force simp: noticed_def shares_def ihas_iff)

lemma noticed_distinct: "distinct (noticed i sv)"
  by (simp add: noticed_def)

section \<open>Departures\<close>

lemma uget_retain_without:
  assumes "tok ukey chans"
  shows "uget n (retain_without i chans) =
    (case uget n chans of
       None \<Rightarrow> None
     | Some ch \<Rightarrow> if idel i (ch_members ch) = [] then None else Some (ch\<lparr>ch_members := idel i (ch_members ch)\<rparr>))"
proof -
  let ?g = "\<lambda>ch. ch\<lparr>ch_members := idel i (ch_members ch)\<rparr>"
  have map: "uget n (map (\<lambda>e. (fst e, ?g (snd e))) cs) = map_option ?g (uget n cs)" for cs
    by (induction cs) auto
  have tok: "tok ukey (map (\<lambda>e. (fst e, ?g (snd e))) chans)" using assms by (simp add: tok_def comp_def)
  show ?thesis
    unfolding retain_without_def
    tget_filter_snd [OF tok, where P = "\<lambda>ch. ch_members ch \<noteq> []"] map by (auto split: option.splits)
qed

section \<open>Properties\<close>

text \<open>C14: Messages to channels reach exactly the members.  A client that may talk in a channel - the
  modes \<open>m\<close> and \<open>n\<close> decide - sends its message to every other member that is capable of the command,
  to each of them once and to nobody else; for a client that may not talk nothing happens.\<close>

theorem channel_message_delivery:
  assumes "server_inv sv" and "uget to (sv_channels sv) = Some ch"
    and "cmd_message_channel env i tgs command to content sv rb = Some (res, sv', rb')"
  shows "if can_talk ch i
    then res = HOk \<and> (\<exists>msg d. message_build env i tgs command to content sv rb = Some (msg, rb')
           \<and> sv_sent sv' = sv_sent sv @ d
           \<and> exactly (\<lambda>m e. m \<noteq> i \<and> ihas m (ch_members ch) \<and> is_capable_of (cl_cap_enabled e) command)
               (sv_clients sv) msg d)
    else res = HErr \<and> sv' = sv"
proof -
  let ?ms = "tkeys (ch_members ch)"
  have "exactly (\<lambda>m e. m \<in> set ?ms \<and> \<not> (m = i \<or> \<not> is_capable_of (cl_cap_enabled e) command)) (sv_clients sv) msg
      (deliveries (\<lambda>t c. if t = i \<or> \<not> is_capable_of (cl_cap_enabled c) command then None else Some msg)
        (sv_clients sv) ?ms)" for msg
    by (rule deliveries_exactly_not [OF members_distinct [OF inv_channel [OF assms(1,2)]]])
  then have "exactly (\<lambda>m e. m \<noteq> i \<and> ihas m (ch_members ch) \<and> is_capable_of (cl_cap_enabled e) command)
      (sv_clients sv) msg
      (deliveries (\<lambda>t c. if t = i \<or> \<not> is_capable_of (cl_cap_enabled c) command then None else Some msg)
        (sv_clients sv) ?ms)" for msg
    by (rule exactly_cong [rotated]) (auto simp: ihas_iff)
  then show ?thesis
    using assms(2,3)
    by (auto simp: cmd_message_channel_def find_channel_def send_capable_post touch_def bind_eq_Some_conv
        split: if_splits)
qed

theorem channel_message_delivery_witness:
  "\<exists>sv' rb' msg d. cmd_message_channel env_sample 0 [] Cmd_PrivMsg ''#Rust'' (Some ''hi'') chat_sample (rb_new [] [] [])
       = Some (HOk, sv', rb')
     \<and> sv_sent sv' = d \<and> exactly (\<lambda>m e. m = 1) (sv_clients chat_sample) msg d"
proof -
  have key: "ukey ''#Rust'' = ukey ''#rust''" by code_simp
  have talk: "can_talk channel_sample 0" by (simp add: can_talk_def channel_sample_def add_member_def channel_empty_def Let_def)
  have ch: "uget ''#Rust'' (sv_channels chat_sample) = Some channel_sample" using key by simp
  obtain res sv' rb' where run: "cmd_message_channel env_sample 0 [] Cmd_PrivMsg ''#Rust'' (Some ''hi'') chat_sample
      (rb_new [] [] []) = Some (res, sv', rb')"
    using ch talk by (simp add: cmd_message_channel_def find_channel_def message_build_def send_capable_post Let_def)
  from channel_message_delivery [OF chat_sample_inv ch run] talk
  obtain msg d where *: "res = HOk" "sv_sent sv' = d"
    "exactly (\<lambda>m e. m \<noteq> 0 \<and> ihas m (ch_members channel_sample) \<and> is_capable_of (cl_cap_enabled e) Cmd_PrivMsg)
      (sv_clients chat_sample) msg d"
    by auto
  have "exactly (\<lambda>m e. m = 1) (sv_clients chat_sample) msg d"
    by (rule exactly_cong [OF _ *(3)])
      (auto simp: ihas_iff channel_sample_members tkeys_def is_capable_of_def split: if_splits)
  with run * show ?thesis by blast
qed

text \<open>C15: Private messages reach their addressee.  A message to the nickname of a registered client that is
  capable of the command is sent to this client, once and to nobody else; in any other case nothing
  happens.\<close>

theorem user_message_delivery:
  assumes "server_inv sv" and "cmd_message_user env i tgs command to content sv rb = Some (res, sv', rb')"
  shows "(\<exists>j d msg rb1. uget to (sv_nicks sv) = Some j \<and> iget j (sv_clients sv) = Some d \<and> client_is_registered d
       \<and> is_capable_of (cl_cap_enabled d) command \<and> res = HOk
       \<and> message_build env i tgs command to content sv rb = Some (msg, rb1)
       \<and> sv_sent sv' = sv_sent sv @ [(j, client_send d msg)])
    \<or> ((\<forall>j d. uget to (sv_nicks sv) = Some j \<longrightarrow> iget j (sv_clients sv) = Some d \<longrightarrow> client_is_registered d
          \<longrightarrow> \<not> is_capable_of (cl_cap_enabled d) command) \<and> res = HErr \<and> sv' = sv)"
proof (cases "uget to (sv_nicks sv)")
  case None
  then show ?thesis using assms(2) by (simp add: cmd_message_user_def find_nick_def)
next
  case (Some j)
  then obtain d where d: "iget j (sv_clients sv) = Some d" using inv_nick_client [OF assms(1)] by blast
  show ?thesis
  proof (cases "client_is_registered d \<and> is_capable_of (cl_cap_enabled d) command")
    case True
    then show ?thesis using Some d assms(2)
      by (auto simp: cmd_message_user_def find_nick_def touch_def send_def bind_eq_Some_conv)
  next
    case False
    then show ?thesis using Some d assms(2)
      by (auto simp: cmd_message_user_def find_nick_def Let_def split: if_splits)
  qed
qed

theorem user_message_delivery_witness:
  "\<exists>sv' rb' msg. cmd_message_user env_sample 0 [] Cmd_PrivMsg ''BOB'' (Some ''hi'') chat_sample (rb_new [] [] [])
     = Some (HOk, sv', rb') \<and> sv_sent sv' = [(1, client_send bob msg)]"
proof -
  have key: "ukey ''BOB'' = ukey ''bob''" "ukey ''bob'' \<noteq> ukey ''alice''" "ukey ''alice'' \<noteq> ukey ''BOB''" by code_simp+
  then obtain res sv' rb' where run: "cmd_message_user env_sample 0 [] Cmd_PrivMsg ''BOB'' (Some ''hi'') chat_sample
      (rb_new [] [] []) = Some (res, sv', rb')"
    by (simp add: cmd_message_user_def find_nick_def message_build_def is_capable_of_def send_post Let_def)
  from user_message_delivery [OF chat_sample_inv run] run key show ?thesis
    by (auto simp: is_capable_of_def)
qed

text \<open>C22: Message tags go to the clients that asked for them.  What a client reads of a message is the
  message with its tags when it has enabled message tags, and the same message without any tags
  otherwise; the cut is at the byte where the tags end, and never panics.\<close>

theorem tags_for_capable_clients:
  assumes "iget i (sv_clients sv) = Some c" and "cl_full_name c \<noteq> []"
    and "\<forall>v \<in> {env_time_precise env} \<union> set_option (cl_account c). no_at_end v"
    and "message_build env i tgs command target content sv rb = Some (msg, rb')"
  shows "\<exists>t. hd t = CHR ''@'' \<and> last t = CHR '' ''
    \<and> queue_item_as_ref (client_send d msg) =
        Some (if has_message_tags (cl_cap_enabled d) then t @ plain_message c command target content
              else plain_message c command target content)"
proof -
  obtain t where msg: "msg = \<lparr>qi_start = length t, qi_buf = t @ plain_message c command target content\<rparr>"
    and t: "hd t = CHR ''@''" "last t = CHR '' ''"
    by (rule message_build_shape [OF assms])
  obtain r where "plain_message c command target content = CHR '':'' # r" using plain_message_hd [OF assms(2)] by blast
  then have "queue_item_as_ref (client_send d msg) =
        Some (if has_message_tags (cl_cap_enabled d) then t @ plain_message c command target content
              else plain_message c command target content)"
    by (simp add: msg queue_item_as_ref_def client_send_def str_from_def is_char_boundary_def is_cont_def nth_append)
  with t show ?thesis by blast
qed

theorem tags_for_capable_clients_witness:
  "\<exists>msg rb'. message_build env_sample 0 [] Cmd_PrivMsg ''#rust'' (Some ''hi'') chat_sample (rb_new [] [] []) = Some (msg, rb')
     \<and> queue_item_as_ref (client_send bob msg) = Some (plain_message alice Cmd_PrivMsg ''#rust'' (Some ''hi''))"
proof -
  obtain msg rb' where run: "message_build env_sample 0 [] Cmd_PrivMsg ''#rust'' (Some ''hi'') chat_sample
      (rb_new [] [] []) = Some (msg, rb')"
    by (simp add: message_build_def Let_def)
  have "\<not> has_message_tags (cl_cap_enabled bob)" by (simp add: has_message_tags_def capabilities_default_def)
  moreover have "\<forall>v \<in> {env_time_precise env_sample} \<union> set_option (cl_account alice). no_at_end v"
    by (simp add: env_sample_def no_at_end_def alice_def)
  ultimately show ?thesis
    using tags_for_capable_clients [OF _ _ _ run, of alice bob] run by auto
qed

text \<open>C16: Departures.  When a registered client leaves - it quits, is killed, or its connection ends - it
  has no nickname and is in no channel, every channel loses this member only and is dropped when it was
  the last one, each client that shared a channel with it is told once, and nobody else is.\<close>

theorem departure_announced:
  assumes "server_inv sv" and "iget i (sv_clients sv) = Some c" and "client_is_registered c"
    and "sv' = remove_client i to_client to_others sv"
  shows "iget i (sv_clients sv') = None \<and> (\<forall>n. uget n (sv_nicks sv') \<noteq> Some i)
    \<and> (\<forall>n. uget n (sv_channels sv') = (case uget n (sv_channels sv) of
         None \<Rightarrow> None
       | Some ch \<Rightarrow> if idel i (ch_members ch) = [] then None
                    else Some (ch\<lparr>ch_members := idel i (ch_members ch)\<rparr>)))
    \<and> (\<exists>d bye err. bye = queue_item_from (buffer_message (cl_full_name c) Cmd_Quit [FmtTrailingParam to_others] [])
         \<and> sv_sent sv' = sv_sent sv @ [(i, client_send c bye)] @ d @ [(i, err)]
         \<and> exactly (\<lambda>m e. m \<noteq> i \<and> shares i m sv) (sv_clients sv) bye d)"
proof (intro conjI)
  have good: "good True sv" using assms(1) by (simp add: good_def)
  have gone: "\<not> ihas i (sv_clients sv')" unfolding assms(4) by (rule remove_client_good(3) [OF good])
  then show "iget i (sv_clients sv') = None" by (simp add: thas_def)
  have "server_inv sv'" unfolding assms(4) by (rule good_inv [OF remove_client_good(1) [OF good]])
  then show "\<forall>n. uget n (sv_nicks sv') \<noteq> Some i" using gone by (rule gone_everywhere(1))
  have tok: "tok ukey (sv_channels sv)" using assms(1) by (simp add: server_inv_def channels_ok_def)
  have chans: "sv_channels sv' = retain_without i (sv_channels sv)"
    using assms(2-4) by (simp add: remove_client_def Let_def send_posts)
  show "\<forall>n. uget n (sv_channels sv') = (case uget n (sv_channels sv) of
         None \<Rightarrow> None
       | Some ch \<Rightarrow> if idel i (ch_members ch) = [] then None
                    else Some (ch\<lparr>ch_members := idel i (ch_members ch)\<rparr>))"
    unfolding chans uget_retain_without [OF tok] by simp
  let ?bye = "queue_item_from (buffer_message (cl_full_name c) Cmd_Quit [FmtTrailingParam to_others] [])"
  let ?d = "deliveries (\<lambda>t c. if i = t \<or> \<not> True then None else Some ?bye) (idel i (sv_clients sv)) (noticed i sv)"
  have "exactly (\<lambda>m e. m \<in> set (noticed i sv) \<and> \<not> (i = m \<or> \<not> True)) (idel i (sv_clients sv)) ?bye ?d"
    by (rule deliveries_exactly_not [OF noticed_distinct])
  then have "exactly (\<lambda>m e. m \<noteq> i \<and> shares i m sv) (sv_clients sv) ?bye ?d"
    by (auto simp: exactly_def noticed_shares table)
  moreover have "\<exists>err. sv_sent sv' = sv_sent sv @ [(i, client_send c ?bye)] @ ?d @ [(i, err)]"
    using assms(2-4) by (simp add: remove_client_def Let_def send_posts noticed_def)
  ultimately show "\<exists>d bye err. bye = ?bye \<and> sv_sent sv' = sv_sent sv @ [(i, client_send c bye)] @ d @ [(i, err)]
         \<and> exactly (\<lambda>m e. m \<noteq> i \<and> shares i m sv) (sv_clients sv) bye d"
    by blast
qed

theorem departure_announced_witness:
  "\<exists>d bye err. sv_sent (remove_client 0 ''bye'' ''gone'' chat_sample) = (0, client_send alice bye) # d @ [(0, err)]
     \<and> exactly (\<lambda>m e. m = 1) (sv_clients chat_sample) bye d"
proof -
  have iff: "m \<noteq> 0 \<and> shares 0 m chat_sample \<longleftrightarrow> m = 1" for m
    by (auto simp: shares_def channel_sample_members ihas_iff tkeys_def)
  show ?thesis
    using departure_announced [OF chat_sample_inv _ _ refl, of 0 alice "''bye''" "''gone''"]
    unfolding iff by auto
qed

text \<open>C17: Changes of nickname.  A nickname that another client has, up to case, is refused and nothing
  changes.  Otherwise the client has the new nickname, the old one is free, the channels stay as they
  are, and each client that shares a channel with it is told once, under the old name.\<close>

theorem nick_change:
  assumes "server_inv sv" and "iget i (sv_clients sv) = Some c" and "client_is_registered c"
    and "nick \<noteq> cl_nick c" and "cmd_nick i nick sv rb = Some (res, sv', rb')"
  shows "if \<exists>j. uget nick (sv_nicks sv) = Some j \<and> j \<noteq> i then res = HErr \<and> sv' = sv
    else res = HOk \<and> iget i (sv_clients sv') = Some (set_nick nick c) \<and> uget nick (sv_nicks sv') = Some i
      \<and> (\<forall>n. ukey n \<noteq> ukey nick \<longrightarrow> uget n (sv_nicks sv') \<noteq> Some i) \<and> sv_channels sv' = sv_channels sv
      \<and> (\<exists>d msg. msg = queue_item_from (buffer_message (cl_full_name c) Cmd_Nick [Param nick] [])
           \<and> sv_sent sv' = sv_sent sv @ d \<and> exactly (\<lambda>m e. m \<noteq> i \<and> shares i m sv) (sv_clients sv) msg d)"
proof (cases "\<exists>j. uget nick (sv_nicks sv) = Some j \<and> j \<noteq> i")
  case True
  then show ?thesis using assms(2,5) by (auto simp: cmd_nick_def)
next
  case False
  let ?nicks = "uput nick i (udel (cl_nick c) (sv_nicks sv))"
  let ?clients = "iupd i (set_nick nick) (sv_clients sv)"
  let ?msg = "queue_item_from (buffer_message (cl_full_name c) Cmd_Nick [Param nick] [])"
  let ?d = "deliveries (\<lambda>t c. if i = t \<or> \<not> True then None else Some ?msg) ?clients (noticed i sv)"
  have run: "res = HOk" "sv' = post (sv\<lparr>sv_nicks := ?nicks, sv_clients := ?clients\<rparr>) ?d"
    using False assms(2-5)
    by (auto simp: cmd_nick_def change_nick_def Let_def send_notification_post noticed_def split: option.splits)
  have "exactly (\<lambda>m e. m \<in> set (noticed i sv) \<and> \<not> (i = m \<or> \<not> True)) ?clients ?msg ?d"
    by (rule deliveries_exactly_not [OF noticed_distinct])
  then have "exactly (\<lambda>m e. m \<noteq> i \<and> shares i m sv) (sv_clients sv) ?msg ?d"
    by (auto simp: exactly_def noticed_shares table)
  moreover have "uget n ?nicks \<noteq> Some i" if "ukey n \<noteq> ukey nick" for n
  proof
    assume "uget n ?nicks = Some i"
    then have n: "ukey n \<noteq> ukey (cl_nick c)" "uget n (sv_nicks sv) = Some i"
      using that by (auto simp: table split: if_splits)
    then show False using inv_nick_client [OF assms(1) n(2)] assms(2) by simp
  qed
  ultimately show ?thesis using False run assms(2) by (auto simp: table)
qed

theorem nick_change_witness:
  "\<exists>sv' rb'. cmd_nick 0 ''alicia'' chat_sample (rb_new [] [] []) = Some (HOk, sv', rb')
     \<and> uget ''ALICIA'' (sv_nicks sv') = Some 0 \<and> uget ''alice'' (sv_nicks sv') \<noteq> Some 0"
proof -
  have key: "ukey ''alicia'' \<noteq> ukey ''alice''" "ukey ''alicia'' \<noteq> ukey ''bob''" "ukey ''ALICIA'' = ukey ''alicia''"
    by code_simp+
  obtain res sv' rb' where run: "cmd_nick 0 ''alicia'' chat_sample (rb_new [] [] []) = Some (res, sv', rb')"
    using key by (simp add: cmd_nick_def change_nick_def Let_def)
  have free: "\<not> (\<exists>j. uget ''alicia'' (sv_nicks chat_sample) = Some j \<and> j \<noteq> 0)" using key by simp
  have "uget ''alice'' (sv_nicks sv') \<noteq> Some 0" "uget ''alicia'' (sv_nicks sv') = Some 0" "res = HOk"
    using nick_change [OF chat_sample_inv _ _ _ run, of alice] free key(1) by auto
  moreover have "uget ''ALICIA'' (sv_nicks sv') = uget ''alicia'' (sv_nicks sv')" by (rule tget_cong) (rule key)
  ultimately show ?thesis using run by simp
qed

end
