(* ===== verification/Access.thy ===== *)
theory Access
  imports Delivery
begin

text \<open>
  Who may do what: joining, kicking, changing modes, seeing secret channels; what errors leave behind and
  how long the texts are that the server stores.
\<close>

section \<open>Joining\<close>

text \<open>The specification of \<open>check_join\<close>: a mask set matches a text when one of its masks does.\<close>

definition mask_covers :: "mask_set \<Rightarrow> string \<Rightarrow> bool" where
  "mask_covers ms s \<longleftrightarrow> (\<exists>m \<in> set (masks ms). glob (chars m) (bytes s))"

definition may_join :: "nat \<Rightarrow> client \<Rightarrow> channel \<Rightarrow> string option \<Rightarrow> bool" where
  "may_join i c ch key \<longleftrightarrow>
     \<not> ihas i (ch_members ch)
     \<and> ch_key ch = key
     \<and> (\<forall>limit. ch_user_limit ch = Some limit \<longrightarrow> length (ch_members ch) < limit)
     \<and> (ch_invite_only ch \<longrightarrow> i \<in> ch_invites ch \<or> mask_covers (ch_invex_mask ch) (cl_nick c))
     \<and> \<not> (\<exists>who \<in> {cl_nick c, cl_full_name c}. mask_covers (ch_ban_mask ch) who
            \<and> \<not> mask_covers (ch_exception_mask ch) who \<and> \<not> mask_covers (ch_invex_mask ch) who)"

lemma mask_match_covers: "ascii_str s \<Longrightarrow> mask_set_is_match ms s = Some (mask_covers ms s)"
  by (simp add: mask_match_total mask_covers_def)

lemma is_banned_covers:
  "ascii_str s \<Longrightarrow> is_banned ch s = Some (mask_covers (ch_ban_mask ch) s
     \<and> \<not> mask_covers (ch_exception_mask ch) s \<and> \<not> mask_covers (ch_invex_mask ch) s)"
  by (simp add: is_banned_def mask_match_covers)

lemma is_invited_covers:
  "ascii_str s \<Longrightarrow> is_invited ch i s =
     Some (ch_invite_only ch \<longrightarrow> i \<in> ch_invites ch \<or> mask_covers (ch_invex_mask ch) s)"
  by (simp add: is_invited_def mask_match_covers)

lemma check_join_may_join:
  assumes "client_ascii c"
  shows "\<exists>rb'. check_join i c ch name key rb = Some (may_join i c ch key, rb')"
  using assms
  by (auto simp: check_join_def client_ascii_def is_banned_covers is_invited_covers may_join_def
      split: option.splits)

section \<open>Mode changes\<close>

lemma mode_change_one_channel:
  assumes "mode_change_one name keylen nick_of c (ch, am, rb) = Some (ch', am', rb')"
  shows "ch' = ch \<or> (\<exists>change r. c = Inr change \<and> channel_apply_mode_change change keylen nick_of ch = Some (r, ch'))"
proof (cases c)
  case (Inl e)
  then show ?thesis using assms by (cases e) (auto simp: mode_change_one_def)
next
  case (Inr change)
  then show ?thesis using assms
    by (cases change)
      (auto simp: mode_change_one_def mode_change_apply_def split: option.splits sum.splits bool.splits if_splits)
qed

lemma mode_change_loop_rank:
  assumes "\<forall>change. Inr change \<in> set cs \<longrightarrow> can_make m change"
    and "mode_change_loop name keylen nick_of cs (ch, am, rb) = Some (ch', am', rb')"
  shows "(\<not> is_at_least_halfop m \<longrightarrow> ch' = ch) \<and> (\<not> is_at_least_op m \<longrightarrow> op_part ch' = op_part ch)"
  using assms
proof (induction cs arbitrary: ch am rb)
  case (Cons c cs)
  then obtain ch1 am1 rb1 where one: "mode_change_one name keylen nick_of c (ch, am, rb) = Some (ch1, am1, rb1)"
    and rest: "mode_change_loop name keylen nick_of cs (ch1, am1, rb1) = Some (ch', am', rb')"
    by (auto split: option.splits)
  have "(\<not> is_at_least_halfop m \<longrightarrow> ch1 = ch) \<and> (\<not> is_at_least_op m \<longrightarrow> op_part ch1 = op_part ch)"
    using mode_change_one_channel [OF one] can_make_effect Cons.prems(1) by fastforce
  moreover have "(\<not> is_at_least_halfop m \<longrightarrow> ch' = ch1) \<and> (\<not> is_at_least_op m \<longrightarrow> op_part ch' = op_part ch1)"
    by (rule Cons.IH [OF _ rest]) (use Cons.prems(1) in simp)
  ultimately show ?case by auto
qed simp

lemma mode_change_loop_keeps:
  assumes "mode_change_loop name keylen nick_of cs (ch, am, rb) = Some (ch', am', rb')"
  shows "tkeys (ch_members ch') = tkeys (ch_members ch) \<and> ch_invites ch' = ch_invites ch \<and> ch_topic ch' = ch_topic ch"
  using assms
proof (induction cs arbitrary: ch am rb)
  case (Cons c cs)
  then obtain ch1 am1 rb1 where one: "mode_change_one name keylen nick_of c (ch, am, rb) = Some (ch1, am1, rb1)"
    and rest: "mode_change_loop name keylen nick_of cs (ch1, am1, rb1) = Some (ch', am', rb')"
    by (auto split: option.splits)
  have "tkeys (ch_members ch1) = tkeys (ch_members ch) \<and> ch_invites ch1 = ch_invites ch \<and> ch_topic ch1 = ch_topic ch"
    using mode_change_one_channel [OF one] channel_apply_mode_change_keeps by blast
  then show ?case using Cons.IH [OF rest] by simp
qed simp

text \<open>What \<open>MODE\<close> on a channel does to the state.\<close>

lemma cmd_mode_channel_set_effect:
  assumes "server_inv sv" and "iget i (sv_clients sv) = Some c"
    and "cmd_mode_channel_set i name modes params sv rb = Some (res, sv', rb')"
  obtains (refused) "res = HErr" "sv' = sv"
  | (allowed) ch m ch' am rb1 rb2 d where "uget name (sv_channels sv) = Some ch" "iget i (ch_members ch) = Some m"
      "cl_operator c \<or> can_change m modes params" "res = HOk"
      "mode_change_loop name (sv_keylen sv) (\<lambda>a. map_option cl_nick (iget a (sv_clients sv)))
         (channel_query modes params) (ch, \<lparr>am_modes = [], am_params = [], am_last = True\<rparr>, rb1) = Some (ch', am, rb2)"
      "sv' = post (sv\<lparr>sv_channels := uupd name (\<lambda>_. ch') (sv_channels sv)\<rparr>) d"
proof (cases "uget name (sv_channels sv)")
  case None
  then show thesis using assms(3) refused by (simp add: cmd_mode_channel_set_def)
next
  case (Some ch)
  show thesis
  proof (cases "find_member i ch name rb")
    case (Inl rb1)
    then show thesis using Some assms(2,3) refused by (simp add: cmd_mode_channel_set_def)
  next
    case (Inr m)
    then have m: "iget i (ch_members ch) = Some m" by (simp add: find_member_Inr)
    show thesis
    proof (cases "cl_operator c \<or> can_change m modes params")
      case False
      then show thesis using Some Inr assms(2,3) refused by (simp add: cmd_mode_channel_set_def)
    next
      case True
      let ?loop = "mode_change_loop name (sv_keylen sv) (\<lambda>a. map_option cl_nick (iget a (sv_clients sv)))
         (channel_query modes params) (ch, \<lparr>am_modes = [], am_params = [], am_last = True\<rparr>, rb_lr_batch_begin rb)"
      obtain ch' am rb2 where loop: "?loop = Some (ch', am, rb2)"
        using True Some Inr assms(2,3) by (cases ?loop) (auto simp: cmd_mode_channel_set_def)
      then have "res = HOk \<and> (\<exists>d. sv' = post (sv\<lparr>sv_channels := uupd name (\<lambda>_. ch') (sv_channels sv)\<rparr>) d)"
        using True Some Inr assms(2,3)
        by (auto simp: cmd_mode_channel_set_def send_each_post Let_def bind_eq_Some_conv split: if_splits
            intro: exI [of _ "[]"])
      then show thesis using allowed [OF Some m True _ loop] by blast
    qed
  qed
qed

section \<open>Kicking\<close>

text \<open>The registered clients a nickname names.\<close>

definition named_by :: "server \<Rightarrow> string \<Rightarrow> nat set" where
  "named_by sv nick =
     {k. uget nick (sv_nicks sv) = Some k \<and> (\<exists>d. iget k (sv_clients sv) = Some d \<and> client_is_registered d)}"

text \<open>The channel \<open>name\<close> is replaced and nothing else changes, but for what is sent.\<close>

definition only_channel :: "string \<Rightarrow> channel \<Rightarrow> server \<Rightarrow> server \<Rightarrow> bool" where
  "only_channel name ch' sv sv' \<longleftrightarrow>
     sv_clients sv' = sv_clients sv \<and> sv_nicks sv' = sv_nicks sv \<and> sv_opers sv' = sv_opers sv
     \<and> (\<forall>n. uget n (sv_channels sv') = (if ukey n = ukey name then Some ch' else uget n (sv_channels sv)))"

lemma only_channel_refl:
  assumes "uget name (sv_channels sv) = Some ch"
  shows "only_channel name ch sv sv"
proof -
  have "uget n (sv_channels sv) = (if ukey n = ukey name then Some ch else uget n (sv_channels sv))" for n
    using tget_cong [of ukey n name "sv_channels sv"] assms by simp
  then show ?thesis by (simp add: only_channel_def)
qed

lemma only_channel_get: "only_channel name ch' sv sv' \<Longrightarrow> uget name (sv_channels sv') = Some ch'"
  by (simp add: only_channel_def)

lemma only_channel_trans: "only_channel name a sv s \<Longrightarrow> only_channel name b s sv' \<Longrightarrow> only_channel name b sv sv'"
  by (simp add: only_channel_def)

lemma only_channel_upd:
  assumes "uget name (sv_channels sv) = Some ch"
  shows "only_channel name (g ch) sv (post (sv\<lparr>sv_channels := uupd name g (sv_channels sv)\<rparr>) d)"
proof -
  have "uget n (uupd name g (sv_channels sv)) = (if ukey n = ukey name then Some (g ch) else uget n (sv_channels sv))" for n
    using tget_cong [of ukey n name "sv_channels sv"] assms by (cases "ukey n = ukey name") simp_all
  then show ?thesis by (simp add: only_channel_def)
qed

definition without :: "nat set \<Rightarrow> channel \<Rightarrow> channel" where
  "without ks ch = ch\<lparr>ch_members := filter (\<lambda>e. fst e \<notin> ks) (ch_members ch)\<rparr>"

lemma without_without: "without b (without a ch) = without (a \<union> b) ch"
  by (simp add: without_def conj_commute)

lemma without_empty [simp]: "without {} ch = ch"
  by (simp add: without_def)

lemma without_absent: "\<forall>k \<in> ks. \<not> ihas k (ch_members ch) \<Longrightarrow> without ks ch = ch"
proof -
  assume "\<forall>k \<in> ks. \<not> ihas k (ch_members ch)"
  then have "filter (\<lambda>e. fst e \<notin> ks) (ch_members ch) = ch_members ch"
    by (auto simp: filter_id_conv ihas_iff tkeys_def)
  then show ?thesis by (simp add: without_def)
qed

lemma without_one: "ch\<lparr>ch_members := idel k (ch_members ch)\<rparr> = without {k} ch"
  by (simp add: without_def tdel_def)

lemma kick_one_effect:
  assumes "uget name (sv_channels sv) = Some ch" and "kick_one i name reason nick sv rb = Some (sv', rb')"
  shows "only_channel name (without (named_by sv nick) ch) sv sv'"
proof -
  consider (missing) rb1 where "find_nick nick sv rb = Some (Inl rb1)" "named_by sv nick = {}"
    | (found) k d where "find_nick nick sv rb = Some (Inr (k, d))" "named_by sv nick = {k}"
    using assms(2)
    by (auto simp: kick_one_def find_nick_def named_by_def bind_eq_Some_conv Let_def split: option.splits if_splits)
  then show ?thesis
  proof cases
    case missing
    then show ?thesis using assms only_channel_refl by (auto simp: kick_one_def)
  next
    case (found k d)
    show ?thesis
    proof (cases "ihas k (ch_members ch)")
      case True
      then obtain e where "sv' = post (sv\<lparr>sv_channels := uupd name (\<lambda>_. without {k} ch) (sv_channels sv)\<rparr>) e"
        using found(1) assms
        by (auto simp: kick_one_def send_kick_def send_each_post without_one bind_eq_Some_conv Let_def split: if_splits)
      then show ?thesis using only_channel_upd [OF assms(1)] found(2) by simp
    next
      case False
      then show ?thesis
        using found assms only_channel_refl [OF assms(1)] without_absent [of "{k}" ch] by (auto simp: kick_one_def)
    qed
  qed
qed

lemma kick_loop_effect:
  assumes "uget name (sv_channels sv) = Some ch" and "kick_loop i name reason ns sv rb = Some (sv', rb')"
  shows "only_channel name (without (\<Union>nick \<in> set ns. named_by sv nick) ch) sv sv'"
  using assms
proof (induction ns arbitrary: sv ch rb)
  case Nil
  then show ?case using only_channel_refl by auto
next
  case (Cons n ns)
  then obtain s rb1 where one: "kick_one i name reason n sv rb = Some (s, rb1)"
    and rest: "kick_loop i name reason ns s rb1 = Some (sv', rb')"
    by (auto split: option.splits)
  note s = kick_one_effect [OF Cons.prems(1) one]
  have "named_by s = named_by sv" using s by (simp add: only_channel_def named_by_def fun_eq_iff)
  then show ?case
    using only_channel_trans [OF s Cons.IH [OF only_channel_get [OF s] rest]] by (simp add: without_without)
qed

lemma cmd_kick_effect:
  assumes "cmd_kick i who from' reason sv rb = Some (res, sv', rb')"
  shows "(\<exists>ch m. uget from' (sv_channels sv) = Some ch \<and> iget i (ch_members ch) = Some m \<and> mm_operator m \<and> res = HOk
       \<and> only_channel from' (without (\<Union>nick \<in> set (nicknames who). named_by sv nick) ch) sv sv')
    \<or> ((\<forall>ch m. uget from' (sv_channels sv) = Some ch \<longrightarrow> iget i (ch_members ch) = Some m \<longrightarrow> \<not> mm_operator m)
       \<and> res = HErr \<and> sv' = sv)"
proof (cases "uget from' (sv_channels sv)")
  case None
  then show ?thesis using assms by (simp add: cmd_kick_def)
next
  case (Some ch)
  show ?thesis
  proof (cases "iget i (ch_members ch)")
    case None
    then show ?thesis using Some assms by (simp add: cmd_kick_def find_member_def)
  next
    case m: (Some m)
    show ?thesis
    proof (cases "mm_operator m")
      case True
      then obtain r where loop: "kick_loop i from' r (nicknames who) sv rb = Some (sv', rb')" "res = HOk"
        using Some m assms by (auto simp: cmd_kick_def find_member_def bind_eq_Some_conv)
      then show ?thesis using kick_loop_effect [OF Some loop(1)] Some m True by blast
    next
      case False
      then show ?thesis using Some m assms by (simp add: cmd_kick_def find_member_def)
    qed
  qed
qed

section \<open>Entering a channel\<close>

lemma enter_channel_effect:
  assumes "enter_channel i name sv = Some s"
  shows "\<exists>ch0. (uget name (sv_channels sv) = Some ch0
        \<or> (uget name (sv_channels sv) = None \<and> channel_new (sv_default_chan_mode sv) = Some ch0))
    \<and> only_channel name (add_member i ch0) sv s \<and> sv_sent s = sv_sent sv"
proof (cases "uget name (sv_channels sv)")
  case None
  then obtain ch0 where "channel_new (sv_default_chan_mode sv) = Some ch0"
    "s = sv\<lparr>sv_channels := uput name (add_member i ch0) (sv_channels sv)\<rparr>"
    using assms by (auto simp: enter_channel_def bind_eq_Some_conv)
  then show ?thesis using None by (intro exI [of _ ch0]) (simp add: only_channel_def table)
next
  case (Some ch)
  have "only_channel name (add_member i ch) sv (sv\<lparr>sv_channels := uupd name (add_member i) (sv_channels sv)\<rparr>)"
    using only_channel_upd [OF Some, of "add_member i" "[]"] by simp
  then show ?thesis using Some assms by (auto simp: enter_channel_def)
qed

text \<open>Everybody else in the channel hears of it, and nobody else.\<close>

lemma send_join_effect:
  assumes "uget name (sv_channels sv) = Some ch" and "send_join i name c sv rb = Some (s, rb')"
  shows "\<exists>d. s = post sv d \<and> fst ` set d = set (others i ch)"
proof -
  have all: "fst ` set (deliveries (\<lambda>m e. Some (it m e)) cs ms) = {m \<in> set ms. ihas m cs}" for it cs ms
    by (induction ms) (auto simp: deliveries_Cons thas_def split: option.splits)
  have some: "fst ` set (deliveries item cs ms) \<subseteq> {m \<in> set ms. ihas m cs}" for item cs ms
    by (auto simp: deliveries_set thas_def)
  have conn: "\<forall>m \<in> set (others i ch). ihas m (sv_clients sv)"
    using assms by (auto simp: send_join_def send_each_post Let_def split: if_splits option.splits)
  then have set: "{m \<in> set (others i ch). ihas m (sv_clients sv)} = set (others i ch)" by blast
  have mem: "(a, x) \<in> set (deliveries item cs ms) \<Longrightarrow> a \<in> set ms" for a x item cs ms
    by (simp add: deliveries_set)
  have ex: "fst ` set d = S \<Longrightarrow> \<exists>d'. post sv d = post sv d' \<and> fst ` set d' = S" for d S by blast
  have two: "fst ` set (deliveries (\<lambda>m e. Some (it m e)) (sv_clients sv) (others i ch)
      @ deliveries item (sv_clients sv) (others i ch)) = set (others i ch)" for it item
    unfolding set_append image_Un all using some [of item "sv_clients sv" "others i ch"] set by blast
  show ?thesis
    using assms conn all [where ms = "others i ch"] set two
    by (cases "cl_away_message c") (auto simp: send_join_def send_each_post Let_def intro!: ex dest: mem)
qed

lemma join_one_enters:
  assumes "join_one i c name key sv rb = Some (ok, sv', rb')"
  shows "if ok
    then \<exists>ch0 d. (if uget name (sv_channels sv) = None then channel_new (sv_default_chan_mode sv) = Some ch0
                  else uget name (sv_channels sv) = Some ch0 \<and> (\<exists>rb0. check_join i c ch0 name key rb = Some (True, rb0)))
       \<and> only_channel name (add_member i ch0) sv sv'
       \<and> sv_sent sv' = sv_sent sv @ d \<and> fst ` set d = set (others i (add_member i ch0))
    else sv' = sv"
proof (cases ok)
  case False
  then show ?thesis using assms by (auto simp: join_one_def bind_eq_Some_conv split: option.splits if_splits)
next
  case True
  obtain allowed rb0 where check: "(case uget name (sv_channels sv) of None \<Rightarrow> Some (True, rb)
      | Some channel \<Rightarrow> check_join i c channel name key rb) = Some (allowed, rb0)"
    using assms by (auto simp: join_one_def bind_eq_Some_conv)
  then have "allowed" using True assms by (auto simp: join_one_def split: if_splits)
  then have may: "\<exists>rb0. check_join i c ch0 name key rb = Some (True, rb0)" if "uget name (sv_channels sv) = Some ch0" for ch0
    using check that by auto
  from \<open>allowed\<close> check True obtain s rb1 rb2 where enter: "enter_channel i name sv = Some s"
    and join: "send_join i name c s rb1 = Some (sv', rb2)"
    using assms by (auto simp: join_one_def bind_eq_Some_conv)
  obtain ch0 where ch0: "uget name (sv_channels sv) = Some ch0
        \<or> (uget name (sv_channels sv) = None \<and> channel_new (sv_default_chan_mode sv) = Some ch0)"
    "only_channel name (add_member i ch0) sv s" "sv_sent s = sv_sent sv"
    using enter_channel_effect [OF enter] by blast
  obtain d where d: "sv' = post s d" "fst ` set d = set (others i (add_member i ch0))"
    using send_join_effect [OF only_channel_get [OF ch0(2)] join] by blast
  have "only_channel name (add_member i ch0) sv sv'" using ch0(2) d(1) by (simp add: only_channel_def)
  then show ?thesis using True ch0 d may by auto
qed

section \<open>Errors\<close>

definition errors_keep :: "server \<Rightarrow> handled \<Rightarrow> bool" where
  "errors_keep sv m \<longleftrightarrow> wp True m (\<lambda>(res, s, rb). res = HErr \<longrightarrow> s = sv)"

lemma query_errors:
  "errors_keep sv (cmd_who_channel i name flt sv rb)" "errors_keep sv (cmd_who_mask i name flt sv rb)"
  "errors_keep sv (cmd_who_user i name flt sv rb)" "errors_keep sv (cmd_who_all i flt sv rb)"
  "errors_keep sv (cmd_whois env name sv rb)" "errors_keep sv (cmd_mode_channel_get i name sv rb)"
  "errors_keep sv (cmd_mode_user_get i name sv rb)" "errors_keep sv (cmd_topic_get i name sv rb)"
  "errors_keep sv (cmd_list i name sv rb)" "errors_keep sv (cmd_list_all i sv rb)"
  "errors_keep sv (cmd_names i name sv rb)" "errors_keep sv (cmd_cap_list i sv rb)"
  unfolding errors_keep_def cmd_who_channel_def cmd_who_mask_def cmd_who_user_def cmd_who_all_def cmd_whois_def
      cmd_mode_channel_get_def cmd_mode_user_get_def cmd_topic_get_def cmd_list_def cmd_list_all_def cmd_names_def cmd_cap_list_def
  by (auto simp: Let_def intro!: wp_any split: option.splits sum.splits)

lemma user_errors:
  "errors_keep sv (cmd_pass i name sv rb)" "errors_keep sv (cmd_cap_ls i v sv rb)"
  "errors_keep sv (cmd_cap_req i d sv rb)" "errors_keep sv (cmd_nick i name sv rb)"
  "errors_keep sv (cmd_away i reason sv rb)" "errors_keep sv (cmd_setname i name sv rb)"
  "errors_keep sv (cmd_mode_user_set i name modes sv rb)" "errors_keep sv (cmd_oper i name pw sv rb)"
  "errors_keep sv (cmd_kill i name r sv rb)" "errors_keep sv (cmd_rehash i sv rb)"
  unfolding errors_keep_def cmd_pass_def cmd_cap_ls_def cmd_cap_req_def cmd_nick_def cmd_away_def cmd_setname_def
      cmd_mode_user_set_def cmd_oper_def cmd_kill_def cmd_rehash_def
  by (auto simp: Let_def intro!: wp_any split: option.splits sum.splits prod.splits)

lemma channel_errors:
  "errors_keep sv (cmd_join env i names ks sv rb)" "errors_keep sv (cmd_part_all i sv rb)"
  "errors_keep sv (cmd_invite i name to sv rb)" "errors_keep sv (cmd_kick i name from' reason sv rb)"
  "errors_keep sv (cmd_topic_set env i name topic' sv rb)"
  "errors_keep sv (cmd_mode_channel_set i name modes ps sv rb)"
  "errors_keep sv (cmd_message_channel env i tgs cmd to content sv rb)"
  "errors_keep sv (cmd_message_user env i tgs cmd to content sv rb)"
  unfolding errors_keep_def cmd_join_def cmd_part_all_def cmd_invite_def cmd_kick_def cmd_topic_set_def cmd_mode_channel_set_def
      cmd_message_channel_def cmd_message_user_def
  by (auto simp: Let_def intro!: wp_any split: option.splits sum.splits prod.splits)
lemma request_errors:
  assumes "\<not> is_user req" and "\<forall>names reason. req \<noteq> Req_Part names reason"
  shows "errors_keep sv (run_request env i tgs req sv rb)"
proof (cases req)
  case (Req_User u r)
  with assms(1) show ?thesis by (simp add: is_user_def)
next
  case (Req_Part u r)
  with assms(2) show ?thesis by blast
qed (simp_all add: run_request_def query_errors user_errors channel_errors,
    simp_all add: errors_keep_def cmd_quit_def cmd_authenticate_def cmd_message_all_def cmd_admin_def cmd_info_def
      cmd_lusers_def cmd_motd_def cmd_time_def cmd_version_def cmd_ping_def cmd_pong_def cmd_names_all_def
      cmd_cap_end_def Let_def)

section \<open>Secret channels\<close>

text \<open>The server without the secret channels the client is not in.\<close>

definition visible :: "nat \<Rightarrow> server \<Rightarrow> server" where
  "visible i sv = sv\<lparr>sv_channels :=
     filter (\<lambda>e. \<not> ch_secret (snd e) \<or> ihas i (ch_members (snd e))) (sv_channels sv)\<rparr>"

lemma visible_fields [simp]:
  "sv_clients (visible i sv) = sv_clients sv" "sv_domain (visible i sv) = sv_domain sv"
  by (simp_all add: visible_def)

lemma uget_visible:
  assumes "server_inv sv"
  shows "uget n (sv_channels (visible i sv)) = (case uget n (sv_channels sv) of
    None \<Rightarrow> None | Some ch \<Rightarrow> if \<not> ch_secret ch \<or> ihas i (ch_members ch) then Some ch else None)"
proof -
  have "tok ukey (sv_channels sv)" using assms by (simp add: server_inv_def channels_ok_def)
  then show ?thesis
    using tget_filter_snd [of ukey "sv_channels sv" n "\<lambda>ch. \<not> ch_secret ch \<or> ihas i (ch_members ch)"]
    by (simp add: visible_def)
qed

lemma send_names_visible: "server_inv sv \<Longrightarrow> send_names i name (visible i sv) rb = send_names i name sv rb"
  by (auto simp: send_names_def uget_visible split: option.splits)

lemma names_loop_visible: "server_inv sv \<Longrightarrow> names_loop i ns (visible i sv) rb = names_loop i ns sv rb"
  by (induction ns arbitrary: rb) (auto simp: send_names_visible split: option.splits)

lemma send_lusers_visible: "send_lusers i (visible i sv) rb = send_lusers i sv rb"
proof -
  have "length (filter P (map snd (filter (\<lambda>e. P (snd e)) cs))) = length (filter P (map snd cs))" for P and cs :: "channel utable"
    by (induction cs) auto
  from this [of "\<lambda>ch. \<not> ch_secret ch \<or> ihas i (ch_members ch)"] show ?thesis
    by (simp add: send_lusers_def visible_def)
qed

lemma list_all_visible:
  "\<not> cl_operator c \<Longrightarrow>
   fold (\<lambda>e rb. if list_hidden i c (snd e) then rb else list_line (fst e) (snd e) rb) (sv_channels (visible i sv)) rb
   = fold (\<lambda>e rb. if list_hidden i c (snd e) then rb else list_line (fst e) (snd e) rb) (sv_channels sv) rb"
proof -
  assume "\<not> cl_operator c"
  then have "fold (\<lambda>e rb. if list_hidden i c (snd e) then rb else list_line (fst e) (snd e) rb)
      (filter (\<lambda>e. \<not> ch_secret (snd e) \<or> ihas i (ch_members (snd e))) cs) rb
    = fold (\<lambda>e rb. if list_hidden i c (snd e) then rb else list_line (fst e) (snd e) rb) cs rb" for cs rb
    by (induction cs arbitrary: rb) (auto simp: list_hidden_def)
  then show ?thesis by (simp add: visible_def)
qed

lemma list_visible:
  assumes "server_inv sv" and "\<not> cl_operator c"
  shows "(case uget name (sv_channels (visible i sv)) of None \<Rightarrow> rb
      | Some ch \<Rightarrow> if list_hidden i c ch then rb else list_line name ch rb)
    = (case uget name (sv_channels sv) of None \<Rightarrow> rb
      | Some ch \<Rightarrow> if list_hidden i c ch then rb else list_line name ch rb)"
  using assms by (auto simp: uget_visible list_hidden_def split: option.splits)

section \<open>Properties\<close>

text \<open>C12: Who may join.  On ASCII names the checks of \<open>JOIN\<close> decide exactly this: the client is no member,
  gives the key of the channel, the channel is not full, it is open or the client invited - by name or by
  an invitation mask -, and no ban covers the nickname or the full name without an exception that covers
  it too.\<close>

theorem check_join_decides:
  assumes "client_ascii c"
  shows "map_option fst (check_join i c ch name key rb) = Some (may_join i c ch key)"
  using check_join_may_join [OF assms, of i ch name key rb] by auto

theorem check_join_decides_witness:
  "map_option fst (check_join 5 (client_sample ''dave'')
      (channel_sample\<lparr>ch_ban_mask := ''*!*@::1'', ch_exception_mask := ''dave!*''\<rparr>) ''#rust'' None (rb_new [] [] [])) = Some True"
proof -
  let ?c = "client_sample ''dave''"
  let ?ch = "channel_sample\<lparr>ch_ban_mask := ''*!*@::1'', ch_exception_mask := ''dave!*''\<rparr>"
  have "client_ascii ?c" by (simp add: client_ascii_def is_ascii_def)
  moreover have "\<not> mask_covers ''*!*@::1'' ''dave''" "mask_covers ''dave!*'' ''dave!~u@::1''"
    unfolding mask_covers_def by code_simp+
  then have "may_join 5 ?c ?ch None"
    by (auto simp: may_join_def ihas_iff channel_sample_def add_member_def channel_empty_def tkeys_def Let_def)
  ultimately show ?thesis using check_join_decides [of ?c 5 ?ch "''#rust''" None "rb_new [] [] []"] by simp
qed

text \<open>C13: What joining does.  A client enters a channel only when it may join it, or makes it; then it is a
  member, as an operator exactly when the channel was empty, its invitation is used up, no other channel,
  member or client changes, and everybody else in the channel, and nobody else, is told.  A refused
  client changes nothing.\<close>

theorem join_effect:
  assumes "client_ascii c" and "join_one i c name key sv rb = Some (ok, sv', rb')"
  shows "if ok
    then \<exists>ch0 d. (if uget name (sv_channels sv) = None then channel_new (sv_default_chan_mode sv) = Some ch0
                  else uget name (sv_channels sv) = Some ch0 \<and> may_join i c ch0 key)
       \<and> only_channel name (ch0\<lparr>ch_members := iput i (member_modes_default\<lparr>mm_operator := (ch_members ch0 = [])\<rparr>) (ch_members ch0),
             ch_invites := ch_invites ch0 - {i}\<rparr>) sv sv'
       \<and> sv_sent sv' = sv_sent sv @ d \<and> fst ` set d = {m. m \<noteq> i \<and> ihas m (ch_members ch0)}
    else sv' = sv"
proof -
  have "set (others i (add_member i ch0)) = {m. m \<noteq> i \<and> ihas m (ch_members ch0)}" for ch0
    by (auto simp: others_def add_member_def Let_def simp flip: ihas_iff)
  moreover have "add_member i ch0 = ch0\<lparr>ch_members := iput i (member_modes_default\<lparr>mm_operator := (ch_members ch0 = [])\<rparr>) (ch_members ch0),
             ch_invites := ch_invites ch0 - {i}\<rparr>" for ch0
    by (simp add: add_member_def member_modes_default_def)
  moreover have "check_join i c ch0 name key rb = Some (True, rb0) \<Longrightarrow> may_join i c ch0 key" for ch0 rb0
    using check_join_may_join [OF assms(1), of i ch0 name key rb] by auto
  ultimately show ?thesis using join_one_enters [OF assms(2)] by (auto split: if_splits)
qed

theorem join_effect_witness:
  "\<exists>sv' rb'. join_one 1 bob ''#new'' None chat_sample (rb_new [] [] []) = Some (True, sv', rb')
     \<and> (\<exists>ch. uget ''#new'' (sv_channels sv') = Some ch \<and> iget 1 (ch_members ch) = Some (member_modes_default\<lparr>mm_operator := True\<rparr>))
     \<and> uget ''#rust'' (sv_channels sv') = Some channel_sample"
proof -
  have keys: "ukey ''#new'' \<noteq> ukey ''#rust''" by code_simp
  have "wp False (join_one 1 bob ''#new'' None chat_sample (rb_new [] [] []))
      (\<lambda>(ok, sv', rb'). still False chat_sample sv' \<and> rb_inv [] rb')"
  proof (rule wp_join_one)
    show "good False chat_sample" using chat_sample_inv
      by (auto simp: good_def server_ascii_def client_ascii_def is_ascii_def alice_def bob_def carol_def client_new_def
          split: if_splits)
    show "False \<or> client_ascii bob" by (simp add: client_ascii_def is_ascii_def bob_def)
    show "is_valid_channel_name ''#new''" by code_simp
  qed (simp_all add: is_ascii_def)
  then obtain ok sv' rb' where run: "join_one 1 bob ''#new'' None chat_sample (rb_new [] [] []) = Some (ok, sv', rb')"
    by (auto dest!: wp_total)
  then have ok: ok using keys by (auto simp: join_one_def bind_eq_Some_conv)
  have "client_ascii bob" by (simp add: client_ascii_def is_ascii_def bob_def)
  from join_effect [OF this run] ok keys obtain ch0 where
    "channel_new (sv_default_chan_mode chat_sample) = Some ch0"
    "only_channel ''#new'' (ch0\<lparr>ch_members := iput 1 (member_modes_default\<lparr>mm_operator := (ch_members ch0 = [])\<rparr>) (ch_members ch0),
             ch_invites := ch_invites ch0 - {1}\<rparr>) chat_sample sv'"
    by auto
  moreover from this(1) have "ch_members ch0 = []"
    using channel_new_empty [of "sv_default_chan_mode chat_sample"] by auto
  ultimately show ?thesis using run ok keys by (auto simp: only_channel_def)
qed

text \<open>C18: Only channel operators kick.  A \<open>KICK\<close> from anyone else changes nothing.  One from an operator of
  the channel removes exactly the members whose nicknames it lists, and changes nothing else.\<close>

theorem kick_needs_operator:
  assumes "cmd_kick i who from' reason sv rb = Some (res, sv', rb')"
  shows "(\<exists>ch m. uget from' (sv_channels sv) = Some ch \<and> iget i (ch_members ch) = Some m \<and> mm_operator m \<and> res = HOk
       \<and> only_channel from' (without (\<Union>nick \<in> set (nicknames who). named_by sv nick) ch) sv sv')
    \<or> ((\<forall>ch m. uget from' (sv_channels sv) = Some ch \<longrightarrow> iget i (ch_members ch) = Some m \<longrightarrow> \<not> mm_operator m)
       \<and> res = HErr \<and> sv' = sv)"
  using assms by (rule cmd_kick_effect)

theorem kick_needs_operator_witness:
  "cmd_kick 1 ''alice'' ''#rust'' None chat_sample (rb_new [] [] [])
     = Some (HErr, chat_sample, chan_o_privs_needed ''#rust'' (rb_new [] [] []))
   \<and> (\<exists>sv' rb'. cmd_kick 0 ''bob'' ''#rust'' None chat_sample (rb_new [] [] []) = Some (HOk, sv', rb')
        \<and> only_channel ''#rust'' (without {1} channel_sample) chat_sample sv')"
proof -
  have no: "cmd_kick 1 ''alice'' ''#rust'' None chat_sample (rb_new [] [] [])
     = Some (HErr, chat_sample, chan_o_privs_needed ''#rust'' (rb_new [] [] []))"
    by (simp add: cmd_kick_def find_member_def channel_sample_members member_modes_default_def)
  have names: "nicknames ''bob'' = [''bob'']" by code_simp
  have "\<exists>sv' rb'. cmd_kick 0 ''bob'' ''#rust'' None chat_sample (rb_new [] [] []) = Some (HOk, sv', rb')"
    using sample_names(4,5)
    by (simp add: cmd_kick_def find_member_def channel_sample_members names kick_one_def find_nick_def
        send_kick_def send_each_post others_def tkeys_def tdel_def thas_def Let_def)
  then obtain sv' rb' where run: "cmd_kick 0 ''bob'' ''#rust'' None chat_sample (rb_new [] [] []) = Some (HOk, sv', rb')"
    by blast
  have "named_by chat_sample ''bob'' = {1}" using sample_names(5) by (auto simp: named_by_def)
  with kick_needs_operator [OF run] have "only_channel ''#rust'' (without {1} channel_sample) chat_sample sv'"
    by (auto simp: names)
  with no run show ?thesis by blast
qed

text \<open>C19: Modes need rank.  Unless it is an operator of the server, a client that is no member of a channel,
  or a member below half-operator, changes nothing of the channel with \<open>MODE\<close>; a half-operator does not
  change who is operator or half-operator, nor the key nor the flags \<open>i\<close>, \<open>n\<close>, \<open>s\<close>.  No \<open>MODE\<close> by
  anyone changes the members, the invitations, the topic, or another channel.\<close>

theorem mode_needs_rank:
  assumes "server_inv sv" and "iget i (sv_clients sv) = Some c"
    and "cmd_mode_channel_set i name modes params sv rb = Some (res, sv', rb')"
    and "uget n (sv_channels sv) = Some ch"
  shows "\<exists>ch'. uget n (sv_channels sv') = Some ch' \<and> tkeys (ch_members ch') = tkeys (ch_members ch)
    \<and> ch_invites ch' = ch_invites ch \<and> ch_topic ch' = ch_topic ch \<and> (ukey n \<noteq> ukey name \<longrightarrow> ch' = ch)
    \<and> (\<not> cl_operator c \<longrightarrow> (case iget i (ch_members ch) of
         None \<Rightarrow> ch' = ch
       | Some m \<Rightarrow> (\<not> is_at_least_halfop m \<longrightarrow> ch' = ch) \<and> (\<not> is_at_least_op m \<longrightarrow> op_part ch' = op_part ch)))"
  using assms(1-3)
proof (cases rule: cmd_mode_channel_set_effect)
  case refused
  then show ?thesis using assms(4) by (auto split: option.splits)
next
  case (allowed ch0 m ch' am rb1 rb2 d)
  have only: "only_channel name ch' sv sv'"
    unfolding allowed(6) by (rule only_channel_upd [OF allowed(1), of "\<lambda>_. ch'"])
  show ?thesis
  proof (cases "ukey n = ukey name")
    case True
    then have ch: "ch = ch0" using tget_cong [of ukey n name "sv_channels sv"] assms(4) allowed(1) by simp
    have "uget n (sv_channels sv') = Some ch'" using only True by (simp add: only_channel_def)
    moreover have "(\<not> is_at_least_halfop m \<longrightarrow> ch' = ch0) \<and> (\<not> is_at_least_op m \<longrightarrow> op_part ch' = op_part ch0)"
      if "\<not> cl_operator c"
      using mode_change_loop_rank [OF _ allowed(5)] can_change_make allowed(3) that by blast
    ultimately show ?thesis using True ch allowed(2) mode_change_loop_keeps [OF allowed(5)] by simp
  next
    case False
    then have "uget n (sv_channels sv') = Some ch" using only assms(4) by (simp add: only_channel_def)
    then show ?thesis using False by (auto split: option.splits)
  qed
qed

theorem mode_needs_rank_witness:
  "\<exists>sv' rb'. cmd_mode_channel_set 1 ''#rust'' ''+m'' [] chat_sample (rb_new [] [] []) = Some (HErr, sv', rb')
     \<and> uget ''#rust'' (sv_channels sv') = Some channel_sample"
proof -
  have q: "channel_query ''+m'' [] = [Inr (Moderated True)]" by code_simp
  then obtain sv' rb' where run: "cmd_mode_channel_set 1 ''#rust'' ''+m'' [] chat_sample (rb_new [] [] []) = Some (HErr, sv', rb')"
    by (simp add: cmd_mode_channel_set_def find_member_def channel_sample_members can_change_def
        is_at_least_halfop_def member_modes_default_def)
  from mode_needs_rank [OF chat_sample_inv _ run, of bob "''#rust''" channel_sample] run show ?thesis
    by (simp add: channel_sample_members is_at_least_halfop_def member_modes_default_def)
qed

text \<open>C20: Secret channels stay secret.  To a client that is no operator, the answers to \<open>LIST\<close>, with and
  without channel names, to \<open>NAMES\<close> and to \<open>LUSERS\<close> are the same as those of a server that has no secret
  channels besides the ones the client is in.\<close>

theorem secret_channels_hidden:
  assumes "server_inv sv" and "iget i (sv_clients sv) = Some c" and "\<not> cl_operator c"
  shows "map_option (\<lambda>(res, _, rb). (res, rb)) (cmd_list_all i sv rb)
      = map_option (\<lambda>(res, _, rb). (res, rb)) (cmd_list_all i (visible i sv) rb)
    \<and> map_option (\<lambda>(res, _, rb). (res, rb)) (cmd_list i names sv rb)
      = map_option (\<lambda>(res, _, rb). (res, rb)) (cmd_list i names (visible i sv) rb)
    \<and> map_option (\<lambda>(res, _, rb). (res, rb)) (cmd_names i names sv rb)
      = map_option (\<lambda>(res, _, rb). (res, rb)) (cmd_names i names (visible i sv) rb)
    \<and> map_option (\<lambda>(res, _, rb). (res, rb)) (cmd_lusers i sv rb)
      = map_option (\<lambda>(res, _, rb). (res, rb)) (cmd_lusers i (visible i sv) rb)"
  using assms(2)
  by (simp add: cmd_list_all_def cmd_list_def cmd_names_def cmd_lusers_def Let_def list_all_visible [OF assms(3)]
      list_visible [OF assms(1,3)] names_loop_visible [OF assms(1)] send_lusers_visible
      option.map_comp bind_map_option comp_def split: Option.bind_split)

theorem secret_channels_hidden_witness:
  "map_option (\<lambda>(res, _, rb). (res, rb)) (cmd_list_all 2
      (chat_sample\<lparr>sv_channels := [(''#rust'', channel_sample\<lparr>ch_secret := True\<rparr>)]\<rparr>) (rb_new [] [] []))
   = map_option (\<lambda>(res, _, rb). (res, rb)) (cmd_list_all 2 (chat_sample\<lparr>sv_channels := []\<rparr>) (rb_new [] [] []))"
proof -
  let ?sv = "chat_sample\<lparr>sv_channels := [(''#rust'', channel_sample\<lparr>ch_secret := True\<rparr>)]\<rparr>"
  have "server_inv ?sv"
    using chat_sample_inv by (auto simp: server_inv_def channels_ok_def chan_ok_def tok_def)
  moreover have "visible 2 ?sv = chat_sample\<lparr>sv_channels := []\<rparr>"
    by (simp add: visible_def ihas_iff channel_sample_members tkeys_def)
  ultimately show ?thesis
    using secret_channels_hidden [of ?sv 2 carol "rb_new [] [] []"] by simp
qed

text \<open>C21: Errors change nothing.  When the handler of a request fails, the state is as it was and nothing
  has been sent - for every request but \<open>USER\<close>, which disconnects a client without the password, and
  \<open>PART\<close>, which leaves the channels it can.\<close>

theorem errors_change_nothing:
  assumes "run_request env i tgs req sv rb = Some (HErr, sv', rb')"
    and "\<not> is_user req" and "\<forall>names reason. req \<noteq> Req_Part names reason"
  shows "sv' = sv"
  using request_errors [OF assms(2,3), of sv env i tgs rb] assms(1) by (simp add: errors_keep_def)

theorem errors_change_nothing_witness:
  "\<exists>rb'. run_request env_sample 1 [] (Req_Kill ''alice'' ''out'') chat_sample (rb_new [] [] [])
     = Some (HErr, chat_sample, rb')"
proof -
  obtain sv' rb' where run: "run_request env_sample 1 [] (Req_Kill ''alice'' ''out'') chat_sample (rb_new [] [] [])
     = Some (HErr, sv', rb')"
    by (simp add: run_request_def cmd_kill_def)
  from errors_change_nothing [OF this] run show ?thesis by (simp add: is_user_def)
qed

end
