(* ===== verification/World.thy ===== *)
theory World
  imports Access
begin

text \<open>
  An abstract specification of the server - who has which nickname, who is in which channel with which
  rank, who is an operator and which credentials make one, and what each kind of message may do to this -
  and the proof that the server refines it: every message is one step of the specification, with the
  guard of the rule for its own kind.
\<close>

section \<open>The specification\<close>

type_synonym ranks = "(string \<times> nat \<times> member_modes) set"

record world =
  w_names :: "(string \<times> nat) set"
  w_ranks :: ranks
  w_opers :: "nat set"
  w_creds :: "(string \<times> string) set"

text \<open>The kinds of messages: channels and nicknames are given by their keys, which do not depend on the
  case of letters.\<close>

datatype action =
    Idle
  | Rename string
  | Enter "string set"
  | Depart "string set"
  | Eject string "string set"
  | Grade string
  | Login string string
  | Resign
  | Strike string
  | Register
  | Leave

definition action_of :: "request \<Rightarrow> action" where
  "action_of req =
     (case req of
        Req_Nick nick \<Rightarrow> Rename (ukey nick)
      | Req_Join names keys \<Rightarrow> Enter ((ukey \<circ> fst) ` set (join_list_iter names keys))
      | Req_Part names reason \<Rightarrow> Depart (ukey ` set (channel_names names))
      | Req_PartAll \<Rightarrow> Depart UNIV
      | Req_Kick who name reason \<Rightarrow> Eject (ukey name) (ukey ` set (nicknames who))
      | Req_ModeChannelSet name modes ps \<Rightarrow> Grade (ukey name)
      | Req_Oper name password \<Rightarrow> Login name password
      | Req_ModeUserSet name modes \<Rightarrow> Resign
      | Req_Kill who reason \<Rightarrow> Strike (ukey who)
      | Req_User username realname \<Rightarrow> Register
      | Req_Quit reason \<Rightarrow> Leave
      | _ \<Rightarrow> Idle)"

definition message_action :: "message \<Rightarrow> action" where
  "message_action msg = (case request_new msg of Some (Inr req) \<Rightarrow> action_of req | _ \<Rightarrow> Idle)"

definition present :: "ranks \<Rightarrow> string \<Rightarrow> nat set" where
  "present R k = {j. \<exists>m. (k, j, m) \<in> R}"

text \<open>Who enters an empty channel becomes its operator.\<close>

definition entered :: "nat \<Rightarrow> string set \<Rightarrow> ranks \<Rightarrow> ranks" where
  "entered i D R = R \<union> {(k, i, member_modes_default\<lparr>mm_operator := (present R k = {})\<rparr>) | k. k \<in> D}"

definition departed :: "nat \<Rightarrow> string set \<Rightarrow> ranks \<Rightarrow> ranks" where
  "departed i D R = {(k, j, m) \<in> R. \<not> (j = i \<and> k \<in> D)}"

definition ejected :: "string \<Rightarrow> nat set \<Rightarrow> ranks \<Rightarrow> ranks" where
  "ejected c J R = {(k, j, m) \<in> R. \<not> (k = c \<and> j \<in> J)}"

text \<open>The part of a rank \<open>x\<close> that a member of rank \<open>m\<close> cannot change: everything below a half-operator, all
  but the voice below an operator; founders and protected members are made by nobody.  The server's
  operators act as channel operators.\<close>

definition fixed :: "bool \<Rightarrow> member_modes \<Rightarrow> member_modes \<Rightarrow> member_modes" where
  "fixed oper m x =
     (if oper \<or> is_at_least_op m then x\<lparr>mm_operator := False, mm_halfop := False, mm_voice := False\<rparr>
      else if is_at_least_halfop m then x\<lparr>mm_voice := False\<rparr>
      else x)"

definition seen_through :: "(member_modes \<Rightarrow> member_modes) \<Rightarrow> string \<Rightarrow> ranks \<Rightarrow> ranks" where
  "seen_through f c R = (\<lambda>(k, j, x). (k, j, if k = c then f x else x)) ` R"

definition vanished :: "nat \<Rightarrow> world \<Rightarrow> world" where
  "vanished j w = w\<lparr>w_names := {e \<in> w_names w. snd e \<noteq> j}, w_ranks := {e \<in> w_ranks w. fst (snd e) \<noteq> j},
                    w_opers := w_opers w - {j}\<rparr>"

text \<open>What one message of client \<open>i\<close> does: nothing, or the change of its kind, for which
  \<^item> a new nickname is not another client's;
  \<^item> the channels that are entered are among those named, and the client is in none of them;
  \<^item> only the client itself leaves the channels it names;
  \<^item> kicking needs the rank of an operator in that very channel, and removes the clients named;
  \<^item> changing the modes needs membership, leaves the other channels and the membership alone, and the
    ranks but for the part that the client's own rank lets it change;
  \<^item> an operator is made by configured credentials and stops being one on its own;
  \<^item> striking a client out needs an operator, who names it;
  \<^item> everybody may leave, and a client that is in no channel is turned away on registration.\<close>

inductive world_step :: "nat \<Rightarrow> action \<Rightarrow> world \<Rightarrow> world \<Rightarrow> bool" for i where
  ws_nothing: "world_step i a w w"
| ws_rename: "\<forall>j. (k, j) \<in> w_names w \<longrightarrow> j = i \<Longrightarrow>
     world_step i (Rename k) w (w\<lparr>w_names := insert (k, i) {e \<in> w_names w. snd e \<noteq> i}\<rparr>)"
| ws_enter: "D \<subseteq> C \<Longrightarrow> \<forall>k \<in> D. i \<notin> present (w_ranks w) k \<Longrightarrow>
     world_step i (Enter C) w (w\<lparr>w_ranks := entered i D (w_ranks w)\<rparr>)"
| ws_depart: "world_step i (Depart C) w (w\<lparr>w_ranks := departed i C (w_ranks w)\<rparr>)"
| ws_eject: "(c, i, m) \<in> w_ranks w \<Longrightarrow> mm_operator m \<Longrightarrow>
     world_step i (Eject c K) w (w\<lparr>w_ranks := ejected c {j. \<exists>k \<in> K. (k, j) \<in> w_names w} (w_ranks w)\<rparr>)"
| ws_grade: "(c, i, m) \<in> w_ranks w \<Longrightarrow>
     seen_through (fixed (i \<in> w_opers w) m) c R = seen_through (fixed (i \<in> w_opers w) m) c (w_ranks w) \<Longrightarrow>
     world_step i (Grade c) w (w\<lparr>w_ranks := R\<rparr>)"
| ws_login: "(name, password) \<in> w_creds w \<Longrightarrow>
     world_step i (Login name password) w (w\<lparr>w_opers := insert i (w_opers w)\<rparr>)"
| ws_resign: "world_step i Resign w (w\<lparr>w_opers := w_opers w - {i}\<rparr>)"
| ws_strike: "i \<in> w_opers w \<Longrightarrow> (k, j) \<in> w_names w \<Longrightarrow> world_step i (Strike k) w (vanished j w)"
| ws_register: "\<forall>k. i \<notin> present (w_ranks w) k \<Longrightarrow> world_step i Register w (vanished i w)"
| ws_leave: "world_step i Leave w (vanished i w)"

inductive_cases world_step_eject: "world_step i (Eject c K) w w'"
inductive_cases world_step_strike: "world_step i (Strike k) w w'"
inductive_cases world_step_idle: "world_step i Idle w w'"

text \<open>What the rules exclude: a step that takes somebody else out of a channel is a kick by an operator of
  that channel or a strike by an operator of the server.\<close>

lemma world_step_removal:
  assumes "world_step i a w w'" and "(c, j, m) \<in> w_ranks w" and "j \<notin> present (w_ranks w') c" and "j \<noteq> i"
  shows "(\<exists>K x. a = Eject c K \<and> (c, i, x) \<in> w_ranks w \<and> mm_operator x \<and> (\<exists>k \<in> K. (k, j) \<in> w_names w))
    \<or> (\<exists>k. a = Strike k \<and> i \<in> w_opers w \<and> (k, j) \<in> w_names w)"
  using assms(1)
proof cases
  case (ws_grade c' x R)
  let ?f = "fixed (i \<in> w_opers w) x"
  have "(c, j, if c = c' then ?f m else m) \<in> seen_through ?f c' (w_ranks w)"
    using assms(2) unfolding seen_through_def by (auto intro!: image_eqI [of _ _ "(c, j, m)"])
  then obtain y where "(c, j, y) \<in> R"
    unfolding ws_grade(4) [symmetric] unfolding seen_through_def by (auto split: if_splits)
  then show ?thesis using assms(3) ws_grade(2) by (auto simp: present_def)
qed (use assms(2-4) in \<open>auto simp: present_def entered_def departed_def ejected_def vanished_def\<close>)

section \<open>The abstraction\<close>

definition names_of :: "server \<Rightarrow> (string \<times> nat) set" where
  "names_of sv = {(k, j). \<exists>n. k = ukey n \<and> uget n (sv_nicks sv) = Some j}"

definition ranks_of :: "server \<Rightarrow> ranks" where
  "ranks_of sv = {(k, j, m). \<exists>n ch. k = ukey n \<and> uget n (sv_channels sv) = Some ch \<and> iget j (ch_members ch) = Some m}"

definition opers_of :: "server \<Rightarrow> nat set" where
  "opers_of sv = {j. \<exists>c. iget j (sv_clients sv) = Some c \<and> cl_operator c}"

definition creds_of :: "server \<Rightarrow> (string \<times> string) set" where
  "creds_of sv = (\<lambda>o'. (op_name o', op_password o')) ` set (sv_opers sv)"

definition world_of :: "server \<Rightarrow> world" where
  "world_of sv = \<lparr>w_names = names_of sv, w_ranks = ranks_of sv, w_opers = opers_of sv, w_creds = creds_of sv\<rparr>"

lemma world_of_fields [simp]:
  "w_names (world_of sv) = names_of sv" "w_ranks (world_of sv) = ranks_of sv"
  "w_opers (world_of sv) = opers_of sv" "w_creds (world_of sv) = creds_of sv"
  by (simp_all add: world_of_def)

lemma names_iff: "(ukey n, j) \<in> names_of sv \<longleftrightarrow> uget n (sv_nicks sv) = Some j"
proof
  assume "(ukey n, j) \<in> names_of sv"
  then obtain n' where n': "ukey n = ukey n'" "uget n' (sv_nicks sv) = Some j" by (auto simp: names_of_def)
  then show "uget n (sv_nicks sv) = Some j" using tget_cong [of ukey n n' "sv_nicks sv"] by simp
next
  assume "uget n (sv_nicks sv) = Some j"
  then show "(ukey n, j) \<in> names_of sv" unfolding names_of_def by blast
qed

lemma ranks_iff:
  "(ukey n, j, m) \<in> ranks_of sv \<longleftrightarrow> (\<exists>ch. uget n (sv_channels sv) = Some ch \<and> iget j (ch_members ch) = Some m)"
proof
  assume "(ukey n, j, m) \<in> ranks_of sv"
  then obtain n' ch where n': "ukey n = ukey n'" "uget n' (sv_channels sv) = Some ch" "iget j (ch_members ch) = Some m"
    by (auto simp: ranks_of_def)
  then show "\<exists>ch. uget n (sv_channels sv) = Some ch \<and> iget j (ch_members ch) = Some m"
    using tget_cong [of ukey n n' "sv_channels sv"] by simp
next
  assume "\<exists>ch. uget n (sv_channels sv) = Some ch \<and> iget j (ch_members ch) = Some m"
  then show "(ukey n, j, m) \<in> ranks_of sv" unfolding ranks_of_def by blast
qed

lemma present_iff:
  "j \<in> present (ranks_of sv) (ukey n) \<longleftrightarrow> (\<exists>ch. uget n (sv_channels sv) = Some ch \<and> ihas j (ch_members ch))"
  by (auto simp: present_def ranks_iff thas_def)

text \<open>Two servers with the same lookups have the same names and ranks.\<close>

lemma names_eqI: "(\<And>n j. (uget n (sv_nicks s) = Some j) \<longleftrightarrow> (ukey n, j) \<in> N) \<Longrightarrow>
    N \<subseteq> range ukey \<times> UNIV \<Longrightarrow> names_of s = N"
  by (auto simp: names_of_def)

lemma ranks_eqI:
  "(\<And>n j m. (\<exists>ch. uget n (sv_channels s) = Some ch \<and> iget j (ch_members ch) = Some m) \<longleftrightarrow> (ukey n, j, m) \<in> R) \<Longrightarrow>
    R \<subseteq> range ukey \<times> UNIV \<Longrightarrow> ranks_of s = R"
  by (auto simp: ranks_of_def)

lemma keys_range: "names_of sv \<subseteq> range ukey \<times> UNIV" "ranks_of sv \<subseteq> range ukey \<times> UNIV"
  by (auto simp: names_of_def ranks_of_def)

lemma names_of_fields [simp]:
  "names_of (post sv d) = names_of sv" "names_of (set_state i st sv) = names_of sv"
  "names_of (sv\<lparr>sv_clients := cs\<rparr>) = names_of sv" "names_of (sv\<lparr>sv_channels := chans\<rparr>) = names_of sv"
  "names_of (sv\<lparr>sv_rehash_notified := n\<rparr>) = names_of sv" "names_of (touch env i sv) = names_of sv"
  by (simp_all add: names_of_def touch_def)

lemma ranks_of_fields [simp]:
  "ranks_of (post sv d) = ranks_of sv" "ranks_of (set_state i st sv) = ranks_of sv"
  "ranks_of (sv\<lparr>sv_clients := cs\<rparr>) = ranks_of sv" "ranks_of (sv\<lparr>sv_nicks := ns\<rparr>) = ranks_of sv"
  "ranks_of (sv\<lparr>sv_rehash_notified := n\<rparr>) = ranks_of sv" "ranks_of (touch env i sv) = ranks_of sv"
  by (simp_all add: ranks_of_def touch_def)

lemma creds_of_fields [simp]:
  "creds_of (post sv d) = creds_of sv" "creds_of (set_state i st sv) = creds_of sv"
  "creds_of (sv\<lparr>sv_clients := cs\<rparr>) = creds_of sv" "creds_of (sv\<lparr>sv_nicks := ns\<rparr>) = creds_of sv"
  "creds_of (sv\<lparr>sv_channels := chans\<rparr>) = creds_of sv"
  "creds_of (sv\<lparr>sv_rehash_notified := n\<rparr>) = creds_of sv" "creds_of (touch env i sv) = creds_of sv"
  by (simp_all add: creds_of_def set_state_def touch_def)

lemma opers_of_upd:
  assumes "\<And>c. iget i (sv_clients sv) = Some c \<Longrightarrow> cl_operator (f c) = cl_operator c"
  shows "opers_of (sv\<lparr>sv_clients := iupd i f (sv_clients sv)\<rparr>) = opers_of sv"
  using assms by (auto simp: opers_of_def table split: if_splits)

lemma opers_of_fields [simp]:
  "opers_of (post sv d) = opers_of sv" "opers_of (sv\<lparr>sv_channels := chans\<rparr>) = opers_of sv"
  "opers_of (sv\<lparr>sv_nicks := ns\<rparr>) = opers_of sv" "opers_of (sv\<lparr>sv_rehash_notified := n\<rparr>) = opers_of sv"
  "opers_of (set_state i st sv) = opers_of sv" "opers_of (touch env i sv) = opers_of sv"
  by (auto simp: opers_of_def set_state_get touch_def table update_idle_time_def split: if_splits)

lemma world_of_same [simp]:
  "world_of (post sv d) = world_of sv" "world_of (set_state i st sv) = world_of sv"
  "world_of (sv\<lparr>sv_rehash_notified := n\<rparr>) = world_of sv" "world_of (touch env i sv) = world_of sv"
  by (simp_all add: world_of_def)

lemma world_of_upd:
  "(\<And>c. iget i (sv_clients sv) = Some c \<Longrightarrow> cl_operator (f c) = cl_operator c) \<Longrightarrow>
   world_of (sv\<lparr>sv_clients := iupd i f (sv_clients sv)\<rparr>) = world_of sv"
  by (simp add: world_of_def opers_of_upd)

text \<open>A server that differs in its ranks only.\<close>

lemma world_of_ranks:
  "names_of s = names_of sv \<Longrightarrow> opers_of s = opers_of sv \<Longrightarrow> creds_of s = creds_of sv \<Longrightarrow>
   world_of s = (world_of sv)\<lparr>w_ranks := ranks_of s\<rparr>"
  by (simp add: world_of_def)

section \<open>Effects on the world\<close>

lemma ranks_only_channel:
  assumes "only_channel name ch' sv s"
  shows "ranks_of s = {e \<in> ranks_of sv. fst e \<noteq> ukey name} \<union> {(ukey name, j, m) | j m. iget j (ch_members ch') = Some m}"
  using keys_range(2) [of sv] assms
  by (intro ranks_eqI) (auto simp: ranks_iff only_channel_def)

lemma world_only_channel:
  assumes "only_channel name ch' sv s"
  shows "world_of s = (world_of sv)\<lparr>w_ranks := ranks_of s\<rparr>"
  using assms by (intro world_of_ranks) (simp_all add: only_channel_def names_of_def opers_of_def creds_of_def)

section \<open>Handlers that leave the world alone\<close>

definition world_kept :: "server \<Rightarrow> handled \<Rightarrow> bool" where
  "world_kept sv m \<longleftrightarrow> wp True m (\<lambda>(res, s, rb). world_of s = world_of sv)"

lemma world_kept_ranks:
  "world_kept sv m \<Longrightarrow> m = Some (res, s, rb') \<Longrightarrow> world_of s = world_of sv"
  by (simp add: world_kept_def)

lemma queries_world:
  "world_kept sv (cmd_who_channel i name flt sv rb)" "world_kept sv (cmd_who_mask i name flt sv rb)"
  "world_kept sv (cmd_who_user i name flt sv rb)" "world_kept sv (cmd_who_all i flt sv rb)"
  "world_kept sv (cmd_whois env name sv rb)" "world_kept sv (cmd_mode_channel_get i name sv rb)"
  "world_kept sv (cmd_mode_user_get i name sv rb)" "world_kept sv (cmd_topic_get i name sv rb)"
  "world_kept sv (cmd_list i name sv rb)" "world_kept sv (cmd_list_all i sv rb)"
  "world_kept sv (cmd_names i name sv rb)" "world_kept sv (cmd_cap_list i sv rb)"
  unfolding world_kept_def cmd_who_channel_def cmd_who_mask_def cmd_who_user_def cmd_who_all_def cmd_whois_def
    cmd_mode_channel_get_def cmd_mode_user_get_def cmd_topic_get_def cmd_list_def cmd_list_all_def cmd_names_def
    cmd_cap_list_def
  by (auto simp: Let_def intro!: wp_any split: option.splits sum.splits)

lemma quiet_world:
  "world_kept sv (cmd_admin sv rb)" "world_kept sv (cmd_info sv rb)" "world_kept sv (cmd_lusers i sv rb)"
  "world_kept sv (cmd_motd sv rb)" "world_kept sv (cmd_time env sv rb)" "world_kept sv (cmd_version sv rb)"
  "world_kept sv (cmd_names_all sv rb)" "world_kept sv (cmd_cap_end sv rb)" "world_kept sv (cmd_ping payload sv rb)"
  "world_kept sv (cmd_pong sv rb)" "world_kept sv (cmd_authenticate auth sv rb)"
  "world_kept sv (cmd_message_all feedback cmd content sv rb)"
  unfolding world_kept_def cmd_admin_def cmd_info_def cmd_lusers_def cmd_motd_def cmd_time_def cmd_version_def
    cmd_names_all_def cmd_cap_end_def cmd_ping_def cmd_pong_def cmd_authenticate_def cmd_message_all_def
  by (auto simp: Let_def intro!: wp_any split: option.splits sum.splits)

lemma operator_of_setters [simp]:
  "cl_operator (set_real r c) = cl_operator c" "cl_operator (set_user u c) = cl_operator c"
  "cl_operator (set_nick n c) = cl_operator c"
  by (simp_all add: set_real_def set_user_def set_nick_def update_full_name_def)

lemma users_world:
  "world_kept sv (cmd_pass i name sv rb)" "world_kept sv (cmd_cap_ls i v sv rb)"
  "world_kept sv (cmd_cap_req i d sv rb)" "world_kept sv (cmd_away i reason sv rb)"
  "world_kept sv (cmd_setname i name sv rb)" "world_kept sv (cmd_rehash i sv rb)"
  "world_kept sv (cmd_message_channel env i tgs cmd to content sv rb)"
  "world_kept sv (cmd_message_user env i tgs cmd to content sv rb)"
  unfolding world_kept_def cmd_pass_def cmd_cap_ls_def cmd_cap_req_def cmd_away_def cmd_setname_def
    cmd_rehash_def cmd_message_channel_def cmd_message_user_def
  by (auto simp: Let_def send_posts world_of_upd intro!: wp_any split: option.splits sum.splits prod.splits)

text \<open>Updates of a channel that keep its members.\<close>

lemma world_of_upd_channel:
  assumes "\<And>ch. uget name (sv_channels sv) = Some ch \<Longrightarrow> ch_members (g ch) = ch_members ch"
  shows "world_of (sv\<lparr>sv_channels := uupd name g (sv_channels sv)\<rparr>) = world_of sv"
proof -
  have "ranks_of (sv\<lparr>sv_channels := uupd name g (sv_channels sv)\<rparr>) = ranks_of sv"
  proof (rule ranks_eqI)
    fix n j m
    show "(\<exists>ch. uget n (sv_channels (sv\<lparr>sv_channels := uupd name g (sv_channels sv)\<rparr>)) = Some ch
        \<and> iget j (ch_members ch) = Some m) = ((ukey n, j, m) \<in> ranks_of sv)"
    proof (cases "ukey n = ukey name")
      case True
      then have "uget n (sv_channels sv) = uget name (sv_channels sv)" by (rule tget_cong)
      then show ?thesis using True assms by (auto simp: ranks_iff)
    qed (simp add: ranks_iff)
  qed (rule keys_range)
  then show ?thesis by (simp add: world_of_def)
qed

lemma channels_world:
  assumes "iget i (sv_clients sv) = Some c"
  shows "world_kept sv (cmd_invite i who to sv rb)" "world_kept sv (cmd_topic_set env i name topic' sv rb)"
proof -
  have "world_of (sv\<lparr>sv_channels := uupd to (\<lambda>_. ch\<lparr>ch_invites := x\<rparr>) (sv_channels sv)\<rparr>) = world_of sv"
    if "uget to (sv_channels sv) = Some ch" for ch x
    by (rule world_of_upd_channel) (use that in simp)
  then show "world_kept sv (cmd_invite i who to sv rb)"
    unfolding world_kept_def cmd_invite_def
    by (auto simp: Let_def send_each_post assms intro!: wp_any split: option.splits sum.splits)
  have "world_of (sv\<lparr>sv_channels := uupd name (\<lambda>ch. ch\<lparr>ch_topic := t\<rparr>) (sv_channels sv)\<rparr>) = world_of sv" for t
    by (rule world_of_upd_channel) simp
  then show "world_kept sv (cmd_topic_set env i name topic' sv rb)"
    unfolding world_kept_def cmd_topic_set_def
    by (auto simp: Let_def send_each_post intro!: wp_any split: option.splits sum.splits)
qed

section \<open>Modes\<close>

lemma change_member_fixed:
  assumes "change_member nick_of p f ch = Some (r, ch')" and "\<And>m. g (snd (f m)) = g m"
  shows "map (map_prod id g) (ch_members ch') = map (map_prod id g) (ch_members ch)"
  using assms(1) by (cases rule: change_member_cases) (simp_all add: assms(2))

lemma fixed_bits:
  "fixed True m (x\<lparr>mm_operator := v\<rparr>) = fixed True m x" "fixed True m (x\<lparr>mm_halfop := v\<rparr>) = fixed True m x"
  "fixed True m (x\<lparr>mm_voice := v\<rparr>) = fixed True m x"
  by (simp_all add: fixed_def)

lemma change_fixed:
  assumes "channel_apply_mode_change change keylen nick_of ch = Some (r, ch')"
  shows "map (map_prod id (fixed True m)) (ch_members ch') = map (map_prod id (fixed True m)) (ch_members ch)"
proof (cases change)
  case (UserLimit l)
  then show ?thesis using assms by (cases l) (auto split: option.splits)
next
  case (ChangeOperator v p)
  then show ?thesis using assms by (simp add: change_member_fixed fixed_bits)
next
  case (ChangeHalfop v p)
  then show ?thesis using assms by (simp add: change_member_fixed fixed_bits)
next
  case (ChangeVoice v p)
  then show ?thesis using assms by (simp add: change_member_fixed fixed_bits)
qed (use assms in \<open>auto simp: Let_def split: if_splits option.splits prod.splits\<close>)

lemma changes_fixed:
  assumes "mode_change_loop name keylen nick_of cs (ch, am, rb) = Some (ch', am', rb')"
  shows "map (map_prod id (fixed True m)) (ch_members ch') = map (map_prod id (fixed True m)) (ch_members ch)"
  using assms
proof (induction cs arbitrary: ch am rb)
  case (Cons c cs)
  then obtain ch1 am1 rb1 where one: "mode_change_one name keylen nick_of c (ch, am, rb) = Some (ch1, am1, rb1)"
    and rest: "mode_change_loop name keylen nick_of cs (ch1, am1, rb1) = Some (ch', am', rb')"
    by (auto split: option.splits)
  have "map (map_prod id (fixed True m)) (ch_members ch1) = map (map_prod id (fixed True m)) (ch_members ch)"
    using mode_change_one_channel [OF one] change_fixed by auto
  with Cons.IH [OF rest] show ?case by (rule trans)
qed simp

text \<open>What a member can change with its rank.\<close>

lemma rank_fixed:
  assumes "oper \<or> can_change m modes ps"
    and "mode_change_loop name keylen nick_of (channel_query modes ps) (ch, am, rb) = Some (ch', am', rb')"
  shows "map (map_prod id (fixed oper m)) (ch_members ch') = map (map_prod id (fixed oper m)) (ch_members ch)"
proof (cases "oper \<or> is_at_least_op m")
  case True
  then have "fixed oper m = fixed True m" by (intro ext) (simp add: fixed_def)
  then show ?thesis using changes_fixed [OF assms(2)] by simp
next
  case False
  have "\<forall>change. Inr change \<in> set (channel_query modes ps) \<longrightarrow> can_make m change"
    using False assms(1) can_change_make by blast
  note rank = mode_change_loop_rank [OF this assms(2)]
  show ?thesis
  proof (cases "is_at_least_halfop m")
    case half: True
    have "op_part ch' = op_part ch" using rank False by blast
    then have bits: "map (\<lambda>(i, m). (i, mm_founder m, mm_protected m, mm_operator m, mm_halfop m)) (ch_members ch')
        = map (\<lambda>(i, m). (i, mm_founder m, mm_protected m, mm_operator m, mm_halfop m)) (ch_members ch)"
      by (simp add: op_part_def)
    have "fixed oper m x = (case (mm_founder x, mm_protected x, mm_operator x, mm_halfop x) of (f, p, o', h) \<Rightarrow>
        \<lparr>mm_founder = f, mm_protected = p, mm_operator = o', mm_halfop = h, mm_voice = False\<rparr>)" for x
      using False half by (simp add: fixed_def)
    then have through: "map (map_prod id (fixed oper m)) ms
        = map (\<lambda>(i, f, p, o', h). (i, \<lparr>mm_founder = f, mm_protected = p, mm_operator = o', mm_halfop = h, mm_voice = False\<rparr>))
            (map (\<lambda>(i, m). (i, mm_founder m, mm_protected m, mm_operator m, mm_halfop m)) ms)" for ms
      by (induction ms) auto
    show ?thesis unfolding through [of "ch_members ch'"] through [of "ch_members ch"] bits ..
  next
    case False
    then show ?thesis using rank by simp
  qed
qed

lemma iget_map_prod: "iget j (map (map_prod id g) ms) = map_option g (iget j ms)"
  by (induction ms) auto

lemma cmd_mode_world:
  assumes "server_inv sv" and c: "iget i (sv_clients sv) = Some c"
    and "cmd_mode_channel_set i name modes ps sv rb = Some (res, s, rb')"
  shows "world_step i (Grade (ukey name)) (world_of sv) (world_of s)"
  using assms
proof (cases rule: cmd_mode_channel_set_effect)
  case refused
  then show ?thesis by (simp add: ws_nothing)
next
  case (allowed ch m ch' am rb1 rb2 d)
  let ?f = "fixed (cl_operator c) m"
  have oper: "(i \<in> opers_of sv) = cl_operator c" using c by (simp add: opers_of_def)
  have only: "only_channel name ch' sv s"
    using only_channel_upd [OF allowed(1), of "\<lambda>_. ch'"] allowed(6) by simp
  have "map_option ?f (iget j (ch_members ch')) = map_option ?f (iget j (ch_members ch))" for j
    using rank_fixed [OF allowed(3,5)] by (metis iget_map_prod)
  then have part: "(\<exists>x. iget j (ch_members ch') = Some x \<and> y = ?f x) \<longleftrightarrow> (\<exists>x. iget j (ch_members ch) = Some x \<and> y = ?f x)" for j y
    by (metis (no_types) map_option_eq_Some)
  have mem: "(k, j, y) \<in> seen_through ?f (ukey name) R \<longleftrightarrow>
      (if k = ukey name then \<exists>x. (k, j, x) \<in> R \<and> y = ?f x else (k, j, y) \<in> R)" for k j y R
    unfolding seen_through_def by (auto simp: image_iff intro: rev_bexI)
  have "seen_through ?f (ukey name) (ranks_of s) = seen_through ?f (ukey name) (ranks_of sv)"
  proof (intro set_eqI)
    fix e show "e \<in> seen_through ?f (ukey name) (ranks_of s) \<longleftrightarrow> e \<in> seen_through ?f (ukey name) (ranks_of sv)"
      using part allowed(1) by (cases e) (auto simp: mem ranks_only_channel [OF only] ranks_iff)
  qed
  moreover have "(ukey name, i, m) \<in> ranks_of sv" using allowed(1,2) by (simp add: ranks_iff)
  ultimately show ?thesis
    using ws_grade [of "ukey name" i m "world_of sv" "ranks_of s"]
    unfolding world_only_channel [OF only] by (simp add: oper)
qed

section \<open>Joining, leaving, kicking\<close>

lemma entered_once:
  assumes "i \<notin> present R k" and "\<forall>c \<in> D. i \<notin> present (entered i {k} R) c"
  shows "entered i D (entered i {k} R) = entered i (insert k D) R" and "\<forall>c \<in> insert k D. i \<notin> present R c"
proof -
  have other: "present (entered i {k} R) c = present R c" if "c \<in> D" for c
    using that assms(2) by (auto simp: entered_def present_def)
  then show "entered i D (entered i {k} R) = entered i (insert k D) R"
    by (auto simp: entered_def)
  show "\<forall>c \<in> insert k D. i \<notin> present R c" using assms other by auto
qed

lemma members_empty: "ms = [] \<longleftrightarrow> (\<forall>j. iget j ms = None)"
  by (cases ms) auto

lemma join_one_world:
  assumes "join_one i c name key sv rb = Some (ok, s, rb')"
  shows "if ok then i \<notin> present (ranks_of sv) (ukey name)
      \<and> world_of s = (world_of sv)\<lparr>w_ranks := entered i {ukey name} (ranks_of sv)\<rparr>
    else s = sv"
proof (cases ok)
  case False
  then show ?thesis using join_one_enters [OF assms] by simp
next
  case True
  then obtain ch0 where ch0: "if uget name (sv_channels sv) = None then channel_new (sv_default_chan_mode sv) = Some ch0
      else uget name (sv_channels sv) = Some ch0 \<and> (\<exists>rb0. check_join i c ch0 name key rb = Some (True, rb0))"
    and only: "only_channel name (add_member i ch0) sv s"
    using join_one_enters [OF assms] by (auto split: if_splits)
  have now: "(ukey name, j, m) \<in> ranks_of sv \<longleftrightarrow> iget j (ch_members ch0) = Some m" for j m
  proof (cases "uget name (sv_channels sv)")
    case None
    then have "ch_members ch0 = []" using ch0 channel_new_empty [of "sv_default_chan_mode sv"] by auto
    then show ?thesis using None by (simp add: ranks_iff)
  qed (use ch0 in \<open>simp add: ranks_iff\<close>)
  have "\<not> ihas i (ch_members ch0)"
  proof (cases "uget name (sv_channels sv)")
    case None
    then have "ch_members ch0 = []" using ch0 channel_new_empty [of "sv_default_chan_mode sv"] by auto
    then show ?thesis by (simp add: thas_def)
  qed (use ch0 in \<open>auto simp: check_join_def\<close>)
  then have out: "i \<notin> present (ranks_of sv) (ukey name)" by (simp add: present_def now thas_def)
  have first: "ch_members ch0 = [] \<longleftrightarrow> present (ranks_of sv) (ukey name) = {}"
    unfolding members_empty by (auto simp: present_def now)
  have "iget j (ch_members (add_member i ch0)) = Some m \<longleftrightarrow>
      (ukey name, j, m) \<in> entered i {ukey name} (ranks_of sv)" for j m
    using \<open>\<not> ihas i (ch_members ch0)\<close>
    by (auto simp: add_member_def Let_def entered_def now first thas_def table member_modes_default_def)
  then have "ranks_of s = {e \<in> ranks_of sv. fst e \<noteq> ukey name}
      \<union> {(ukey name, j, m) | j m. (ukey name, j, m) \<in> entered i {ukey name} (ranks_of sv)}"
    unfolding ranks_only_channel [OF only] by simp
  also have "\<dots> = entered i {ukey name} (ranks_of sv)"
    by (auto simp: entered_def)
  finally have "ranks_of s = entered i {ukey name} (ranks_of sv)" .
  then show ?thesis using True out world_only_channel [OF only] by simp
qed

lemma join_loop_world:
  "join_loop i c cs upd sv rb = Some (u, s, rb') \<Longrightarrow>
   \<exists>D \<subseteq> (ukey \<circ> fst) ` set cs. (\<forall>k \<in> D. i \<notin> present (ranks_of sv) k)
     \<and> world_of s = (world_of sv)\<lparr>w_ranks := entered i D (ranks_of sv)\<rparr>"
proof (induction i c cs upd sv rb arbitrary: rule: join_loop.induct)
  case (1 i c upd sv rb)
  then show ?case by (intro exI [of _ "{}"]) (simp add: entered_def world_of_def)
next
  case (2 i c name key cs upd sv rb)
  then obtain ok s1 rb1 where one: "join_one i c name key sv rb = Some (ok, s1, rb1)"
    and rest: "join_loop i c cs (upd \<or> ok) s1 rb1 = Some (u, s, rb')"
    by (auto split: option.splits)
  obtain D where D: "D \<subseteq> (ukey \<circ> fst) ` set cs" "\<forall>k \<in> D. i \<notin> present (ranks_of s1) k"
    "world_of s = (world_of s1)\<lparr>w_ranks := entered i D (ranks_of s1)\<rparr>"
    using "2.IH" [OF one refl refl rest] by blast
  show ?case
  proof (cases ok)
    case True
    then have s1: "i \<notin> present (ranks_of sv) (ukey name)"
      "world_of s1 = (world_of sv)\<lparr>w_ranks := entered i {ukey name} (ranks_of sv)\<rparr>"
      using join_one_world [OF one] by simp_all
    then have R: "ranks_of s1 = entered i {ukey name} (ranks_of sv)"
      using world_of_fields(2) [of s1] by simp
    note all = entered_once [OF s1(1) D(2) [unfolded R]]
    have "world_of s = (world_of sv)\<lparr>w_ranks := entered i (insert (ukey name) D) (ranks_of sv)\<rparr>"
      using D(3) s1(2) R all(1) by simp
    then show ?thesis using D(1) all(2) by (intro exI [of _ "insert (ukey name) D"]) auto
  next
    case False
    then have "s1 = sv" using join_one_world [OF one] by simp
    then show ?thesis using D by (intro exI [of _ D]) auto
  qed
qed

lemma cmd_join_world:
  assumes "cmd_join env i names ks sv rb = Some (res, s, rb')"
  shows "world_step i (Enter ((ukey \<circ> fst) ` set (join_list_iter names ks))) (world_of sv) (world_of s)"
proof -
  obtain c u s1 rb1 where run: "join_loop i c (join_list_iter names ks) False sv rb = Some (u, s1, rb1)"
    "s = s1 \<or> s = touch env i s1"
    using assms by (auto simp: cmd_join_def bind_eq_Some_conv split: if_splits)
  obtain D where "D \<subseteq> (ukey \<circ> fst) ` set (join_list_iter names ks)" "\<forall>k \<in> D. i \<notin> present (ranks_of sv) k"
    "world_of s1 = (world_of sv)\<lparr>w_ranks := entered i D (ranks_of sv)\<rparr>"
    using join_loop_world [OF run(1)] by blast
  then show ?thesis
    using ws_enter [of D "(ukey \<circ> fst) ` set (join_list_iter names ks)" i "world_of sv"] run(2) by auto
qed

lemma idel_empty:
  assumes "idel i ms = []" and "ihas j ms"
  shows "j = i"
proof (rule ccontr)
  assume "j \<noteq> i"
  then have "iget j (idel i ms) = iget j ms" by simp
  then show False using assms by (simp add: thas_def)
qed

lemma part_one_world:
  assumes "part_one i issuer reason name sv rb = Some (res, s, rb')"
  shows "world_of s = (world_of sv)\<lparr>w_ranks := departed i {ukey name} (ranks_of sv)\<rparr>"
proof -
  have same: ?thesis if "s = sv" "\<forall>m. (ukey name, i, m) \<notin> ranks_of sv"
  proof -
    have "departed i {ukey name} (ranks_of sv) = ranks_of sv" using that(2) by (auto simp: departed_def)
    then show ?thesis using that(1) by (simp add: world_of_def)
  qed
  show ?thesis
  proof (cases "uget name (sv_channels sv)")
    case None
    then show ?thesis using assms by (intro same) (simp_all add: part_one_def Let_def ranks_iff)
  next
    case (Some ch)
    let ?ms = "idel i (ch_members ch)"
    have mine: "(ukey name, j, m) \<in> ranks_of sv \<longleftrightarrow> iget j (ch_members ch) = Some m" for j m
      using Some by (simp add: ranks_iff)
    show ?thesis
    proof (cases "ihas i (ch_members ch)")
      case False
      then have "s = sv" using Some assms by (simp add: part_one_def Let_def)
      moreover have "\<forall>m. (ukey name, i, m) \<notin> ranks_of sv" using False by (simp add: mine thas_def)
      ultimately show ?thesis by (rule same)
    next
      case True
      show ?thesis
      proof (cases "?ms = []")
        case empty: True
        then have only: "iget j (ch_members ch) = Some m \<Longrightarrow> j = i" for j m
          using idel_empty [of i "ch_members ch" j] by (simp add: thas_def)
        have s: "s = sv\<lparr>sv_channels := udel name (sv_channels sv)\<rparr>"
          using Some True empty assms by (simp add: part_one_def Let_def)
        have "ranks_of s = {e \<in> ranks_of sv. fst e \<noteq> ukey name}"
        proof (rule ranks_eqI)
          show "{e \<in> ranks_of sv. fst e \<noteq> ukey name} \<subseteq> range ukey \<times> UNIV"
            using keys_range(2) [of sv] by (rule subset_trans [rotated]) simp
        qed (simp add: s ranks_iff)
        also have "\<dots> = departed i {ukey name} (ranks_of sv)"
        proof -
          have "fst e \<noteq> ukey name \<longleftrightarrow> \<not> (fst (snd e) = i \<and> fst e \<in> {ukey name})" if "e \<in> ranks_of sv" for e
            using that mine [of "fst (snd e)" "snd (snd e)"] only [of "fst (snd e)"] by (cases e) auto
          moreover have "departed i {ukey name} (ranks_of sv)
              = {e \<in> ranks_of sv. \<not> (fst (snd e) = i \<and> fst e \<in> {ukey name})}"
            by (auto simp: departed_def)
          ultimately show ?thesis by blast
        qed
        finally show ?thesis using s by (simp add: world_of_def)
      next
        case False
        then obtain d where "s = post (sv\<lparr>sv_channels := uupd name (\<lambda>ch. ch\<lparr>ch_members := ?ms\<rparr>) (sv_channels sv)\<rparr>) d"
          using Some True assms by (auto simp: part_one_def send_each_post Let_def split: if_splits)
        then have only: "only_channel name (ch\<lparr>ch_members := ?ms\<rparr>) sv s"
          using only_channel_upd [OF Some, of "\<lambda>ch. ch\<lparr>ch_members := ?ms\<rparr>"] by simp
        have "ranks_of s = departed i {ukey name} (ranks_of sv)"
          unfolding ranks_only_channel [OF only] using mine by (auto simp: departed_def table)
        then show ?thesis using world_only_channel [OF only] by simp
      qed
    qed
  qed
qed

lemma departed_departed: "departed i D (departed i C R) = departed i (C \<union> D) R"
  by (auto simp: departed_def)

lemma part_loop_world:
  "part_loop i issuer reason ns r sv rb = Some (res, s, rb') \<Longrightarrow>
   world_of s = (world_of sv)\<lparr>w_ranks := departed i (ukey ` set ns) (ranks_of sv)\<rparr>"
proof (induction i issuer reason ns r sv rb rule: part_loop.induct)
  case (1 i issuer reason r sv rb)
  then show ?case by (simp add: departed_def world_of_def)
next
  case (2 i issuer reason name ns r sv rb)
  then obtain r1 s1 rb1 where one: "part_one i issuer reason name sv rb = Some (r1, s1, rb1)"
    and rest: "part_loop i issuer reason ns (if r1 = HErr then HErr else r) s1 rb1 = Some (res, s, rb')"
    by (auto split: option.splits)
  have s1: "world_of s1 = (world_of sv)\<lparr>w_ranks := departed i {ukey name} (ranks_of sv)\<rparr>"
    by (rule part_one_world [OF one])
  then have "ranks_of s1 = departed i {ukey name} (ranks_of sv)" using world_of_fields(2) [of s1] by simp
  then show ?case using "2.IH" [OF one refl refl rest] s1 by (simp add: departed_departed)
qed

lemma cmd_part_world:
  assumes "cmd_part i from' reason sv rb = Some (res, s, rb')"
  shows "world_step i (Depart (ukey ` set (channel_names from'))) (world_of sv) (world_of s)"
proof -
  have "world_of s = (world_of sv)\<lparr>w_ranks := departed i (ukey ` set (channel_names from')) (ranks_of sv)\<rparr>"
    using assms part_loop_world by (auto simp: cmd_part_def bind_eq_Some_conv)
  then show ?thesis using ws_depart [of i "ukey ` set (channel_names from')" "world_of sv"] by simp
qed

text \<open>Leaving all channels, by \<open>JOIN 0\<close> or with the connection.\<close>

lemma uget_without_member:
  assumes "tok ukey chans"
  shows "(\<exists>ch. uget n (without_member i chans) = Some ch \<and> iget j (ch_members ch) = Some m)
    \<longleftrightarrow> j \<noteq> i \<and> (\<exists>ch. uget n chans = Some ch \<and> iget j (ch_members ch) = Some m)"
proof -
  let ?g = "\<lambda>ch. ch\<lparr>ch_members := idel i (ch_members ch)\<rparr>"
  have map: "uget n (map (\<lambda>e. (fst e, ?g (snd e))) cs) = map_option ?g (uget n cs)" for cs
    by (induction cs) auto
  have "iget j (ch_members ch) = Some m \<Longrightarrow> j \<noteq> i \<Longrightarrow> idel i (ch_members ch) \<noteq> []" for ch
    using idel_empty [of i "ch_members ch" j] by (auto simp: thas_def)
  then show ?thesis
    unfolding without_member_def map
      tget_filter_snd [OF assms, where P = "\<lambda>ch. ihas i (ch_members ch) \<longrightarrow> idel i (ch_members ch) \<noteq> []"]
    by (auto simp: table split: option.splits if_splits)
qed

lemma cmd_part_all_world:
  assumes inv: "server_inv sv" and rb: "rb_inv lb rb" and run: "cmd_part_all i sv rb = Some (res, s, rb')"
  shows "world_step i (Depart UNIV) (world_of sv) (world_of s)"
proof -
  have chans: "channels_ok (sv_clients sv) (sv_channels sv)" using inv by (simp add: server_inv_def)
  then have tok: "tok ukey (sv_channels sv)" by (simp add: channels_ok_def)
  obtain c where c: "iget i (sv_clients sv) = Some c" using run by (auto simp: cmd_part_all_def bind_eq_Some_conv)
  obtain l s1 rb1 where loop: "part_all_loop i c (sv_channels sv) sv rb = Some (l, s1, rb1)"
    "s = s1\<lparr>sv_channels := l\<rparr>"
    using run c by (auto simp: cmd_part_all_def bind_eq_Some_conv)
  have "wp True (part_all_loop i c (sv_channels sv) sv rb)
      (\<lambda>(l, sv', rb'). l = without_member i (sv_channels sv) \<and> (\<exists>d. sv' = post sv d) \<and> rb_inv lb rb')"
    using chans by (intro wp_part_all_loop rb) (simp add: channels_ok_def)
  then obtain d where d: "s = post (sv\<lparr>sv_channels := without_member i (sv_channels sv)\<rparr>) d"
    using loop by (auto simp: post_channels)
  have "ranks_of s = departed i UNIV (ranks_of sv)"
  proof (rule ranks_eqI)
    fix n j m
    show "(\<exists>ch. uget n (sv_channels s) = Some ch \<and> iget j (ch_members ch) = Some m) =
        ((ukey n, j, m) \<in> departed i UNIV (ranks_of sv))"
      unfolding d using uget_without_member [OF tok, of n i j m] by (auto simp: ranks_iff departed_def)
  qed (use keys_range(2) in \<open>auto simp: departed_def\<close>)
  then have "world_of s = (world_of sv)\<lparr>w_ranks := departed i UNIV (ranks_of sv)\<rparr>"
    using world_of_ranks [of s sv] by (simp add: d)
  then show ?thesis using ws_depart [of i UNIV "world_of sv"] by simp
qed

lemma cmd_kick_world:
  assumes inv: "server_inv sv" and run: "cmd_kick i who from' reason sv rb = Some (res, s, rb')"
  shows "world_step i (Eject (ukey from') (ukey ` set (nicknames who))) (world_of sv) (world_of s)"
  using cmd_kick_effect [OF run]
proof (elim disjE exE conjE)
  fix ch m
  let ?K = "\<Union>nick \<in> set (nicknames who). named_by sv nick"
  let ?J = "{j. \<exists>k \<in> ukey ` set (nicknames who). (k, j) \<in> names_of sv}"
  assume ch: "uget from' (sv_channels sv) = Some ch" "iget i (ch_members ch) = Some m" and oper: "mm_operator m"
    and only: "only_channel from' (without ?K ch) sv s"
  have reg: "\<exists>d. iget j (sv_clients sv) = Some d \<and> client_is_registered d" if "ihas j (ch_members ch)" for j
    using inv_channel [OF inv ch(1)] that by (auto simp: chan_ok_def registered_id_def ihas_iff)
  have named: "j \<in> ?K \<longleftrightarrow> j \<in> ?J" if "ihas j (ch_members ch)" for j
    using reg [OF that] by (auto simp: named_by_def names_iff)
  have "iget j (filter (\<lambda>e. fst e \<notin> ?K) ms) = (if j \<in> ?K then None else iget j ms)" for j and ms :: "member_modes itable"
    by (induction ms) auto
  then have "iget j (ch_members (without ?K ch)) = Some x \<longleftrightarrow> (ukey from', j, x) \<in> ranks_of sv \<and> j \<notin> ?J" for j x
    using named [of j] ch(1) by (auto simp: without_def ranks_iff thas_def split: if_splits)
  then have "ranks_of s = ejected (ukey from') ?J (ranks_of sv)"
    unfolding ranks_only_channel [OF only] by (auto simp: ejected_def)
  moreover have "(ukey from', i, m) \<in> ranks_of sv" using ch by (simp add: ranks_iff)
  ultimately show ?thesis
    using ws_eject [of "ukey from'" i m "world_of sv" "ukey ` set (nicknames who)"] oper world_only_channel [OF only]
    by simp
qed (simp add: ws_nothing)

section \<open>Nicknames and departures\<close>

lemma change_nick_names:
  assumes inv: "server_inv sv" and c: "iget i (sv_clients sv) = Some c"
  shows "names_of (fst (change_nick i c nick sv rb)) = insert (ukey nick, i) {e \<in> names_of sv. snd e \<noteq> i \<and> fst e \<noteq> ukey nick}"
    and "ranks_of (fst (change_nick i c nick sv rb)) = ranks_of sv"
    and "creds_of (fst (change_nick i c nick sv rb)) = creds_of sv"
    and "opers_of (fst (change_nick i c nick sv rb)) = opers_of sv"
proof -
  let ?sv = "sv\<lparr>sv_nicks := uput nick i (udel (cl_nick c) (sv_nicks sv)),
                sv_clients := iupd i (set_nick nick) (sv_clients sv)\<rparr>"
  obtain d where d: "fst (change_nick i c nick sv rb) = post ?sv d"
  proof (cases "client_is_registered c")
    case True
    then show ?thesis using that by (simp add: change_nick_def Let_def send_posts)
  next
    case False
    then show ?thesis using that [of "[]"] by (simp add: change_nick_def Let_def)
  qed
  have own: "uget n (sv_nicks sv) = Some j \<Longrightarrow> j = i \<longleftrightarrow> ukey n = ukey (cl_nick c)" for n j
  proof
    assume *: "uget n (sv_nicks sv) = Some j" "j = i"
    then show "ukey n = ukey (cl_nick c)" using inv_nick_client [OF inv, of n] c by auto
  next
    assume *: "uget n (sv_nicks sv) = Some j" "ukey n = ukey (cl_nick c)"
    then obtain e where e: "iget j (sv_clients sv) = Some e" "ukey (cl_nick e) = ukey n"
      using inv_nick_client [OF inv] by blast
    have "cl_nick e \<noteq> ''*''"
    proof
      assume star: "cl_nick e = ''*''"
      then have "ukey n = ukey ''*''" using e(2) by simp
      then have "uget ''*'' (sv_nicks sv) = Some j" using *(1) tget_cong [of ukey n "''*''" "sv_nicks sv"] by simp
      then show False using inv_no_star [OF inv] by simp
    qed
    then show "j = i" using same_nick_same_client [OF inv c e(1)] * e(2) by simp
  qed
  show "names_of (fst (change_nick i c nick sv rb)) = insert (ukey nick, i) {e \<in> names_of sv. snd e \<noteq> i \<and> fst e \<noteq> ukey nick}"
    unfolding d
  proof (rule names_eqI)
    fix n j
    show "(uget n (sv_nicks (post ?sv d)) = Some j) =
        ((ukey n, j) \<in> insert (ukey nick, i) {e \<in> names_of sv. snd e \<noteq> i \<and> fst e \<noteq> ukey nick})"
      using own [of n j] by (auto simp: names_iff)
    show "insert (ukey nick, i) {e \<in> names_of sv. snd e \<noteq> i \<and> fst e \<noteq> ukey nick} \<subseteq> range ukey \<times> UNIV"
      using keys_range(1) [of sv] by auto
  qed
  show "ranks_of (fst (change_nick i c nick sv rb)) = ranks_of sv" "creds_of (fst (change_nick i c nick sv rb)) = creds_of sv"
    by (simp_all add: d)
  show "opers_of (fst (change_nick i c nick sv rb)) = opers_of sv"
    unfolding d by (auto simp: opers_of_def table set_nick_def update_full_name_def split: if_splits)
qed

lemma change_nick_world:
  assumes inv: "server_inv sv" and c: "iget i (sv_clients sv) = Some c"
    and free: "\<forall>j. uget nick (sv_nicks sv) = Some j \<longrightarrow> j = i"
  shows "world_step i (Rename (ukey nick)) (world_of sv) (world_of (fst (change_nick i c nick sv rb)))"
proof -
  have key: "\<forall>j. (ukey nick, j) \<in> w_names (world_of sv) \<longrightarrow> j = i" using free by (simp add: names_iff)
  have "{e \<in> names_of sv. snd e \<noteq> i \<and> fst e \<noteq> ukey nick} = {e \<in> names_of sv. snd e \<noteq> i}"
    using free by (auto simp: names_iff)
  then have "world_of (fst (change_nick i c nick sv rb))
      = (world_of sv)\<lparr>w_names := insert (ukey nick, i) {e \<in> w_names (world_of sv). snd e \<noteq> i}\<rparr>"
    by (simp add: world_of_def change_nick_names [OF inv c])
  then show ?thesis using ws_rename [OF key] by simp
qed

lemma cmd_nick_world:
  assumes inv: "server_inv sv" and run: "cmd_nick i nick sv rb = Some (res, s, rb')"
  shows "world_step i (Rename (ukey nick)) (world_of sv) (world_of s)"
proof -
  obtain c where c: "iget i (sv_clients sv) = Some c" using run by (auto simp: cmd_nick_def bind_eq_Some_conv)
  have "s = sv \<or> ((\<forall>j. uget nick (sv_nicks sv) = Some j \<longrightarrow> j = i) \<and> s = fst (change_nick i c nick sv rb))"
    using run c by (auto simp: cmd_nick_def Let_def split: option.splits prod.splits if_splits)
  then show ?thesis using change_nick_world [OF inv c] by (auto simp: ws_nothing)
qed

lemma remove_client_world:
  assumes inv: "server_inv sv" and "ihas j (sv_clients sv)"
  shows "world_of (remove_client j a e sv) = vanished j (world_of sv)"
proof (cases "iget j (sv_clients sv)")
  case None
  then show ?thesis using assms(2) by (simp add: thas_def)
next
  case (Some c)
  let ?s = "remove_client j a e sv"
  have good: "good True sv" using inv by (simp add: good_def)
  have inv': "server_inv ?s" by (rule good_inv [OF remove_client_good(1) [OF good]])
  have gone: "\<not> ihas j (sv_clients ?s)" by (rule remove_client_good(3) [OF good])
  note none = gone_everywhere [OF inv' gone]
  let ?chans = "if client_is_registered c then retain_without j (sv_channels sv) else sv_channels sv"
  obtain d where d: "?s = post (sv\<lparr>sv_clients := idel j (sv_clients sv),
      sv_nicks := udel (cl_nick c) (sv_nicks sv), sv_channels := ?chans\<rparr>) d"
    using remove_client_shape [OF Some] by blast
  have kept: "ukey n \<noteq> ukey (cl_nick c)" if "uget n (sv_nicks sv) = Some k" "k \<noteq> j" for n k
  proof
    assume n: "ukey n = ukey (cl_nick c)"
    then have c_nick: "uget (cl_nick c) (sv_nicks sv) = Some k"
      using that(1) tget_cong [of ukey n "cl_nick c" "sv_nicks sv"] by simp
    then have "cl_nick c \<noteq> ''*''" using inv_no_star [OF inv] by auto
    then show False using inv_client_nick [OF inv Some] c_nick that(2) by simp
  qed
  have "names_of ?s = {e \<in> names_of sv. snd e \<noteq> j}"
  proof (rule names_eqI)
    fix n k
    have "uget n (sv_nicks ?s) \<noteq> Some j" using none(1) by blast
    moreover have "sv_nicks ?s = udel (cl_nick c) (sv_nicks sv)" by (simp add: d)
    ultimately show "(uget n (sv_nicks ?s) = Some k) = ((ukey n, k) \<in> {e \<in> names_of sv. snd e \<noteq> j})"
      using kept [of n k] by (auto simp: names_iff)
  qed (use keys_range(1) [of sv] in auto)
  moreover have "ranks_of ?s = {e \<in> ranks_of sv. fst (snd e) \<noteq> j}"
  proof (rule ranks_eqI)
    fix n k m
    have tok: "tok ukey (sv_channels sv)" using inv by (simp add: server_inv_def channels_ok_def)
    have chans: "sv_channels ?s = ?chans" by (simp add: d)
    show "(\<exists>ch. uget n (sv_channels ?s) = Some ch \<and> iget k (ch_members ch) = Some m)
        = ((ukey n, k, m) \<in> {e \<in> ranks_of sv. fst (snd e) \<noteq> j})"
    proof (cases "client_is_registered c")
      case True
      have "iget k (ch_members ch) = Some m \<Longrightarrow> k \<noteq> j \<Longrightarrow> idel j (ch_members ch) \<noteq> []" for ch
        using idel_empty [of j "ch_members ch" k] by (auto simp: thas_def)
      then show ?thesis using True unfolding chans
        by (auto simp: uget_retain_without [OF tok] ranks_iff table split: option.splits if_splits)
    next
      case False
      have "\<not> ihas j (ch_members ch)" if "uget n (sv_channels sv) = Some ch" for ch
      proof -
        have "chan_ok (sv_clients sv) ch" by (rule inv_channel [OF inv that])
        then show ?thesis using False Some by (auto simp: chan_ok_def registered_id_def ihas_iff)
      qed
      then show ?thesis using False unfolding chans by (auto simp: ranks_iff thas_def)
    qed
  qed (use keys_range(2) [of sv] in auto)
  moreover have "opers_of ?s = opers_of sv - {j}" by (auto simp: d opers_of_def table split: if_splits)
  moreover have "creds_of ?s = creds_of sv" by (simp add: d)
  ultimately show ?thesis by (simp add: world_of_def vanished_def)
qed

text \<open>Removing a client that is not there is no step at all.\<close>

lemma remove_absent: "\<not> ihas j (sv_clients sv) \<Longrightarrow> remove_client j a e sv = sv"
  by (simp add: remove_client_def thas_def)

lemma remove_client_leave:
  assumes "server_inv sv"
  shows "world_step i Leave (world_of sv) (world_of (remove_client i a e sv))"
proof (cases "ihas i (sv_clients sv)")
  case True
  then show ?thesis using remove_client_world [OF assms] ws_leave [of i "world_of sv"] by simp
qed (simp add: remove_absent ws_nothing)

section \<open>The server refines the specification\<close>

lemma oper_world:
  assumes "oper_effect i name password sv s"
  shows "world_step i (Login name password) (world_of sv) (world_of s)"
  using assms unfolding oper_effect_def
proof (elim disjE conjE)
  assume s: "s = sv\<lparr>sv_clients := iupd i (\<lambda>c. c\<lparr>cl_operator := True\<rparr>) (sv_clients sv)\<rparr>"
    and "\<exists>o' \<in> set (sv_opers sv). op_name o' = name \<and> op_password o' = password"
  then have cred: "(name, password) \<in> creds_of sv" by (auto simp: creds_of_def)
  have "opers_of s = (if ihas i (sv_clients sv) then insert i (opers_of sv) else opers_of sv)"
    by (auto simp: s opers_of_def thas_def table split: if_splits)
  then have "world_of s = (world_of sv)\<lparr>w_opers := insert i (w_opers (world_of sv))\<rparr> \<or> world_of s = world_of sv"
    by (simp add: world_of_def s)
  then show ?thesis using ws_login [of name password "world_of sv" i] cred by (auto simp: ws_nothing)
qed (simp add: ws_nothing)

lemma kill_world:
  assumes inv: "server_inv sv" and "kill_effect i who reason sv s"
  shows "world_step i (Strike (ukey who)) (world_of sv) (world_of s)"
  using assms(2) unfolding kill_effect_def
proof (elim disjE exE conjE)
  fix c j d
  assume "iget i (sv_clients sv) = Some c" "cl_operator c" and j: "uget who (sv_nicks sv) = Some j" "iget j (sv_clients sv) = Some d"
    and s: "s = remove_client j (''Killed: '' @ reason) ''Killed'' sv"
  then have "i \<in> opers_of sv" "(ukey who, j) \<in> names_of sv" by (auto simp: opers_of_def names_iff)
  moreover have "world_of s = vanished j (world_of sv)"
    unfolding s by (rule remove_client_world [OF inv]) (simp add: thas_def j)
  ultimately show ?thesis using ws_strike [of i "world_of sv" "ukey who" j] by simp
qed (simp add: ws_nothing)

text \<open>The user modes: a client may stop being an operator, and nothing else of the world changes.\<close>

lemma kept_opers:
  assumes "kept i sv s"
  shows "opers_of s = opers_of sv \<or> opers_of s = opers_of sv - {i}"
proof -
  have "j \<in> opers_of s \<longleftrightarrow> j \<in> opers_of sv" if "j \<noteq> i" for j
    using assms that by (simp add: opers_of_def kept_def)
  then have others: "opers_of s - {i} = opers_of sv - {i}" by blast
  have "i \<in> opers_of s \<longrightarrow> i \<in> opers_of sv" using assms by (auto simp: opers_of_def kept_def)
  with others show ?thesis by blast
qed

lemma cmd_mode_user_world:
  assumes "kept i sv s" and "cmd_mode_user_set i name modes sv rb = Some (res, s, rb')"
  shows "world_step i Resign (world_of sv) (world_of s)"
proof -
  have "wp True (cmd_mode_user_set i name modes sv rb) (\<lambda>(res, s, rb'). names_of s = names_of sv
      \<and> ranks_of s = ranks_of sv \<and> creds_of s = creds_of sv)"
    unfolding cmd_mode_user_set_def
    by (auto simp: Let_def intro!: wp_any split: option.splits sum.splits prod.splits)
  then have same: "names_of s = names_of sv" "ranks_of s = ranks_of sv" "creds_of s = creds_of sv"
    using assms(2) by simp_all
  from kept_opers [OF assms(1)] show ?thesis
  proof
    assume "opers_of s = opers_of sv"
    then have "world_of s = world_of sv" using same by (simp add: world_of_def)
    then show ?thesis by (simp add: ws_nothing)
  next
    assume "opers_of s = opers_of sv - {i}"
    then have "world_of s = (world_of sv)\<lparr>w_opers := w_opers (world_of sv) - {i}\<rparr>"
      using same by (simp add: world_of_def)
    then show ?thesis using ws_resign [of i "world_of sv"] by simp
  qed
qed

lemma cmd_user_world:
  assumes inv: "server_inv sv" and c: "iget i (sv_clients sv) = Some c" "\<not> client_is_registered c"
    and run: "cmd_user i username realname sv rb = Some (res, s, rb')"
  shows "world_step i Register (world_of sv) (world_of s)"
proof -
  have "s = remove_client i lines_BAD_PASSWORD [] sv \<or> world_of s = world_of sv"
    using run by (auto simp: cmd_user_def bind_eq_Some_conv world_of_upd split: if_splits)
  then show ?thesis
  proof
    assume s: "s = remove_client i lines_BAD_PASSWORD [] sv"
    have "\<not> ihas i (ch_members ch)" if "uget n (sv_channels sv) = Some ch" for n ch
      using inv_channel [OF inv that] c by (auto simp: chan_ok_def registered_id_def ihas_iff)
    then have "\<forall>k. i \<notin> present (ranks_of sv) k"
      by (auto simp: present_def ranks_of_def thas_def)
    then show ?thesis using ws_register [of i "world_of sv"] remove_client_world [OF inv, of i] c(1)
      unfolding s by (simp add: thas_def)
  qed (simp add: ws_nothing)
qed

lemma user_unregistered: "client_can_issue_request (Req_User u r) c \<Longrightarrow> \<not> client_is_registered c"
  by (cases "cl_state c") (auto simp: client_can_issue_request_def client_is_registered_def request_patterns)

lemma run_request_world:
  assumes inv: "server_inv sv" and c: "iget i (sv_clients sv) = Some c" and rb: "rb_inv lb rb"
    and can: "client_can_issue_request req c"
    and eff: "effect i req sv s" and run: "run_request env i tgs req sv rb = Some (res, s, rb')"
  shows "world_step i (action_of req) (world_of sv) (world_of s)"
proof -
  note run' = run [unfolded run_request_def]
  note quiets = quiet_world queries_world users_world channels_world [OF c]
  have quiet: ?thesis if "world_kept sv (run_request env i tgs req sv rb)"
    using world_kept_ranks [OF that run] by (simp add: ws_nothing)
  show ?thesis
  proof (cases req)
    case (Req_Kill who reason)
    then show ?thesis using eff kill_world [OF inv] by (simp add: effect_def action_of_def)
  next
    case (Req_Oper name password)
    then show ?thesis using eff oper_world by (simp add: effect_def action_of_def)
  next
    case (Req_Quit reason)
    then show ?thesis using run' remove_client_leave [OF inv, of i] by (auto simp: cmd_quit_def action_of_def)
  next
    case (Req_User username realname)
    then have "\<not> client_is_registered c" using can user_unregistered by simp
    then show ?thesis using run' cmd_user_world [OF inv c] Req_User by (simp add: action_of_def)
  next
    case (Req_Nick nick)
    then show ?thesis using run' cmd_nick_world [OF inv] by (simp add: action_of_def)
  next
    case (Req_Join names keys)
    then show ?thesis using run' cmd_join_world by (simp add: action_of_def)
  next
    case (Req_Part from' reason)
    then show ?thesis using run' cmd_part_world by (simp add: action_of_def)
  next
    case Req_PartAll
    then show ?thesis using run' cmd_part_all_world [OF inv rb] by (simp add: action_of_def)
  next
    case (Req_Kick who from' reason)
    then show ?thesis using run' cmd_kick_world [OF inv] by (simp add: action_of_def)
  next
    case (Req_ModeChannelSet name modes ps)
    then show ?thesis using run' cmd_mode_world [OF inv c] by (simp add: action_of_def)
  next
    case (Req_ModeUserSet name modes)
    then show ?thesis using run' eff cmd_mode_user_world by (simp add: effect_def action_of_def)
  qed (use quiet quiets in \<open>simp_all add: run_request_def\<close>)
qed

lemma message_world:
  assumes good: "good b sv" and parse: "message_parse line = Some msg" and "b \<or> ascii_str line"
    and run: "handle_message env i msg sv = Some (pts, sv')"
  shows "world_step i (message_action msg) (world_of sv) (world_of sv')"
proof -
  note step = run_request_world [OF good_inv [OF good], where rb = "client_reply c (message_label msg)" for c]
  have rb: "rb_inv (message_label msg) (client_reply c (message_label msg))" for c by (simp add: client_reply_def)
  from handle_message_outcome [OF good parse assms(3) run] have "outcome b env i msg sv sv'" ..
  then show ?thesis
  proof (cases rule: outcomeE)
    case (left c req res rb')
    then show ?thesis using step [OF left(1) rb] by (simp add: message_action_def)
  next
    case (served c req res s rb c' st d)
    then show ?thesis using step [OF served(1) rb served(3,5,4)] by (simp add: message_action_def)
  qed (simp_all add: ws_nothing)
qed

text \<open>The other steps of the server: a connection changes nothing, a client whose connection ends or whose
  registration takes too long leaves, and loading the configuration again only sets the credentials.\<close>

lemma connect_world:
  assumes "\<not> ihas fresh (sv_clients sv)"
  shows "world_of (peer_joined env fresh addr sv) = world_of sv"
proof -
  have "opers_of (peer_joined env fresh addr sv) = opers_of sv"
    using assms by (auto simp: opers_of_def peer_joined_def client_new_def thas_def Let_def split: if_splits)
  then show ?thesis by (simp add: world_of_def peer_joined_def names_of_def ranks_of_def creds_of_def Let_def)
qed

lemma rehash_world: "world_of (server_rehash cfg sv) = (world_of sv)\<lparr>w_creds := creds_of (server_rehash cfg sv)\<rparr>"
  by (simp add: world_of_def server_rehash_def names_of_def ranks_of_def opers_of_def Let_def)

definition world_move :: "world \<Rightarrow> world \<Rightarrow> bool" where
  "world_move w w' \<longleftrightarrow> (\<exists>i a. world_step i a w w') \<or> (\<exists>cr. w' = w\<lparr>w_creds := cr\<rparr>)"

lemma server_step_world:
  assumes good: "good b sv" and "server_step b sv sv'"
  shows "world_move (world_of sv) (world_of sv')"
proof -
  have leave: "world_move (world_of sv) (world_of (remove_client i a e sv))" for i a e
    using remove_client_leave [OF good_inv [OF good]] unfolding world_move_def by blast
  have still: "world_move w w" for w by (auto simp: world_move_def intro: ws_nothing)
  from assms(2) show ?thesis
  proof (elim server_stepE)
    fix fresh addr env
    assume "sv' = peer_joined env fresh addr sv" "\<not> ihas fresh (sv_clients sv)"
    then have "world_of sv' = world_of sv" using connect_world by simp
    then show ?thesis using still by simp
  next
    fix line msg env i pts
    assume "message_parse line = Some msg" "b \<or> ascii_str line" "handle_message env i msg sv = Some (pts, sv')"
    then have "world_step i (message_action msg) (world_of sv) (world_of sv')" by (rule message_world [OF good])
    then show ?thesis unfolding world_move_def by blast
  next
    fix i err
    assume "sv' = peer_quit i err sv"
    then show ?thesis by (simp add: peer_quit_def leave split: option.splits)
  next
    fix i
    assume "sv' = remove_if_unregistered i sv"
    then show ?thesis by (simp add: remove_if_unregistered_def leave still split: option.splits)
  next
    fix cfg
    assume "sv' = server_rehash cfg sv"
    then show ?thesis using rehash_world by (auto simp: world_move_def)
  qed
qed

interpretation spec: refines server_start "server_step b" "good b" world_of world_move for b
  by unfold_locales (rule r_into_rtranclp, rule server_step_world)

lemma world_start:
  "server_start sv \<Longrightarrow> \<exists>cr. world_of sv = \<lparr>w_names = {}, w_ranks = {}, w_opers = {}, w_creds = cr\<rparr>"
  by (auto simp: world_of_def names_of_def ranks_of_def opers_of_def server_new_def elim!: server_start.cases)

text \<open>C5: The server refines the specification of \<open>world_step\<close>.  Whatever message a client sends, what it
  does to the nicknames, to the members of the channels and their ranks, and to the operators is one
  step that the specification allows this client for a message of this kind: nothing, or a change under
  the guard of its rule.\<close>

theorem server_refines_world:
  assumes inv: "server_inv sv" and parse: "message_parse line = Some msg"
    and run: "handle_message env i msg sv = Some (pts, sv')"
  shows "world_step i (message_action msg) (world_of sv) (world_of sv')"
proof -
  have "good True sv" using inv by (simp add: good_def)
  then show ?thesis using message_world parse run by blast
qed

theorem server_refines_world_witness:
  "\<exists>pts sv'. handle_message env_sample 0 ping_sample chat_sample = Some (pts, sv')
     \<and> world_step 0 (message_action ping_sample) (world_of chat_sample) (world_of sv')"
proof -
  obtain pts sv' where h: "handle_message env_sample 0 ping_sample chat_sample = Some (pts, sv')"
    using chat_ping [of 0] by auto
  with server_refines_world [OF chat_sample_inv ping_sample_parse h] show ?thesis by blast
qed

text \<open>So nobody is put out of a channel by another client's message unless that client is an operator of
  the channel and kicks it, or an operator of the server and kills it.\<close>

lemma removal_needs_rank:
  assumes "server_inv sv" and "message_parse line = Some msg" and "handle_message env i msg sv = Some (pts, sv')"
    and "(c, j, m) \<in> ranks_of sv" and "j \<notin> present (ranks_of sv') c" and "j \<noteq> i"
  shows "(\<exists>x. (c, i, x) \<in> ranks_of sv \<and> mm_operator x) \<or> i \<in> opers_of sv"
proof -
  have "good True sv" using assms(1) by (simp add: good_def)
  then have "world_step i (message_action msg) (world_of sv) (world_of sv')" using message_world assms(2,3) by blast
  then show ?thesis using world_step_removal [of i "message_action msg" "world_of sv" "world_of sv'" c j m] assms(4-6)
    by auto
qed

text \<open>Every state that the server reaches, from its start and in any order of its steps, has a world that
  the specification reaches from nothing.\<close>

lemma reachable_world:
  assumes "reachable b sv"
  shows "\<exists>cr. rtranclp world_move \<lparr>w_names = {}, w_ranks = {}, w_opers = {}, w_creds = cr\<rparr> (world_of sv)"
proof -
  obtain s where s: "server_start s" "rtranclp (server_step b) s sv" using assms by (auto simp: reachable_def)
  then have "rtranclp world_move (world_of s) (world_of sv)" by (rule spec.reached_abs)
  then show ?thesis using world_start [OF s(1)] by auto
qed

lemma reachable_world_sample:
  "\<exists>cr. rtranclp world_move \<lparr>w_names = {}, w_ranks = {}, w_opers = {}, w_creds = cr\<rparr>
     (world_of (peer_joined env_sample 0 \<lparr>sa_ip = ''::1'', sa_port = 6667\<rparr> server_sample))"
proof (rule reachable_world)
  have "\<not> ihas 0 (sv_clients server_sample)"
    by (simp add: thas_def)
  then show "reachable True (peer_joined env_sample 0 \<lparr>sa_ip = ''::1'', sa_port = 6667\<rparr> server_sample)"
    using reachable_step [OF server_sample_reachable step_connect] by blast
qed

end
