(* ===== verification/Clock.thy ===== *)
theory Clock
  imports Net
begin

text \<open>
  The end of \<open>src/util.rs\<close>: the clock and the random identifiers of messages, from which the environment
  of a message is made.  The system clock is the number of nanoseconds since the Unix epoch, negative
  before it.  rand, base64 and chrono are parameters: \<open>seed\<close> and \<open>fill\<close> are \<open>seed_from_u64\<close> and
  \<open>fill_bytes\<close>, \<open>encode\<close> is the standard alphabet without padding, \<open>to_rfc3339\<close> and \<open>to_rfc2822\<close> print an
  instant.
\<close>

section \<open>The clock\<close>

text \<open>\<open>duration_since(UNIX_EPOCH)\<close> and \<open>as_secs\<close>: an error before the epoch.\<close>

definition unix_secs :: "int \<Rightarrow> 64 word option" where
  "unix_secs t = (if t < 0 then None else Some (word_of_int (t div 10 ^ 9)))"

definition time :: "int \<Rightarrow> 64 word" where
  "time t = (case unix_secs t of Some unix_time \<Rightarrow> unix_time | None \<Rightarrow> 0)"

definition time_precise :: "(int \<Rightarrow> string) \<Rightarrow> int \<Rightarrow> string" where
  "time_precise to_rfc3339 t = to_rfc3339 t"

definition time_str :: "(int \<Rightarrow> string) \<Rightarrow> int \<Rightarrow> string" where
  "time_str to_rfc2822 t = to_rfc2822 t"

section \<open>Random identifiers\<close>

text \<open>The generator of a thread; its first use panics before the epoch.\<close>

definition rng_new :: "(64 word \<Rightarrow> 'g) \<Rightarrow> int \<Rightarrow> 'g option" where
  "rng_new seed t = map_option seed (unix_secs t)"

text \<open>\<open>encode_config_slice\<close> writes to the start of a slice and panics when the slice is too short.\<close>

definition encode_slice :: "(string \<Rightarrow> string) \<Rightarrow> string \<Rightarrow> string \<Rightarrow> string option" where
  "encode_slice encode raw out =
     (let text = encode raw
      in if length text \<le> length out then Some (text @ drop (length text) out) else None)"

definition new_message_id ::
  "(string \<Rightarrow> string) \<Rightarrow> (nat \<Rightarrow> 'g \<Rightarrow> string \<times> 'g) \<Rightarrow> 'g \<Rightarrow> (string \<times> 'g) option" where
  "new_message_id encode fill rng =
     do {
       let (raw, rng) = fill 24 rng;
       encoded \<leftarrow> encode_slice encode raw (replicate (24 * 4 div 3) (CHR 0x00));
       (if from_utf8_ok encoded then Some (encoded, rng) else None)
     }"

text \<open>What the handlers of one message get from here.\<close>

definition env_at :: "(int \<Rightarrow> string) \<Rightarrow> (int \<Rightarrow> string) \<Rightarrow> int \<Rightarrow> string \<Rightarrow> env" where
  "env_at to_rfc3339 to_rfc2822 t message_id =
     \<lparr>env_now = time t, env_time_str = time_str to_rfc2822 t,
      env_time_precise = time_precise to_rfc3339 t, env_message_id = message_id\<rparr>"

section \<open>Facts\<close>

text \<open>For the next 584 billion years.\<close>

lemma div_int_pos_bound: "t < m * n \<Longrightarrow> 0 < n \<Longrightarrow> t div n < (m :: int)"
proof (rule ccontr)
  assume t: "t < m * n" "0 < n" "\<not> t div n < m"
  then have "m * n \<le> t div n * n" by (simp add: mult_right_mono)
  also have "\<dots> \<le> t" using div_mult_mod_eq [of t n] pos_mod_sign [of n t] t(2) by linarith
  finally show False using t(1) by simp
qed

lemma unat_time:
  assumes "t < 2 ^ 64 * 10 ^ 9"
  shows "unat (time t) = nat (t div 10 ^ 9)"
proof (cases "t < 0")
  case True
  then have "t div 10 ^ 9 < 0" by (simp add: neg_imp_zdiv_neg_iff)
  then show ?thesis using True by (simp add: time_def unix_secs_def)
next
  case False
  have "t div 10 ^ 9 < 2 ^ 64" by (rule div_int_pos_bound) (use assms in simp_all)
  then have "uint (word_of_int (t div 10 ^ 9) :: 64 word) = t div 10 ^ 9"
    using False by (intro word_of_int_inverse) (simp_all add: pos_imp_zdiv_nonneg_iff)
  then show ?thesis using False by (simp add: time_def unix_secs_def unat_eq_nat_uint)
qed

lemma time_mono: "t \<le> t' \<Longrightarrow> t' < 2 ^ 64 * 10 ^ 9 \<Longrightarrow> time t \<le> time t'"
  by (simp add: word_le_nat_alt unat_time zdiv_mono1 nat_mono)

text \<open>The idle time of a client is the time since its last action, in whole seconds, unless the clock was
  set back in between.\<close>

lemma idle_time_secs:
  "t \<le> t' \<Longrightarrow> t' < 2 ^ 64 * 10 ^ 9 \<Longrightarrow> cl_last_action_time c = time t \<Longrightarrow>
     \<exists>idle. idle_time (time t') c = Some idle \<and> unat idle = nat (t' div 10 ^ 9) - nat (t div 10 ^ 9)"
  using time_mono [of t t']
  by (auto simp: idle_time_def unat_sub unat_time not_less)

lemma idle_time_panics: "time t' < cl_last_action_time c \<Longrightarrow> idle_time (time t') c = None"
  by (simp add: idle_time_def)

lemma of_char_ascii: "is_ascii c \<Longrightarrow> of_char c < (0x80 :: nat)"
  by (cases c) (simp add: is_ascii_def of_char_def)

lemma utf8_ascii: "ascii_str s \<Longrightarrow> from_utf8_ok s"
  unfolding from_utf8_ok_def by (induction s) (auto dest: of_char_ascii)

text \<open>With a generator and an encoding as documented, identifiers are made without a panic, and are the
  32 characters of the encoding.\<close>

lemma new_message_id_ok:
  assumes "\<And>n rng. length (fst (fill n rng)) = n"
    and "\<And>raw. length raw = 24 \<Longrightarrow> length (encode raw) = 32 \<and> ascii_str (encode raw)"
  shows "new_message_id encode fill rng = Some (encode (fst (fill 24 rng)), snd (fill 24 rng))"
  using assms(1) [of 24 rng] assms(2) [of "fst (fill 24 rng)"]
  by (simp add: new_message_id_def encode_slice_def utf8_ascii split_def Let_def)

lemma message_ids_distinct:
  assumes "\<And>n rng. length (fst (fill n rng)) = n"
    and "\<And>raw. length raw = 24 \<Longrightarrow> length (encode raw) = 32 \<and> ascii_str (encode raw)"
    and "inj_on encode {raw. length raw = 24}"
    and "new_message_id encode fill rng1 = Some (id1, r1)" and "new_message_id encode fill rng2 = Some (id2, r2)"
  shows "id1 = id2 \<longleftrightarrow> fst (fill 24 rng1) = fst (fill 24 rng2)"
  using new_message_id_ok [of fill encode, OF assms(1,2)] assms(1,3-5)
  by (auto simp: inj_on_def)

end
