(* ===== verification/Times.thy ===== *)
theory Times
  imports World Clock
begin

text \<open>
  The times of the last actions: what a message does to them, and that none is later than the clock as
  long as the clock is not set back.
\<close>

section \<open>The last actions of the clients\<close>

text \<open>The client table \<open>m'\<close> has no client that \<open>m\<close> has not, and a last action is that of before or \<open>now\<close>.\<close>

definition aged :: "64 word \<Rightarrow> client itable \<Rightarrow> client itable \<Rightarrow> bool" where
  "aged now m m' \<longleftrightarrow>
     (\<forall>j c'. iget j m' = Some c' \<longrightarrow>
        (\<exists>c. iget j m = Some c \<and> cl_last_action_time c' \<in> {cl_last_action_time c, now}))"

lemma aged_refl [simp]: "aged now m m"
  by (simp add: aged_def)

lemma aged_trans: "aged now m m' \<Longrightarrow> aged now m' m'' \<Longrightarrow> aged now m m''"
  unfolding aged_def by (metis insert_iff singletonD)

lemma aged_iupd: "(\<And>c. cl_last_action_time (f c) \<in> {cl_last_action_time c, now}) \<Longrightarrow> aged now m (iupd i f m)"
  by (auto simp: aged_def table)

lemma aged_idel [simp]: "aged now m (idel i m)"
  by (auto simp: aged_def table split: if_splits)

lemma aged_keeping [simp]:
  "cl_last_action_time (set_nick n c) = cl_last_action_time c" "cl_last_action_time (set_user u c) = cl_last_action_time c"
  "cl_last_action_time (set_real r c) = cl_last_action_time c"
  by (simp_all add: set_nick_def set_user_def set_real_def update_full_name_def)

lemma aged_touch [simp]: "aged now m (sv_clients sv) \<Longrightarrow> env_now env = now \<Longrightarrow> aged now m (sv_clients (touch env i sv))"
  by (rule aged_trans) (auto simp: touch_def update_idle_time_def intro: aged_iupd)

lemma aged_remove [simp]: "aged now (sv_clients sv) (sv_clients (remove_client i a e sv))"
  by (auto simp: remove_client_def send_def Let_def send_posts split: option.splits)

text \<open>Handlers.\<close>

definition ages :: "64 word \<Rightarrow> server \<Rightarrow> handled \<Rightarrow> bool" where
  "ages now sv m \<longleftrightarrow> wp True m (\<lambda>(res, s, rb). aged now (sv_clients sv) (sv_clients s))"

lemma answers_ages: "wp b m (answers lb sv) \<Longrightarrow> ages now sv m"
  by (cases m) (auto simp: ages_def answers_def)

lemma same_clients_ages: "wp True m (\<lambda>(res, s, rb). sv_clients s = sv_clients sv) \<Longrightarrow> ages now sv m"
  by (cases m) (auto simp: ages_def)

lemma mode_user_loop_time:
  "mode_user_loop rs c applied rb = (c', applied', rb') \<Longrightarrow> cl_last_action_time c' = cl_last_action_time c"
proof (induction rs c applied rb arbitrary: c' applied' rb' rule: mode_user_loop.induct)
  case (2 change rs c applied rb)
  then show ?case by (cases change) (fastforce simp: Let_def)+
qed auto

lemma users_age:
  "ages now sv (cmd_pass i p sv rb)" "ages now sv (cmd_cap_ls i v sv rb)" "ages now sv (cmd_cap_req i d sv rb)"
  "ages now sv (cmd_user i username realname sv rb)" "ages now sv (cmd_nick i nick sv rb)"
  "ages now sv (cmd_away i reason sv rb)" "ages now sv (cmd_setname i realname sv rb)"
  "ages now sv (cmd_oper i name password sv rb)" "ages now sv (cmd_kill i who why sv rb)"
  "ages now sv (cmd_rehash i sv rb)" "ages now sv (cmd_quit i quit sv rb)"
  unfolding ages_def cmd_pass_def cmd_cap_ls_def cmd_cap_req_def cmd_user_def cmd_nick_def change_nick_def
    cmd_away_def cmd_setname_def cmd_oper_def cmd_kill_def cmd_rehash_def cmd_quit_def
  by (auto simp: Let_def send_posts intro!: wp_any aged_iupd split: option.splits sum.splits prod.splits)

lemma mode_user_ages: "ages now sv (cmd_mode_user_set i nick modes sv rb)"
proof (cases "iget i (sv_clients sv)")
  case (Some c)
  obtain c' applied rb' where loop: "mode_user_loop (user_query modes) c [] rb = (c', applied, rb')"
    by (cases "mode_user_loop (user_query modes) c [] rb")
  have "aged now (sv_clients sv) (iupd i (\<lambda>_. c') (sv_clients sv))"
    using Some mode_user_loop_time [OF loop] by (auto simp: aged_def table)
  then show ?thesis using Some loop by (simp add: ages_def cmd_mode_user_set_def)
qed (simp add: ages_def cmd_mode_user_set_def)

lemma join_one_clients: "join_one i c name key sv rb = Some (ok, s, rb') \<Longrightarrow> sv_clients s = sv_clients sv"
  using join_one_enters [of i c name key sv rb ok s rb'] by (auto simp: only_channel_def split: if_splits)

lemma join_loop_clients:
  "join_loop i c cs upd sv rb = Some (u, s, rb') \<Longrightarrow> sv_clients s = sv_clients sv"
proof (induction i c cs upd sv rb rule: join_loop.induct)
  case (2 i c name key cs upd sv rb)
  then show ?case by (auto dest: join_one_clients split: option.splits)
qed simp

lemma join_ages: "ages (env_now env) sv (cmd_join env i names keys sv rb)"
  unfolding ages_def cmd_join_def
  by (auto dest!: join_loop_clients intro!: wpI simp: bind_eq_Some_conv split: if_splits)

lemma messages_age:
  "ages (env_now env) sv (cmd_message_channel env i tgs cmd to content sv rb)"
  "ages (env_now env) sv (cmd_message_user env i tgs cmd to content sv rb)"
  unfolding ages_def cmd_message_channel_def cmd_message_user_def
  by (auto simp: Let_def send_posts intro!: wp_any split: option.splits sum.splits prod.splits)

lemma channels_age:
  assumes good: "good True sv" and i: "iget i (sv_clients sv) = Some c" and rb: "rb_inv lb rb"
  shows "ages now sv (cmd_invite i who to sv rb)" "ages now sv (cmd_topic_set env i name topic' sv rb)"
    "ages now sv (cmd_mode_channel_set i name modes ps sv rb)" "ages now sv (cmd_part i from' reason sv rb)"
    "ages now sv (cmd_part_all i sv rb)" "ages now sv (cmd_kick i victims from' why sv rb)"
proof -
  show "ages now sv (cmd_invite i who to sv rb)"
    unfolding ages_def cmd_invite_def
    by (auto simp: Let_def send_each_post i intro!: wp_any split: option.splits sum.splits)
  show "ages now sv (cmd_topic_set env i name topic' sv rb)"
    unfolding ages_def cmd_topic_set_def
    by (auto simp: Let_def send_each_post intro!: wp_any split: option.splits sum.splits)
  show "ages now sv (cmd_mode_channel_set i name modes ps sv rb)"
    unfolding ages_def
    unfolding ages_def
  proof (rule wpI, clarify)
    fix res s rb' assume "cmd_mode_channel_set i name modes ps sv rb = Some (res, s, rb')"
    then have "sv_clients s = sv_clients sv"
      by (cases rule: cmd_mode_channel_set_effect [OF good_inv [OF good] i]) auto
    then show "aged now (sv_clients sv) (sv_clients s)" by simp
  qed
  have "wp True (part_loop i c reason (channel_names from') HOk sv rb) (\<lambda>(r, s, rb'). still True sv s \<and> rb_inv lb rb')"
    by (rule wp_part_loop [OF good rb])
  then show "ages now sv (cmd_part i from' reason sv rb)"
    using i by (auto simp: cmd_part_def still_clients intro!: same_clients_ages elim!: wp_mono)
  have "channels_ok (sv_clients sv) (sv_channels sv)" using good_inv [OF good] by (simp add: server_inv_def)
  then have "wp True (part_all_loop i c (sv_channels sv) sv rb)
      (\<lambda>(l, s, rb'). l = without_member i (sv_channels sv) \<and> (\<exists>d. s = post sv d) \<and> rb_inv lb rb')"
    by (intro wp_part_all_loop rb) (simp add: channels_ok_def)
  then show "ages now sv (cmd_part_all i sv rb)"
    using i by (auto simp: cmd_part_all_def intro!: same_clients_ages elim!: wp_mono)
  show "ages now sv (cmd_kick i victims from' why sv rb)"
    using cmd_kick_effect [of i victims from' why sv rb]
    by (cases "cmd_kick i victims from' why sv rb") (fastforce simp: ages_def only_channel_def)+
qed

lemma request_ages:
  assumes good: "good True sv" and c: "iget i (sv_clients sv) = Some c" and rb: "rb_inv lb rb"
    and ok: "request_ok req"
  shows "ages (env_now env) sv (run_request env i tgs req sv rb)"
proof -
  have i: "ihas i (sv_clients sv)" using c by (simp add: thas_def)
  note queries = simple_queries [OF rb, THEN answers_ages] state_queries [OF good i rb, THEN answers_ages]
    who_queries [OF good i rb, THEN answers_ages] whois_query [OF good_inv [OF good] rb disjI1, THEN answers_ages]
  note others = users_age mode_user_ages join_ages messages_age channels_age [OF good c rb]
  show ?thesis
    by (cases req)
      (use ok queries others in \<open>simp_all add: run_request_def cmd_authenticate_def cmd_message_all_def ages_def\<close>)
qed

text \<open>A message.\<close>

lemma message_ages:
  assumes good: "good True sv" and parse: "message_parse line = Some msg"
    and run: "handle_message env i msg sv = Some (pts, sv')"
  shows "aged (env_now env) (sv_clients sv) (sv_clients sv')"
proof -
  have rb: "rb_inv (message_label msg) (client_reply c (message_label msg))" for c by (simp add: client_reply_def)
  have ok: "request_ok req" if "request_new msg = Some (Inr req)" for req
    using request_new_cases [OF parse] that by fastforce
  note ages = request_ages [OF good _ rb ok, unfolded ages_def]
  have "outcome True env i msg sv sv'" using handle_message_outcome [OF good parse _ run] by simp
  then show ?thesis
  proof (cases rule: outcomeE)
    case (left c req res rb')
    then show ?thesis using ages [OF left(1,2), of env "msg_tags msg" c] by simp
  next
    case (served c req res s rb' c' st d)
    have "aged (env_now env) (sv_clients s) (sv_clients (set_state i st s))"
      by (auto simp: set_state_def intro: aged_iupd)
    then show ?thesis
      using ages [OF served(1,2), of env "msg_tags msg" c] served(4,7) by (auto intro: aged_trans)
  qed simp_all
qed

section \<open>A clock that is not set back\<close>

definition timely :: "64 word \<Rightarrow> server \<Rightarrow> bool" where
  "timely now sv \<longleftrightarrow> (\<forall>j c. iget j (sv_clients sv) = Some c \<longrightarrow> cl_last_action_time c \<le> now)"

lemma timely_later: "timely now sv \<Longrightarrow> now \<le> now' \<Longrightarrow> timely now' sv"
  by (force simp: timely_def)

lemma timely_aged: "timely now sv \<Longrightarrow> aged now (sv_clients sv) (sv_clients sv') \<Longrightarrow> timely now sv'"
  by (fastforce simp: timely_def aged_def)

lemma timely_joined: "timely (env_now env) sv \<Longrightarrow> timely (env_now env) (peer_joined env i addr sv)"
  by (auto simp: timely_def peer_joined_def client_new_def table)

lemma timely_clock_ok: "timely (env_now env) sv \<Longrightarrow> clock_ok env sv req"
  by (cases req) (auto simp: timely_def idle_underflows_def not_less [symmetric] split: option.splits)

end
