(* ===== verification/Tasks.thy ===== *)
theory Tasks
  imports Times
begin

text \<open>
  The shared handle \<open>State\<close> of \<open>src/state/mod.rs\<close>, and the tasks of \<open>src/net.rs\<close> and \<open>src/control.rs\<close> that
  hold it, in any interleaving.  A task waits for something to happen, and then makes at most one call
  of the handle; the lock makes the call one step.  A connection whose handler panics ends there, without
  the call that takes its client out: its task is \<open>Crashed\<close> from then on.
\<close>

section \<open>The handle\<close>

text \<open>The methods of \<open>State\<close> lock the inner state and call its method of the same name.  \<open>vacant\<close> is the
  key that the slab of clients gives to the next one.\<close>

datatype state_call =
    Call_Rehash state_config
  | Call_PeerJoined socket_addr
  | Call_PeerQuit nat "string option"
  | Call_HandleMessage nat message
  | Call_RemoveIfUnregistered nat
  | Call_LoginTimeout

datatype state_answer = Got_Unit | Got_Id nat | Got_Points "32 word" | Got_Millis "64 word"

definition locked ::
  "(server \<Rightarrow> nat) \<Rightarrow> env \<Rightarrow> state_call \<Rightarrow> server \<Rightarrow> (state_answer \<times> server) option" where
  "locked vacant env call sv =
     (case call of
        Call_Rehash cfg \<Rightarrow> Some (Got_Unit, server_rehash cfg sv)
      | Call_PeerJoined addr \<Rightarrow> (let i = vacant sv in Some (Got_Id i, peer_joined env i addr sv))
      | Call_PeerQuit i err \<Rightarrow> Some (Got_Unit, peer_quit i err sv)
      | Call_HandleMessage i msg \<Rightarrow>
          map_option (\<lambda>(pts, sv). (Got_Points pts, sv)) (handle_message env i msg sv)
      | Call_RemoveIfUnregistered i \<Rightarrow> Some (Got_Unit, remove_if_unregistered i sv)
      | Call_LoginTimeout \<Rightarrow> Some (Got_Millis (sv_login_timeout sv), sv))"

section \<open>The tasks\<close>

text \<open>The control task, a listening task, a connection from its acceptance to the end of \<open>handle\<close> - it
  joins, serves the messages of its client, and leaves when one of its halves has ended, or has crashed -
  and the task \<open>login_timeout\<close> that \<open>handle\<close> spawns.\<close>

datatype task =
    Controlling
  | Listening
  | Joining socket_addr
  | Serving nat
  | Leaving nat "string option"
  | Crashed nat
  | Timing nat
  | Sleeping nat "64 word"
  | Finished

datatype happening =
    Reloads state_config
  | Accepts socket_addr
  | Reads string
  | Ends "string option"
  | Proceeds

text \<open>The call that a task makes when something happens, if any.\<close>

fun task_call :: "task \<Rightarrow> happening \<Rightarrow> state_call option" where
  "task_call Controlling (Reloads cfg) = Some (Call_Rehash cfg)"
| "task_call (Joining addr) Proceeds = Some (Call_PeerJoined addr)"
| "task_call (Serving i) (Reads line) = map_option (Call_HandleMessage i) (message_parse line)"
| "task_call (Leaving i err) Proceeds = Some (Call_PeerQuit i err)"
| "task_call (Timing i) Proceeds = Some Call_LoginTimeout"
| "task_call (Sleeping i timeout) Proceeds = Some (Call_RemoveIfUnregistered i)"
| "task_call _ _ = None"

text \<open>The task it goes on as, and the tasks it spawns.\<close>

fun task_next :: "task \<Rightarrow> happening \<Rightarrow> state_answer option \<Rightarrow> (task \<times> task list) option" where
  "task_next Controlling (Reloads cfg) answer = Some (Controlling, [])"
| "task_next Listening (Accepts addr) answer = Some (Listening, [Joining addr])"
| "task_next (Joining addr) Proceeds (Some (Got_Id i)) = Some (Serving i, [Timing i])"
| "task_next (Serving i) (Reads line) answer = Some (Serving i, [])"
| "task_next (Serving i) (Ends err) answer = Some (Leaving i err, [])"
| "task_next (Leaving i err) Proceeds answer = Some (Finished, [])"
| "task_next (Timing i) Proceeds (Some (Got_Millis timeout)) = Some (Sleeping i timeout, [])"
| "task_next (Sleeping i timeout) Proceeds answer = Some (Finished, [])"
| "task_next _ _ _ = None"

text \<open>One step; \<^const>\<open>None\<close> when the task does not wait for this, or its call panics.  The end of a connection
  by a panic is the second rule of \<open>moves\<close> below.\<close>

definition task_step ::
  "(server \<Rightarrow> nat) \<Rightarrow> env \<Rightarrow> task \<Rightarrow> happening \<Rightarrow> server \<Rightarrow> (task \<times> task list \<times> server) option" where
  "task_step vacant env t h sv =
     do {
       (answer, sv) \<leftarrow> (case task_call t h of
                           None \<Rightarrow> Some (None, sv)
                         | Some call \<Rightarrow> map_option (apfst Some) (locked vacant env call sv));
       (t, spawned) \<leftarrow> task_next t h answer;
       Some (t, spawned, sv)
     }"

fun system_step ::
  "(server \<Rightarrow> nat) \<Rightarrow> env \<Rightarrow> nat \<Rightarrow> happening \<Rightarrow> task list \<times> server \<Rightarrow> (task list \<times> server) option" where
  "system_step vacant env k h (tasks, sv) =
     (if k < length tasks then
        do { (t, spawned, sv) \<leftarrow> task_step vacant env (tasks ! k) h sv; Some (tasks[k := t] @ spawned, sv) }
      else None)"

fun run_system ::
  "(server \<Rightarrow> nat) \<Rightarrow> env \<Rightarrow> (nat \<times> happening) list \<Rightarrow> task list \<times> server \<Rightarrow> (task list \<times> server) option" where
  "run_system vacant env [] s = Some s"
| "run_system vacant env ((k, h) # hs) s =
     do { s \<leftarrow> system_step vacant env k h s; run_system vacant env hs s }"

section \<open>Steps of the system\<close>

text \<open>What the documentation of the slab says of the key of a vacant entry.  Which of the vacant keys it is
  depends on the history of the slab, so it may be another choice in every step.\<close>

definition vacancies :: "(server \<Rightarrow> nat) \<Rightarrow> bool" where
  "vacancies vacant \<longleftrightarrow> (\<forall>sv. \<not> ihas (vacant sv) (sv_clients sv))"

text \<open>A step of a task, or the end of one by a panic: the request that its client has sent panics at once,
  so the state is as before, and \<open>peer_quit\<close> is not called.  These are all the panics there are as long
  as the texts are ASCII (lemma \<open>panics_crash\<close>); a panic that cuts a text within a character of several
  bytes can come when the handler has already changed the state, and is no step here.\<close>

definition panics_at_once :: "env \<Rightarrow> nat \<Rightarrow> string \<Rightarrow> server \<Rightarrow> bool" where
  "panics_at_once env i line sv \<longleftrightarrow>
     (case message_parse line of
        None \<Rightarrow> False
      | Some msg \<Rightarrow>
          handle_message env i msg sv = None
          \<and> (case request_new msg of Some (Inr req) \<Rightarrow> \<not> (implemented req \<and> clock_ok env sv req) | _ \<Rightarrow> False))"

inductive moves :: "task list \<times> server \<Rightarrow> task list \<times> server \<Rightarrow> bool" where
  moves_step: "vacancies vacant \<Longrightarrow> system_step vacant env k h s = Some s' \<Longrightarrow> moves s s'"
| moves_crash: "k < length tasks \<Longrightarrow> tasks ! k = Serving i \<Longrightarrow> panics_at_once env i line sv \<Longrightarrow>
     moves (tasks, sv) (tasks[k := Crashed i], sv)"

inductive_cases movesE: "moves s s'"

inductive system_start :: "task list \<times> server \<Rightarrow> bool" where
  "system_start (Controlling # replicate n Listening, server_new env motd cfg)"

inductive_cases system_startE: "system_start s"

lemma run_system_moves:
  assumes "vacancies vacant"
  shows "run_system vacant env hs s = Some s' \<Longrightarrow> rtranclp moves s s'"
proof (induction hs arbitrary: s)
  case (Cons e hs)
  obtain k h where e: "e = (k, h)" by fastforce
  then obtain t where "system_step vacant env k h s = Some t" "run_system vacant env hs t = Some s'"
    using Cons.prems by (auto simp: bind_eq_Some_conv)
  then show ?case using Cons.IH assms by (blast intro: moves_step converse_rtranclp_into_rtranclp)
qed simp

text \<open>Each call is a step of the server or reads a setting.\<close>

lemma locked_reachable:
  assumes "vacancies vacant" and "reachable b sv" and "locked vacant env call sv = Some (answer, sv')"
    and "\<And>i msg. call = Call_HandleMessage i msg \<Longrightarrow> \<exists>line. message_parse line = Some msg \<and> (b \<or> ascii_str line)"
    and "\<And>addr. call = Call_PeerJoined addr \<Longrightarrow> b \<or> ascii_str (sa_ip addr)"
  shows "reachable b sv'"
proof (cases "call = Call_LoginTimeout")
  case False
  then have "server_step b sv sv'"
    using assms by (cases call) (auto simp: locked_def vacancies_def Let_def intro: server_step.intros)
  then show ?thesis by (rule reachable_step [OF assms(2)])
qed (use assms in \<open>simp add: locked_def\<close>)

text \<open>No message makes a client.\<close>

lemma message_no_new:
  assumes "reachable True sv" and "message_parse line = Some msg" and "handle_message env i msg sv = Some (pts, sv')"
    and "ihas j (sv_clients sv')"
  shows "ihas j (sv_clients sv)"
  using message_ages [OF reachable_good [OF assms(1)] assms(2,3)] assms(4) by (auto simp: aged_def thas_def)

lemma remove_client_no_new:
  assumes "reachable True sv" and "ihas j (sv_clients (remove_client i a e sv))"
  shows "ihas j (sv_clients sv) \<and> j \<noteq> i"
proof -
  have "j \<noteq> i" using remove_client_good(3) [OF reachable_good [OF assms(1)]] assms(2) by blast
  then show ?thesis
    using assms remove_client_other [OF reachable_inv [OF assms(1)]] by (simp add: thas_def)
qed

lemma timeout_no_new:
  "reachable True sv \<Longrightarrow> ihas j (sv_clients (remove_if_unregistered i sv)) \<Longrightarrow> ihas j (sv_clients sv)"
  using remove_client_no_new by (auto simp: remove_if_unregistered_def split: option.splits if_splits)

lemma peer_quit_no_new:
  "reachable True sv \<Longrightarrow> ihas j (sv_clients (peer_quit i err sv)) \<Longrightarrow> ihas j (sv_clients sv) \<and> j \<noteq> i"
  using remove_client_no_new by (auto simp: peer_quit_def split: option.splits)

text \<open>A round of the read loop of a connection is the step of its task for the line that the reader gives;
  when the reader fails or has reached the end, the task ends with that error and calls nothing.\<close>

lemma round_reads:
  assumes "read_message fill consume r 512 [] = (Inr n, r', line)" and "n \<noteq> 0"
  shows "map_option (\<lambda>(_, _, sv). sv) (incoming_once fill consume env i r sv)
    = map_option (\<lambda>(_, _, sv). sv) (task_step vacant env (Serving i) (Reads line) sv)"
proof (cases "message_parse line")
  case (Some msg)
  then show ?thesis using assms
    by (cases "handle_message env i msg sv") (auto simp: incoming_once_def handle_buffer_def task_step_def locked_def)
qed (use assms in \<open>simp add: incoming_once_def handle_buffer_def task_step_def\<close>)

lemma round_ends:
  assumes "incoming_once fill consume env i r sv = Some (Inl err, r', sv')"
  shows "task_step vacant env (Serving i) (Ends (Some (describe err))) sv
    = Some (Leaving i (Some (describe err)), [], sv')"
  using assms by (auto simp: incoming_once_def task_step_def bind_eq_Some_conv split: prod.splits sum.splits if_splits)

section \<open>Who looks after a client\<close>

fun owner :: "task \<Rightarrow> nat option" where
  "owner (Serving i) = Some i"
| "owner (Leaving i err) = Some i"
| "owner (Crashed i) = Some i"
| "owner _ = None"

text \<open>After a step, a client is one that the task joined, or it was there before and the task has not let
  go of it.\<close>

lemma task_step_call:
  assumes "task_step vacant env t h sv = Some (t', spawned, sv')"
  obtains (silent) "task_call t h = None" "sv' = sv" "task_next t h None = Some (t', spawned)"
  | (call) call answer where "task_call t h = Some call" "locked vacant env call sv = Some (answer, sv')"
      "task_next t h (Some answer) = Some (t', spawned)"
  using assms by (auto simp: task_step_def bind_eq_Some_conv split: option.splits)

lemma task_call_message: "task_call t h = Some (Call_HandleMessage i msg) \<Longrightarrow> \<exists>line. message_parse line = Some msg"
  by (cases "(t, h)" rule: task_call.cases) auto

text \<open>Which task makes which call, and goes on as what.\<close>

lemma task_call_owner:
  assumes "task_call t h = Some call" and "task_next t h (Some answer) = Some (t', spawned)"
  shows "case call of
      Call_PeerJoined addr \<Rightarrow> \<exists>i. answer = Got_Id i \<and> owner t = None \<and> owner t' = Some i
    | Call_PeerQuit i err \<Rightarrow> owner t = Some i
    | _ \<Rightarrow> owner t' = owner t"
  using assms by (cases "(t, h, Some answer)" rule: task_next.cases) auto

lemma silent_owner:
  "task_call t h = None \<Longrightarrow> task_next t h None = Some (t', spawned) \<Longrightarrow> owner t' = owner t"
  by (cases "(t, h, None :: state_answer option)" rule: task_next.cases) auto

lemma joined_ihas:
  "ihas j (sv_clients (peer_joined env i addr sv)) \<longleftrightarrow> j = i \<or> ihas j (sv_clients sv)"
  by (auto simp: peer_joined_def thas_def table)

lemma rehash_clients [simp]: "sv_clients (server_rehash cfg sv) = sv_clients sv"
  by (simp add: server_rehash_def)

lemma task_step_owner:
  assumes "vacancies vacant" and "reachable True sv"
    and step: "task_step vacant env t h sv = Some (t', spawned, sv')"
  shows "reachable True sv'"
    and "ihas j (sv_clients sv') \<Longrightarrow>
      owner t' = Some j \<or> (ihas j (sv_clients sv) \<and> owner t \<noteq> Some j)"
proof -
  show "reachable True sv'"
    using step by (cases rule: task_step_call)
      (use locked_reachable [OF assms(1,2)] task_call_message assms(2) in blast)+
  assume j: "ihas j (sv_clients sv')"
  from step show "owner t' = Some j \<or> (ihas j (sv_clients sv) \<and> owner t \<noteq> Some j)"
  proof (cases rule: task_step_call)
    case silent
    then show ?thesis using silent_owner j by auto
  next
    case (call call answer)
    note owner = task_call_owner [OF call(1,3)]
    show ?thesis
    proof (cases call)
      case (Call_HandleMessage i msg)
      then obtain pts where "handle_message env i msg sv = Some (pts, sv')"
        using call(2) by (auto simp: locked_def)
      moreover obtain line where "message_parse line = Some msg"
        using task_call_message call(1) Call_HandleMessage by blast
      ultimately show ?thesis using message_no_new [OF assms(2) _ _ j] owner Call_HandleMessage by auto
    next
      case (Call_PeerQuit i err)
      then show ?thesis using call(2) peer_quit_no_new [OF assms(2)] j owner by (auto simp: locked_def)
    next
      case (Call_RemoveIfUnregistered i)
      then show ?thesis using call(2) timeout_no_new [OF assms(2)] j owner by (auto simp: locked_def)
    qed (use call(2) j owner joined_ihas in \<open>auto simp: locked_def Let_def\<close>)
  qed
qed

definition owned :: "task list \<times> server \<Rightarrow> bool" where
  "owned s \<longleftrightarrow>
     reachable True (snd s)
     \<and> (\<forall>i. ihas i (sv_clients (snd s)) \<longrightarrow> Some i \<in> owner ` set (fst s))"

lemma sv_clients_new: "sv_clients (server_new env motd cfg) = []"
  by (simp add: server_new_def)

lemma owned_start: "system_start s \<Longrightarrow> owned s"
  using reachable_start by (fastforce simp: owned_def thas_def sv_clients_new elim: system_startE)

lemma owner_updated:
  assumes "Some j \<in> owner ` set tasks" and "k < length tasks" and "owner (tasks ! k) \<noteq> Some j"
  shows "Some j \<in> owner ` set (tasks[k := t])"
proof -
  obtain m where m: "m < length tasks" "owner (tasks ! m) = Some j"
    using assms(1) by (metis image_iff in_set_conv_nth)
  then have "tasks[k := t] ! m = tasks ! m" using assms(3) by (cases "m = k") auto
  then show ?thesis using m by (metis image_eqI length_list_update nth_mem)
qed

lemma owned_step:
  assumes "vacancies vacant" and "owned s" and "system_step vacant env k h s = Some s'"
  shows "owned s'"
proof -
  obtain tasks sv where s: "s = (tasks, sv)" by fastforce
  then obtain t spawned sv' where k: "k < length tasks"
      and step: "task_step vacant env (tasks ! k) h sv = Some (t, spawned, sv')"
      and s': "s' = (tasks[k := t] @ spawned, sv')"
    using assms(3) by (auto simp: bind_eq_Some_conv split: if_splits)
  have sv: "reachable True sv" using assms(2) s by (simp add: owned_def)
  note task = task_step_owner [OF assms(1) sv step]
  have "Some j \<in> owner ` set (tasks[k := t])" if "ihas j (sv_clients sv')" for j
    using task(2) [OF that]
  proof
    assume "owner t = Some j"
    then show ?thesis using k by (metis image_eqI set_update_memI)
  next
    assume "ihas j (sv_clients sv) \<and> owner (tasks ! k) \<noteq> Some j"
    then show ?thesis using owner_updated k assms(2) s by (simp add: owned_def)
  qed
  then show ?thesis using task(1) s' by (auto simp: owned_def)
qed

lemma owned_crash:
  assumes "owned (tasks, sv)" and "k < length tasks" and "tasks ! k = Serving i"
  shows "owned (tasks[k := Crashed i], sv)"
proof -
  have "Some j \<in> owner ` set (tasks[k := Crashed i])" if "Some j \<in> owner ` set tasks" for j
  proof (cases "j = i")
    case True
    have "Crashed i \<in> set (tasks[k := Crashed i])" using assms(2) by (rule set_update_memI)
    then show ?thesis using True by force
  qed (use that assms(2,3) in \<open>simp add: owner_updated\<close>)
  then show ?thesis using assms(1) by (simp add: owned_def)
qed

interpretation tasks: preserved system_start moves owned
  by unfold_locales (auto intro: owned_start owned_step owned_crash elim: movesE)

lemma moved_owned: "system_start s \<Longrightarrow> rtranclp moves s t \<Longrightarrow> owned t"
  by (rule tasks.reached_inv)

text \<open>A task that has crashed takes no further step, so it never takes its client out.\<close>

lemma crashed_forever:
  assumes "rtranclp moves (tasks, sv) s" and "k < length tasks" and "tasks ! k = Crashed i"
  shows "k < length (fst s) \<and> fst s ! k = Crashed i"
  using assms(1)
proof (induction rule: rtranclp_induct)
  case (step s s')
  from step.hyps(2) show ?case
  proof (cases rule: moves.cases)
    case (moves_step vacant env m h)
    then obtain ts sv t spawned sv' where "s = (ts, sv)" "s' = (ts[m := t] @ spawned, sv')" "m < length ts"
      "task_step vacant env (ts ! m) h sv = Some (t, spawned, sv')"
      by (cases s) (auto simp: bind_eq_Some_conv split: if_splits)
    moreover from this have "m \<noteq> k" using step.IH by (auto simp: task_step_def)
    ultimately show ?thesis using step.IH by (simp add: nth_append)
  next
    case (moves_crash m ts j env line sv)
    then show ?thesis using step.IH by (cases "m = k") simp_all
  qed
qed (use assms(2,3) in simp)

lemma panics_crash:
  assumes "reachable False sv" and "message_parse line = Some msg" and "ascii_str line"
    and "handle_message env i msg sv = None"
  shows "panics_at_once env i line sv"
proof (rule ccontr)
  assume no: "\<not> panics_at_once env i line sv"
  have "wp False (handle_message env i msg sv) (\<lambda>(pts, s). good False s \<and> outcome False env i msg sv s)"
    using no assms(2-4)
    by (intro wp_handle_message [OF reachable_good [OF assms(1)] assms(2)]) (auto simp: panics_at_once_def)
  then show False using assms(4) by (simp add: wp_def)
qed

text \<open>A client that may send a request which is not implemented crashes its task, and stays.\<close>

lemma unimplemented_crashes:
  assumes "k < length tasks" and "tasks ! k = Serving i" and "iget i (sv_clients sv) = Some c"
    and "message_parse line = Some msg" and "length (msg_tags msg) \<le> MAX_TAG_DATA_LENGTH"
    and "request_new msg = Some (Inr req)" and "client_can_issue_request req c" and "\<not> implemented req"
  shows "moves (tasks, sv) (tasks[k := Crashed i], sv)"
proof (rule moves_crash [OF assms(1,2)])
  have "run_request env_sample i tgs req sv rb = None" for tgs rb
    using assms(8) run_request_panics by blast
  then have "handle_message env_sample i msg sv = None"
    using assms(3-7) by (simp add: handle_message_def handle_request_def)
  then show "panics_at_once env_sample i line sv" using assms(4,6,8) by (simp add: panics_at_once_def)
qed

text \<open>As long as no task has crashed the server can be drained: the connections can end one after the
  other, and nothing of them remains.\<close>

lemma run_system_append:
  "run_system vacant env (hs @ hs') s = do { s \<leftarrow> run_system vacant env hs s; run_system vacant env hs' s }"
proof (induction hs arbitrary: s)
  case (Cons e hs)
  obtain k h where "e = (k, h)" by fastforce
  then show ?case using Cons by (cases "system_step vacant env k h s") (simp_all del: system_step.simps)
qed simp

lemma retire:
  assumes "k < length tasks" and "owner (tasks ! k) \<noteq> None" and "\<forall>i. tasks ! k \<noteq> Crashed i"
  shows "\<exists>hs sv'. run_system vacant env hs (tasks, sv) = Some (tasks[k := Finished], sv')"
proof (cases "tasks ! k")
  case (Serving i)
  then have "run_system vacant env [(k, Ends None), (k, Proceeds)] (tasks, sv)
      = Some (tasks[k := Finished], peer_quit i None sv)"
    using assms(1) by (simp add: task_step_def locked_def)
  then show ?thesis by blast
next
  case (Leaving i err)
  then have "run_system vacant env [(k, Proceeds)] (tasks, sv) = Some (tasks[k := Finished], peer_quit i err sv)"
    using assms(1) by (simp add: task_step_def locked_def)
  then show ?thesis by blast
qed (use assms(2,3) in simp_all)

lemma retire_first:
  "n \<le> length tasks \<Longrightarrow> \<forall>i. Crashed i \<notin> set tasks \<Longrightarrow> \<exists>hs tasks' sv'. run_system vacant env hs (tasks, sv) = Some (tasks', sv')
     \<and> length tasks' = length tasks \<and> (\<forall>i. Crashed i \<notin> set tasks') \<and> (\<forall>k < n. owner (tasks' ! k) = None)"
proof (induction n)
  case 0
  have "run_system vacant env [] (tasks, sv) = Some (tasks, sv)" by simp
  then show ?case using 0 by blast
next
  case (Suc n)
  then obtain hs ts s where IH: "run_system vacant env hs (tasks, sv) = Some (ts, s)"
    "length ts = length tasks" "\<forall>k < n. owner (ts ! k) = None" and live: "\<forall>i. Crashed i \<notin> set ts"
    by auto
  show ?case
  proof (cases "owner (ts ! n) = None")
    case True
    then show ?thesis using IH live less_Suc_eq by (metis (no_types))
  next
    case False
    have "\<forall>i. ts ! n \<noteq> Crashed i" using live IH(2) Suc.prems(1) by (metis Suc_le_lessD nth_mem)
    then obtain hs' s' where "run_system vacant env hs' (ts, s) = Some (ts[n := Finished], s')"
      using retire [of n ts vacant env s] False IH(2) Suc.prems by auto
    then have "run_system vacant env (hs @ hs') (tasks, sv) = Some (ts[n := Finished], s')"
      using IH(1) by (simp add: run_system_append)
    moreover have "\<forall>k < Suc n. owner (ts[n := Finished] ! k) = None"
      using IH(2,3) Suc.prems by (simp add: less_Suc_eq nth_list_update)
    moreover have "\<forall>i. Crashed i \<notin> set (ts[n := Finished])"
      using live set_update_subset_insert [of ts n Finished] by auto
    ultimately show ?thesis using IH(2) by (metis length_list_update)
  qed
qed

lemma can_be_drained:
  assumes "vacancies vacant" and "owned (tasks, sv)" and "\<forall>i. Crashed i \<notin> set tasks"
  shows "\<exists>hs tasks' sv'. run_system vacant env hs (tasks, sv) = Some (tasks', sv') \<and> (\<forall>i. \<not> ihas i (sv_clients sv'))"
proof -
  obtain hs ts s where run: "run_system vacant env hs (tasks, sv) = Some (ts, s)"
    and none: "length ts = length tasks" "\<forall>k < length tasks. owner (ts ! k) = None"
    using retire_first [OF order_refl assms(3)] by blast
  have "owned (ts, s)"
    using tasks.steps_inv [of "(tasks, sv)" "(ts, s)"] run_system_moves [OF assms(1) run] assms(2) by simp
  then have "\<not> ihas i (sv_clients s)" for i
    using none by (fastforce simp: owned_def in_set_conv_nth)
  then show ?thesis using run by blast
qed

section \<open>No task gets stuck\<close>

text \<open>What a task waits for.\<close>

fun waits_for :: "task \<Rightarrow> happening \<Rightarrow> bool" where
  "waits_for Controlling (Reloads cfg) = True"
| "waits_for Listening (Accepts addr) = True"
| "waits_for (Joining addr) Proceeds = True"
| "waits_for (Serving i) (Reads line) = True"
| "waits_for (Serving i) (Ends err) = True"
| "waits_for (Leaving i err) Proceeds = True"
| "waits_for (Timing i) Proceeds = True"
| "waits_for (Sleeping i timeout) Proceeds = True"
| "waits_for _ _ = False"

text \<open>What does not make the server panic: lines of ASCII characters with implemented requests.\<close>

definition harmless_line :: "string \<Rightarrow> bool" where
  "harmless_line line \<longleftrightarrow>
     ascii_str line
     \<and> (case message_parse line of
          None \<Rightarrow> True
        | Some msg \<Rightarrow> (case request_new msg of Some (Inr req) \<Rightarrow> implemented req | _ \<Rightarrow> True))"

fun harmless :: "happening \<Rightarrow> bool" where
  "harmless (Reads line) = harmless_line line"
| "harmless (Accepts addr) = ascii_str (sa_ip addr)"
| "harmless _ = True"

text \<open>Steps at a time that does not go back.\<close>

type_synonym timed = "64 word \<times> task list \<times> server"

inductive timed_moves :: "timed \<Rightarrow> timed \<Rightarrow> bool" where
  "vacancies vacant \<Longrightarrow> now \<le> env_now env \<Longrightarrow> harmless h \<Longrightarrow> system_step vacant env k h s = Some s' \<Longrightarrow>
     timed_moves (now, s) (env_now env, s')"

inductive_cases timed_movesE: "timed_moves s s'"

definition timed_start :: "timed \<Rightarrow> bool" where
  "timed_start s \<longleftrightarrow> system_start (snd s)"

definition calm :: "timed \<Rightarrow> bool" where
  "calm s \<longleftrightarrow>
     (case s of (now, tasks, sv) \<Rightarrow>
        reachable False sv \<and> timely now sv \<and> (\<forall>addr. Joining addr \<in> set tasks \<longrightarrow> ascii_str (sa_ip addr)))"

lemma calm_start: "timed_start s \<Longrightarrow> calm s"
  using reachable_start by (fastforce simp: timed_start_def calm_def timely_def sv_clients_new elim: system_startE)

lemma harmless_message:
  assumes "harmless h" and "task_call t h = Some (Call_HandleMessage i msg)"
  obtains line where "message_parse line = Some msg" "ascii_str line"
    "\<forall>req. request_new msg = Some (Inr req) \<longrightarrow> implemented req"
  using assms by (cases "(t, h)" rule: task_call.cases) (auto simp: harmless_line_def split: option.splits sum.splits)

lemma locked_timely:
  assumes sv: "reachable b sv" "timely (env_now env) sv" and run: "locked vacant env call sv = Some (answer, sv')"
    and msg: "\<And>i msg. call = Call_HandleMessage i msg \<Longrightarrow> \<exists>line. message_parse line = Some msg"
  shows "timely (env_now env) sv'"
proof (cases call)
  case (Call_HandleMessage i m)
  have "good True sv" using reachable_inv [OF sv(1)] by (simp add: good_def)
  then show ?thesis using run Call_HandleMessage msg sv(2) by (auto simp: locked_def dest: message_ages timely_aged)
next
  case (Call_PeerJoined addr)
  then show ?thesis using run sv(2) by (auto simp: locked_def Let_def timely_joined)
next
  case (Call_Rehash cfg)
  then show ?thesis using run sv(2) by (auto simp: locked_def timely_def)
qed (use run timely_aged [OF sv(2)] in \<open>auto simp: locked_def peer_quit_def remove_if_unregistered_def
    split: option.splits if_splits\<close>)

lemma joining_next:
  "task_next t h answer = Some (t', spawned) \<Longrightarrow> Joining addr \<in> set (t' # spawned) \<Longrightarrow> h = Accepts addr"
  by (cases "(t, h, answer)" rule: task_next.cases) auto

lemma calm_step:
  assumes "vacancies vacant" and "calm (now, s)" and "now \<le> env_now env" and "harmless h"
    and "system_step vacant env k h s = Some s'"
  shows "calm (env_now env, s')"
proof -
  obtain tasks sv where s: "s = (tasks, sv)" by fastforce
  then obtain t spawned sv' where k: "k < length tasks"
      and step: "task_step vacant env (tasks ! k) h sv = Some (t, spawned, sv')"
      and s': "s' = (tasks[k := t] @ spawned, sv')"
    using assms(5) by (auto simp: bind_eq_Some_conv split: if_splits)
  have sv: "reachable False sv" "timely (env_now env) sv"
    and joining: "\<And>addr. Joining addr \<in> set tasks \<Longrightarrow> ascii_str (sa_ip addr)"
    using assms(2,3) s timely_later by (auto simp: calm_def)
  have goes: "\<exists>answer. task_next (tasks ! k) h answer = Some (t, spawned)"
    using step by (cases rule: task_step_call) blast+
  have "reachable False sv' \<and> timely (env_now env) sv'"
    using step
  proof (cases rule: task_step_call)
    case (call call answer)
    have "ascii_str (sa_ip addr)" if "call = Call_PeerJoined addr" for addr
      using call(1) that joining nth_mem [OF k] by (cases "(tasks ! k, h)" rule: task_call.cases) auto
    then show ?thesis
      using locked_reachable [OF assms(1) sv(1) call(2)] locked_timely [OF sv call(2)] harmless_message [OF assms(4)] call(1)
      by metis
  qed (use sv in simp)
  moreover have "ascii_str (sa_ip addr)" if mem: "Joining addr \<in> set (fst s')" for addr
  proof -
    consider "Joining addr \<in> set tasks" | "Joining addr \<in> set (t # spawned)"
      using mem s' set_update_subset_insert [of tasks k t] by auto
    then show ?thesis
    proof cases
      case 2
      then have "h = Accepts addr" using goes joining_next by blast
      then show ?thesis using assms(4) by simp
    qed (rule joining)
  qed
  ultimately show ?thesis using s' by (simp add: calm_def)
qed

interpretation timed: preserved timed_start timed_moves calm
  by unfold_locales (auto intro: calm_start calm_step elim: timed_movesE)

lemma timed_calm: "timed_start s \<Longrightarrow> rtranclp timed_moves s t \<Longrightarrow> calm t"
  by (rule timed.reached_inv)

lemma waiting_silent: "waits_for t h \<Longrightarrow> task_call t h = None \<Longrightarrow> task_next t h None \<noteq> None"
  by (cases "(t, h)" rule: waits_for.cases) auto

lemma waiting_answered:
  "waits_for t h \<Longrightarrow> task_call t h = Some call \<Longrightarrow> locked vacant env call sv = Some (answer, sv') \<Longrightarrow>
     task_next t h (Some answer) \<noteq> None"
  by (cases "(t, h)" rule: waits_for.cases) (auto simp: locked_def Let_def)

lemma locked_total:
  assumes sv: "reachable False sv" "timely (env_now env) sv"
    and "harmless h" and "task_call t h = Some call"
  shows "locked vacant env call sv \<noteq> None"
proof (cases call)
  case (Call_HandleMessage i msg)
  then obtain line where line: "message_parse line = Some msg" "ascii_str line"
    "\<forall>req. request_new msg = Some (Inr req) \<longrightarrow> implemented req"
    using harmless_message assms(3,4) by metis
  have "wp False (handle_message env i msg sv) (\<lambda>(pts, s). good False s \<and> outcome False env i msg sv s)"
    using line timely_clock_ok [OF sv(2)] by (intro wp_handle_message [OF reachable_good [OF sv(1)]]) auto
  then show ?thesis using Call_HandleMessage by (auto simp: locked_def dest: wp_total)
qed (simp_all add: locked_def Let_def)

lemma step_total:
  assumes "reachable False sv" and "timely (env_now env) sv" and "harmless h" and wait: "waits_for t h"
  shows "task_step vacant env t h sv \<noteq> None"
proof (cases "task_call t h")
  case None
  then show ?thesis using waiting_silent [OF wait] by (auto simp: task_step_def)
next
  case (Some call)
  obtain answer sv' where "locked vacant env call sv = Some (answer, sv')"
    using locked_total [OF assms(1-3) Some] by fast
  moreover from this have "task_next t h (Some answer) \<noteq> None" by (rule waiting_answered [OF wait Some])
  ultimately show ?thesis using Some by (auto simp: task_step_def)
qed

section \<open>A connection to its end\<close>






section \<open>A slab, for the witnesses\<close>

definition vacant_sample :: "server \<Rightarrow> nat" where
  "vacant_sample sv =
     (if ihas 0 (sv_clients sv) then Suc (sum_list (tkeys (sv_clients sv))) else 0)"

lemma vacant_sample_ok: "vacancies vacant_sample"
proof -
  have "i \<le> sum_list (tkeys t)" if "ihas i t" for i and t :: "client itable"
    using that by (simp add: ihas_iff member_le_sum_list)
  then show ?thesis by (fastforce simp: vacancies_def vacant_sample_def)
qed

abbreviation addr_sample :: socket_addr where
  "addr_sample \<equiv> \<lparr>sa_ip = ''::1'', sa_port = 6667\<rparr>"

lemma new_client_unregistered [simp]:
  "cl_state (client_new now domain host) = ConnectionEstablished"
  by (simp add: client_new_def)

lemma newcomer_removed:
  "iget i (sv_clients sv) = Some (client_new now domain host) \<Longrightarrow>
     sv_clients (remove_client i a e sv) = idel i (sv_clients sv)"
  by (simp add: remove_client_def client_is_registered_def Let_def send_def)

lemma newcomer_timed_out:
  "iget i (sv_clients sv) = Some (client_new now domain host) \<Longrightarrow>
     sv_clients (remove_if_unregistered i sv) = idel i (sv_clients sv)"
  by (simp add: remove_if_unregistered_def newcomer_removed client_is_registered_def)

lemmas small_run = task_step_def locked_def vacant_sample_def peer_quit_def peer_joined_def
  newcomer_removed newcomer_timed_out thas_def table Let_def

section \<open>Properties\<close>

text \<open>C37: No ghosts but of crashed tasks.  From the start of the server, however its tasks are interleaved,
  every client in the state belongs to a connection that is being served, or that is about to take it
  out, or whose handler has panicked - which never takes it out; and when no such connection is left,
  the state has no client, no nickname in use and no member of a channel.  The panics are those of the
  requests that panic at once, by a \<open>todo!()\<close> or the clock, which are all that ASCII texts can cause; that
  a text is cut within a character of several bytes is not considered.\<close>

theorem clients_have_tasks:
  assumes "system_start s" and "rtranclp moves s (tasks, sv)"
  shows "(\<forall>i. ihas i (sv_clients sv) \<longrightarrow>
          (\<exists>t \<in> set tasks. t = Serving i \<or> (\<exists>err. t = Leaving i err) \<or> t = Crashed i))
    \<and> ((\<forall>t \<in> set tasks. \<forall>i. t \<noteq> Serving i \<and> (\<forall>err. t \<noteq> Leaving i err) \<and> t \<noteq> Crashed i) \<longrightarrow>
        (\<forall>i. \<not> ihas i (sv_clients sv)) \<and> (\<forall>n. uget n (sv_nicks sv) = None)
        \<and> (\<forall>e \<in> set (sv_channels sv). ch_members (snd e) = []))"
proof -
  have "owned (tasks, sv)" by (rule moved_owned [OF assms])
  then have inv: "server_inv sv" and "\<And>i. ihas i (sv_clients sv) \<Longrightarrow> Some i \<in> owner ` set tasks"
    by (auto simp: owned_def reachable_inv)
  moreover have "t = Serving i \<or> (\<exists>err. t = Leaving i err) \<or> t = Crashed i" if "owner t = Some i" for t i
    using that by (cases t) simp_all
  ultimately have own: "\<exists>t \<in> set tasks. t = Serving i \<or> (\<exists>err. t = Leaving i err) \<or> t = Crashed i"
    if "ihas i (sv_clients sv)" for i
    using that by (metis (no_types) image_iff)
  note gone = gone_everywhere [OF inv]
  have "(\<forall>n. uget n (sv_nicks sv) = None) \<and> (\<forall>e \<in> set (sv_channels sv). ch_members (snd e) = [])"
    if none: "\<And>i. \<not> ihas i (sv_clients sv)"
  proof (intro conjI allI ballI)
    show "uget n (sv_nicks sv) = None" for n using gone(1) [OF none] by (cases "uget n (sv_nicks sv)") auto
    show "ch_members (snd e) = []" if "e \<in> set (sv_channels sv)" for e
      using gone(2) [OF none] that by (cases "ch_members (snd e)") (force simp: tkeys_def)+
  qed
  then show ?thesis using own by blast
qed

theorem clients_have_tasks_witness:
  "\<exists>t \<in> set [Controlling, Listening, Serving 0, Timing 0]. t = Serving 0 \<or> (\<exists>err. t = Leaving 0 err) \<or> t = Crashed 0"
proof -
  have "run_system vacant_sample env_sample [(1, Accepts addr_sample), (2, Proceeds)] ([Controlling, Listening], server_sample)
      = Some ([Controlling, Listening, Serving 0, Timing 0], peer_joined env_sample 0 addr_sample server_sample)"
    by (simp add: task_step_def locked_def vacant_sample_def thas_def)
  note run = run_system_moves [OF vacant_sample_ok this]
  have "system_start ([Controlling, Listening], server_sample)"
    using system_start.intros [of 1 env_sample None state_config_sample] by (simp add: server_sample_def)
  from clients_have_tasks [OF this run] joined_ihas show ?thesis by blast
qed

text \<open>C4: No task panics.  From the start of the server, however its tasks are interleaved, when the clients
  send lines of ASCII characters with implemented requests and the clock is not set back: whatever a task
  waits for happens to it, it takes its step, and its call of the shared state returns.\<close>

theorem tasks_progress:
  assumes "vacancies vacant" and "timed_start s" and "rtranclp timed_moves s (now, tasks, sv)"
    and "now \<le> env_now env" and "k < length tasks" and "waits_for (tasks ! k) h" and "harmless h"
  shows "\<exists>s'. system_step vacant env k h (tasks, sv) = Some s'"
proof -
  have "reachable False sv" "timely now sv" using timed_calm [OF assms(2,3)] by (simp_all add: calm_def)
  then have "task_step vacant env (tasks ! k) h sv \<noteq> None"
    using assms(4,6,7) timely_later by (intro step_total) auto
  then show ?thesis using assms(5) by auto
qed

theorem tasks_progress_witness:
  "\<exists>s'. system_step vacant_sample env_sample 2 (Reads ''PING a'')
     ([Controlling, Listening, Serving 0, Timing 0], peer_joined env_sample 0 addr_sample server_sample) = Some s'"
proof (rule tasks_progress [OF vacant_sample_ok])
  let ?step = timed_moves
  let ?joined = "(env_now env_sample, [Controlling, Listening, Joining addr_sample], server_sample)"
  show "timed_start (0, [Controlling, Listening], server_sample)"
    using system_start.intros [of 1 env_sample None state_config_sample] by (simp add: timed_start_def server_sample_def)
  have "?step (0, [Controlling, Listening], server_sample) ?joined"
    by (rule timed_moves.intros [OF vacant_sample_ok, where k = 1 and h = "Accepts addr_sample"]) (simp_all add: is_ascii_def small_run)
  moreover have "?step ?joined (env_now env_sample, [Controlling, Listening, Serving 0, Timing 0],
      peer_joined env_sample 0 addr_sample server_sample)"
    by (rule timed_moves.intros [OF vacant_sample_ok, where k = 2 and h = Proceeds]) (simp_all add: small_run)
  ultimately show "rtranclp ?step (0, [Controlling, Listening], server_sample)
      (env_now env_sample, [Controlling, Listening, Serving 0, Timing 0], peer_joined env_sample 0 addr_sample server_sample)"
    by (meson converse_rtranclp_into_rtranclp r_into_rtranclp)
  show "harmless (Reads ''PING a'')" by code_simp
qed simp_all

text \<open>The identifier of a client that has left is given to the next one, and the tasks of the first do not
  know.  The timer of a client that has left removes the next client, whose own timer has not begun; and
  a task whose client was removed, before it has noticed, speaks for the next client.\<close>

lemma stale_timer_removes_next:
  "map_option (\<lambda>(tasks, sv). (tasks, ihas 0 (sv_clients sv)))
     (run_system vacant_sample env_sample
       [(1, Accepts addr_sample), (2, Proceeds), (3, Proceeds), (2, Ends None), (2, Proceeds),
        (1, Accepts addr_sample), (4, Proceeds), (3, Proceeds)]
       ([Controlling, Listening], server_sample))
   = Some ([Controlling, Listening, Finished, Finished, Serving 0, Timing 0], False)"
  by (simp add: small_run)

lemma two_tasks_one_client:
  "map_option (\<lambda>(tasks, sv). (tasks, ihas 0 (sv_clients sv)))
     (run_system vacant_sample env_sample
       [(1, Accepts addr_sample), (2, Proceeds), (3, Proceeds), (3, Proceeds),
        (1, Accepts addr_sample), (4, Proceeds)]
       ([Controlling, Listening], server_sample))
   = Some ([Controlling, Listening, Serving 0, Finished, Serving 0, Timing 0], True)"
  by (simp add: small_run)

lemma stale_task_removes_next:
  "map_option (\<lambda>(tasks, sv). (tasks, ihas 0 (sv_clients sv)))
     (run_system vacant_sample env_sample
       [(1, Accepts addr_sample), (2, Proceeds), (3, Proceeds), (3, Proceeds),
        (1, Accepts addr_sample), (4, Proceeds), (2, Ends None), (2, Proceeds)]
       ([Controlling, Listening], server_sample))
   = Some ([Controlling, Listening, Finished, Finished, Serving 0, Timing 0], False)"
  by (simp add: small_run)



end
