(* ===== verification/WireText.thy ===== *)
theory WireText
  imports ServerSafe
begin

text \<open>
  What the server writes to its clients is a sequence of complete lines: the texts it puts into a
  message hold no line end, so no text of one client can start a second line in what another client
  reads.  This theory has the part about texts and buffers.
\<close>

section \<open>Sequences of lines\<close>

inductive wire :: "string \<Rightarrow> bool" where
  wire_Nil: "wire []"
| wire_line: "wire w \<Longrightarrow> clean l \<Longrightarrow> wire (w @ l @ crlf)"

text \<open>The same with a line under way at the end.\<close>

definition open_line :: "string \<Rightarrow> bool" where
  "open_line s \<longleftrightarrow> (\<exists>w l. wire w \<and> clean l \<and> s = w @ l)"

lemma wire_open [simp]: "wire s \<Longrightarrow> open_line s"
  unfolding open_line_def by (intro exI [of _ s] exI [of _ "[]"]) simp

lemma open_line_append [simp]: "open_line s \<Longrightarrow> clean x \<Longrightarrow> open_line (s @ x)"
  unfolding open_line_def by (metis append_assoc clean_simps(2))

lemma open_line_crlf [simp]: "open_line s \<Longrightarrow> wire (s @ crlf)"
  by (auto simp: open_line_def intro: wire_line)

text \<open>What a client sees that splits at the line ends is what was written.\<close>

lemma wire_lines: "wire s \<longleftrightarrow> (\<exists>ls. (\<forall>l \<in> set ls. clean l) \<and> s = concat (map (\<lambda>l. l @ crlf) ls))"
proof
  assume "wire s"
  then show "\<exists>ls. (\<forall>l \<in> set ls. clean l) \<and> s = concat (map (\<lambda>l. l @ crlf) ls)"
  proof induction
    case (wire_line w l)
    then obtain ls where "\<forall>l \<in> set ls. clean l" "w = concat (map (\<lambda>l. l @ crlf) ls)" by blast
    with wire_line show ?case by (intro exI [of _ "ls @ [l]"]) auto
  qed (auto intro: exI [of _ "[]"])
next
  assume "\<exists>ls. (\<forall>l \<in> set ls. clean l) \<and> s = concat (map (\<lambda>l. l @ crlf) ls)"
  then obtain ls where "\<forall>l \<in> set ls. clean l" "s = concat (map (\<lambda>l. l @ crlf) ls)" by blast
  moreover have "\<forall>l \<in> set ls. clean l \<Longrightarrow> wire (concat (map (\<lambda>l. l @ crlf) ls))" for ls
    by (induction ls rule: rev_induct) (auto intro: wire_Nil wire_line)
  ultimately show "wire s" by blast
qed

text \<open>Whole lines remain when a part of the first line is cut off at the front.\<close>

lemma wire_suffix:
  assumes "wire (x @ y)" and "clean x" shows "wire y"
proof -
  obtain ls where ls: "\<forall>l \<in> set ls. clean l" "x @ y = concat (map (\<lambda>l. l @ crlf) ls)"
    using assms(1) by (auto simp: wire_lines)
  show ?thesis
  proof (cases ls)
    case Nil
    then show ?thesis using ls by (simp add: wire_Nil)
  next
    case (Cons l rest)
    then have eq: "x @ y = l @ crlf @ concat (map (\<lambda>l. l @ crlf) rest)" using ls(2) by simp
    then have "\<exists>l'. l = x @ l' \<and> y = l' @ crlf @ concat (map (\<lambda>l. l @ crlf) rest)"
      using assms(2) by (auto simp: append_eq_append_conv2 crlf_def append_eq_Cons_conv)
    then obtain l' where "l = x @ l'" "y = concat (map (\<lambda>l. l @ crlf) (l' # rest))" by auto
    moreover have "\<forall>l \<in> set (l' # rest). clean l" using ls(1) Cons calculation(1) by auto
    ultimately show ?thesis unfolding wire_lines by blast
  qed
qed

section \<open>Clean texts\<close>

lemma clean_take [simp]: "clean s \<Longrightarrow> clean (take n s)"
  by (erule clean_subset) (rule set_take_subset)

lemma clean_tl [simp]: "clean s \<Longrightarrow> clean (tl s)"
  by (cases s) simp_all

lemma clean_butlast [simp]: "clean s \<Longrightarrow> clean (butlast s)"
  by (erule clean_subset) (auto dest: in_set_butlastD)

lemma clean_trim [simp]: "clean s \<Longrightarrow> clean (str_trim s)"
  by (erule clean_subset) (rule set_str_trim)

lemma clean_concat: "(\<And>x. x \<in> set xs \<Longrightarrow> clean x) \<Longrightarrow> clean (concat xs)"
  by (induction xs) auto

lemma clean_trunc: "str_trunc s n = Some t \<Longrightarrow> clean s \<Longrightarrow> clean t"
  by (auto dest: str_trunc_SomeD)

lemma clean_split: "p \<in> set (str_split c s) \<Longrightarrow> clean s \<Longrightarrow> clean p"
  using str_split_chars clean_subset by blast

lemma clean_digit: "d < 10 \<Longrightarrow> digit d \<noteq> CHR 0x0D \<and> digit d \<noteq> CHR 0x0A"
  using digit_value_digit [of d] by (auto simp: digit_value_def)

lemma clean_show_nat [simp]: "clean (show_nat n)"
  by (induction n rule: show_nat.induct) (subst show_nat.simps, simp add: clean_digit)

lemma clean_escape [simp]: "clean (concat (map escape_char v))"
  by (rule clean_concat) (auto simp: clean_def dest: escape_char_safe)

lemma clean_command [simp]:
  assumes "\<not> is_Reply c" shows "clean (as_str c)"
proof -
  have "b \<in> set (as_str c) \<Longrightarrow> b \<notin> set ascii_whitespace" for b using command_name(3) [OF assms] by blast
  then show ?thesis by (auto simp: clean_def ascii_whitespace_def)
qed

text \<open>The constants.\<close>

lemma lines_clean [simp]:
  "clean lines_BAD_PASSWORD" "clean lines_CLOSING_LINK" "clean lines_CONNECTION_RESET"
  "clean lines_REGISTRATION_TIMEOUT" "clean lines_ADMIN_ME" "clean lines_ALREADY_REGISTERED"
  "clean lines_NOW_AWAY" "clean lines_UN_AWAY" "clean lines_BAD_CHAN_KEY" "clean lines_BANNED_FROM_CHAN"
  "clean lines_CANNOT_SEND_TO_CHAN" "clean lines_CHAN_O_PRIVS_NEEDED" "clean lines_CHANNEL_IS_FULL"
  "clean lines_END_OF_BAN_LIST" "clean lines_END_OF_EXCEPT_LIST" "clean lines_END_OF_INFO"
  "clean lines_END_OF_INVITE_LIST" "clean lines_END_OF_LIST" "clean lines_END_OF_MOTD"
  "clean lines_END_OF_NAMES" "clean lines_END_OF_WHO" "clean lines_END_OF_WHOIS"
  "clean lines_ERRONEOUS_NICKNAME" "clean lines_INPUT_TOO_LONG" "clean lines_INVITE_ONLY_CHAN"
  "clean lines_KEY_SET" "clean lines_NEED_MORE_PARAMS" "clean lines_NICKNAME_IN_USE" "clean lines_NO_MOTD"
  "clean lines_NO_TOPIC" "clean lines_NO_PRIVILEDGES" "clean lines_NO_SUCH_NICK"
  "clean lines_NO_SUCH_CHANNEL" "clean lines_NOT_ON_CHANNEL" "clean lines_NOT_REGISTERED"
  "clean lines_PASSWORD_MISMATCH" "clean lines_PART_ALL" "clean lines_REHASHING"
  "clean lines_UNKNOWN_COMMAND" "clean lines_UNKNOWN_MODE" "clean lines_USER_NOT_IN_CHANNEL"
  "clean lines_USERS_DONT_MATCH" "clean lines_USER_ON_CHANNEL" "clean lines_YOURE_OPER"
  "clean lines_WHOIS_IDLE" "clean lines_I_SUPPORT" "clean lines_LUSER_CHANNELS" "clean lines_LUSER_OP"
  "clean lines_LUSER_UNKNOWN" "clean lines_SASL_ABORTED" "clean lines_SASL_ALREADY"
  "clean lines_SASL_FAILED" "clean lines_SASL_MECHS" "clean lines_SASL_SUCCESSFUL"
  "clean lines_SASL_TOO_LONG" "clean lines_INVALID_REALNAME"
  by code_simp+

lemma rpl_clean [simp]:
  "clean rpl_WELCOME" "clean rpl_YOURHOST" "clean rpl_CREATED" "clean rpl_MYINFO" "clean rpl_ISUPPORT"
  "clean rpl_UMODEIS" "clean rpl_LUSERCLIENT" "clean rpl_LUSEROP" "clean rpl_LUSERUNKNOWN"
  "clean rpl_LUSERCHANNELS" "clean rpl_LUSERME" "clean rpl_ADMINME" "clean rpl_ADMINLOC1"
  "clean rpl_ADMINLOC2" "clean rpl_ADMINMAIL" "clean rpl_AWAY" "clean rpl_UNAWAY" "clean rpl_NOWAWAY"
  "clean rpl_WHOISUSER" "clean rpl_WHOISSERVER" "clean rpl_WHOISOPERATOR" "clean rpl_ENDOFWHO"
  "clean rpl_WHOISIDLE" "clean rpl_ENDOFWHOIS" "clean rpl_WHOISCHANNELS" "clean rpl_LIST"
  "clean rpl_LISTEND" "clean rpl_CHANNELMODEIS" "clean rpl_NOTOPIC" "clean rpl_TOPIC"
  "clean rpl_TOPICWHOTIME" "clean rpl_INVITING" "clean rpl_INVITELIST" "clean rpl_ENDOFINVITELIST"
  "clean rpl_EXCEPTLIST" "clean rpl_ENDOFEXCEPTLIST" "clean rpl_VERSION" "clean rpl_WHOREPLY"
  "clean rpl_NAMREPLY" "clean rpl_ENDOFNAMES" "clean rpl_BANLIST" "clean rpl_ENDOFBANLIST" "clean rpl_INFO"
  "clean rpl_MOTD" "clean rpl_ENDOFINFO" "clean rpl_MOTDSTART" "clean rpl_ENDOFMOTD" "clean rpl_YOUREOPER"
  "clean rpl_REHASHING" "clean rpl_TIME" "clean rpl_ERR_NOSUCHNICK" "clean rpl_ERR_NOSUCHCHANNEL"
  "clean rpl_ERR_CANNOTSENDTOCHAN" "clean rpl_ERR_INVALIDCAPCMD" "clean rpl_ERR_NORECIPIENT"
  "clean rpl_ERR_NOTEXTTOSEND" "clean rpl_ERR_INPUTTOOLONG" "clean rpl_ERR_UNKNOWNCOMMAND"
  "clean rpl_ERR_NOMOTD" "clean rpl_ERR_NONICKNAMEGIVEN" "clean rpl_ERR_ERRONEUSNICKNAME"
  "clean rpl_ERR_NICKNAMEINUSE" "clean rpl_ERR_USERNOTINCHANNEL" "clean rpl_ERR_NOTONCHANNEL"
  "clean rpl_ERR_USERONCHANNEL" "clean rpl_ERR_NOTREGISTERED" "clean rpl_ERR_NEEDMOREPARAMS"
  "clean rpl_ERR_ALREADYREGISTRED" "clean rpl_ERR_PASSWDMISMATCH" "clean rpl_ERR_YOUREBANNEDCREEP"
  "clean rpl_ERR_KEYSET" "clean rpl_ERR_CHANNELISFULL" "clean rpl_ERR_UNKNOWNMODE"
  "clean rpl_ERR_INVITEONLYCHAN" "clean rpl_ERR_BANNEDFROMCHAN" "clean rpl_ERR_BADCHANKEY"
  "clean rpl_ERR_NOPRIVILEDGES" "clean rpl_ERR_CHANOPRIVSNEEDED" "clean rpl_ERR_UMODEUNKNOWNFLAG"
  "clean rpl_ERR_USERSDONTMATCH" "clean rpl_LOGGEDIN" "clean rpl_LOGGEDOUT" "clean rpl_ERR_NICKLOCKED"
  "clean rpl_SASLSUCCESS" "clean rpl_ERR_SASLFAIL" "clean rpl_ERR_SASLTOOLONG" "clean rpl_ERR_SASLABORTED"
  "clean rpl_ERR_SASLALREADY" "clean rpl_SASLMECHS"
  by code_simp+

lemma modes_clean [simp]:
  "clean USER_MODES" "clean SIMPLE_CHAN_MODES" "clean EXTENDED_CHAN_MODES" "clean CHANMODES" "clean SERVER_VERSION"
  "clean ls_common" "list_all clean SERVER_INFO_LINES"
  by code_simp+

section \<open>Messages\<close>

fun call_clean :: "mb_call \<Rightarrow> bool" where
  "call_clean (Param p) = clean p"
| "call_clean (FmtParam p) = clean p"
| "call_clean (RawParam p) = clean p"
| "call_clean (TrailingParam p) = clean p"
| "call_clean (FmtTrailingParam p) = clean p"
| "call_clean (RawTrailingParam p) = clean p"

lemma open_line_calls: "open_line buf \<Longrightarrow> list_all call_clean cs \<Longrightarrow> open_line (fold mb_apply cs buf)"
proof (induction cs arbitrary: buf)
  case (Cons c cs)
  then have "open_line (mb_apply c buf)"
    by (cases c) (simp_all add: mb_param_def mb_fmt_param_def mb_raw_param_def mb_trailing_param_def
        mb_fmt_trailing_param_def mb_raw_trailing_param_def Let_def)
  then show ?case using Cons by simp
qed simp

lemma wire_statement [simp]: "open_line buf \<Longrightarrow> list_all call_clean cs \<Longrightarrow> wire (mb_statement cs buf)"
  by (simp add: mb_statement_def mb_drop_def open_line_calls)

lemma open_line_prefix [simp]:
  "open_line buf \<Longrightarrow> clean p \<Longrightarrow> clean (as_str c) \<Longrightarrow> open_line (mb_with_prefix buf p c)"
  by (simp add: mb_with_prefix_def)

lemma wire_buffer_message [simp]:
  "wire buf \<Longrightarrow> clean p \<Longrightarrow> clean (as_str c) \<Longrightarrow> list_all call_clean cs \<Longrightarrow> wire (buffer_message p c cs buf)"
  by (simp add: buffer_message_def)

section \<open>Tags\<close>

definition tags_open :: "tag_buffer \<Rightarrow> bool" where
  "tags_open tb \<longleftrightarrow> (\<exists>w x. tags_of w tb x \<and> wire w \<and> clean x)"

lemma tags_open_new: "wire w \<Longrightarrow> tags_open (tb_new w)"
  using tags_of_new [of w] unfolding tags_open_def by (intro exI [of _ w] exI [of _ "[]"]) simp

lemma tags_open_sep: "tags_open tb \<Longrightarrow> clean s \<Longrightarrow> tags_open (tb\<lparr>tb_buf := tb_sep tb @ s\<rparr>)"
proof -
  assume "tags_open tb" "clean s"
  then obtain w x where "tags_of w tb x" "wire w" "clean x" by (auto simp: tags_open_def)
  moreover from this have "tags_of w (tb\<lparr>tb_buf := tb_sep tb @ s\<rparr>) (x @ (if x = [] then [] else '';'') @ s)"
    by (auto simp: tags_of_def tb_sep_def tb_is_empty_def)
  moreover have "clean (x @ (if x = [] then [] else '';'') @ s)" using \<open>clean x\<close> \<open>clean s\<close> by simp
  ultimately show ?thesis unfolding tags_open_def by blast
qed

lemma tags_open_raw_tag: "tags_open tb \<Longrightarrow> clean s \<Longrightarrow> tags_open (tb_raw_tag s tb)"
  by (simp add: tb_raw_tag_def tags_open_sep)

lemma tags_open_tag [simp]: "tags_open tb \<Longrightarrow> clean k \<Longrightarrow> tags_open (tb_tag k v tb)"
  using tags_open_sep [of tb k] tags_open_sep [of tb "k @ ''='' @ concat (map escape_char (the v))"]
  by (cases v) (simp_all add: tb_tag_def write_escaped_def Let_def)

lemma tags_open_tags: "tags_open tb \<Longrightarrow> \<forall>(k, v) \<in> set kvs. clean k \<Longrightarrow> tags_open (fold (\<lambda>(k, v). tb_tag k v) kvs tb)"
  by (induction kvs arbitrary: tb) auto

lemma tags_open_tagged [simp]:
  assumes "wire buf" and "clean tgs"
  shows "tags_open (buffer_tagged_message tgs buf)"
proof -
  have raw: "tags_open tb \<Longrightarrow> (\<And>s. s \<in> set ss \<Longrightarrow> clean s) \<Longrightarrow> tags_open (fold tb_raw_tag ss tb)" for ss tb
    by (induction ss arbitrary: tb) (auto intro: tags_open_raw_tag)
  show ?thesis unfolding buffer_tagged_message_def
    by (rule raw [OF tags_open_new [OF assms(1)]]) (use assms(2) clean_split in auto)
qed

lemma open_line_prefixed [simp]:
  assumes "tags_open tb" "clean p" "clean (as_str c)"
  shows "open_line (tb_prefixed_command p c tb)"
proof -
  obtain w x where "tags_of w tb x" "wire w" "clean x" using assms(1) by (auto simp: tags_open_def)
  moreover have "butlast (w @ ''@'') = w" by simp
  ultimately have "open_line (if tb_is_empty tb then butlast (tb_buf tb) else tb_buf tb @ '' '')"
    by (auto simp: tags_of_def tb_is_empty_def simp flip: append_assoc)
  then show ?thesis using assms(2,3) by (simp add: tb_prefixed_command_def)
qed

section \<open>Reply buffers\<close>

definition rb_wire :: "reply_buffer \<Rightarrow> bool" where
  "rb_wire rb \<longleftrightarrow> wire (rb_buf rb) \<and> clean (rb_domain rb) \<and> clean (rb_nick rb)"

lemma rb_wire_tagged_statement [simp]:
  assumes "rb_wire rb" "clean tgs" "\<forall>(k, v) \<in> set kvs. clean k" "clean p" "clean (as_str c)" "list_all call_clean cs"
  shows "rb_wire (rb_tagged_statement tgs kvs p c cs rb)"
  using assms
  by (auto simp: rb_wire_def rb_tagged_statement_def rb_tagged_message_def Let_def tags_open_tags split: option.splits)

lemma rb_wire_message [simp]:
  "rb_wire rb \<Longrightarrow> clean p \<Longrightarrow> clean (as_str c) \<Longrightarrow> list_all call_clean cs \<Longrightarrow> rb_wire (rb_message p c cs rb)"
  by (simp add: rb_message_def)

lemma rb_wire_prefixed_message [simp]:
  "rb_wire rb \<Longrightarrow> clean (as_str c) \<Longrightarrow> list_all call_clean cs \<Longrightarrow> rb_wire (rb_prefixed_message c cs rb)"
  unfolding rb_prefixed_message_def by (rule rb_wire_message) (simp_all add: rb_wire_def)

lemma rb_wire_reply [simp]:
  "rb_wire rb \<Longrightarrow> clean (as_str c) \<Longrightarrow> list_all call_clean cs \<Longrightarrow> rb_wire (rb_reply c cs rb)"
  unfolding rb_reply_def by (rule rb_wire_prefixed_message) (simp_all add: rb_wire_def)

lemma rb_wire_set_nick [simp]: "rb_wire rb \<Longrightarrow> clean n \<Longrightarrow> rb_wire (rb_set_nick n rb)"
  by (simp add: rb_wire_def rb_set_nick_def)

lemma rb_wire_fields [simp]:
  "rb_wire (rb\<lparr>rb_batch := x\<rparr>) = rb_wire rb" "rb_wire (rb\<lparr>rb_has_label := y\<rparr>) = rb_wire rb"
  by (simp_all add: rb_wire_def)

lemma rb_wire_lr_batch_begin [simp]: "rb_wire rb \<Longrightarrow> rb_wire (rb_lr_batch_begin rb)"
  by (auto simp: rb_lr_batch_begin_def rb_new_batch_def rb_wire_def Let_def)

lemma rb_wire_lr_end: "rb_wire rb \<Longrightarrow> wp True (rb_lr_end rb) rb_wire"
  by (auto simp: rb_lr_end_def rb_batch_end_def Let_def split: option.splits)

lemma rb_wire_fold:
  "rb_wire rb \<Longrightarrow> (\<And>x rb. x \<in> set xs \<Longrightarrow> rb_wire rb \<Longrightarrow> rb_wire (f x rb)) \<Longrightarrow> rb_wire (fold f xs rb)"
  by (induction xs arbitrary: rb) auto

lemma rb_wire_client_reply: "clean (cl_domain c) \<Longrightarrow> clean (cl_nick c) \<Longrightarrow> rb_wire (client_reply c label)"
  by (simp add: client_reply_def rb_new_def rb_wire_def wire_Nil)

section \<open>Queue items\<close>

text \<open>An item is whole lines, whether it is sent with its tags or without them; reading it does not panic.\<close>

definition item_lines :: "queue_item \<Rightarrow> bool" where
  "item_lines it \<longleftrightarrow>
     wire (qi_buf it) \<and> clean (take (qi_start it) (qi_buf it)) \<and> queue_item_as_ref it \<noteq> None"

lemma as_ref_whole: "qi_start it = 0 \<Longrightarrow> queue_item_as_ref it = Some (qi_buf it)"
  by (simp add: queue_item_as_ref_def str_from_def)

lemma item_lines_from [simp]: "item_lines (queue_item_from s) = wire s"
  by (simp add: item_lines_def as_ref_whole queue_item_from_def)

lemma item_lines_send [simp]: "item_lines it \<Longrightarrow> item_lines (client_send c it)"
  by (simp add: item_lines_def as_ref_whole client_send_def)

lemma item_lines_read:
  assumes "item_lines it" and "queue_item_as_ref it = Some s"
  shows "wire s"
proof -
  have "s = drop (qi_start it) (qi_buf it)"
    using assms(2) by (auto simp: queue_item_as_ref_def str_from_def split: if_splits)
  then show ?thesis
    using assms(1) wire_suffix [of "take (qi_start it) (qi_buf it)" "drop (qi_start it) (qi_buf it)"]
    by (simp add: item_lines_def)
qed

text \<open>The item that \<open>message_build\<close> makes: the part that may be cut off is the tags.\<close>

lemma item_lines_tagged:
  assumes "tags_of [] msg x" and "clean x" and "clean p" and c: "\<not> is_Reply c" and "list_all call_clean cs"
  shows "item_lines ((queue_item_from (mb_statement cs (tb_prefixed_command p c msg)))\<lparr>qi_start := tb_save_tag_len msg\<rparr>)"
proof -
  let ?buf = "mb_statement cs (tb_prefixed_command p c msg)" and ?n = "tb_save_tag_len msg"
  have msg: "tb_buf msg = ''@'' @ x" "tb_start msg = 0" using assms(1) by (simp_all add: tags_of_def)
  have "tags_open msg" using assms(1,2) wire_Nil unfolding tags_open_def by blast
  then have wire: "wire ?buf" using assms by simp
  have "clean (take ?n ?buf) \<and> ?n \<le> length ?buf \<and> is_char_boundary ?buf ?n"
  proof (cases "tb_buf msg \<noteq> [] \<and> last (tb_buf msg) = CHR ''@''")
    case False
    then have x: "x \<noteq> []" using msg by auto
    obtain y where y: "?buf = tb_prefixed_command p c msg @ y"
      using mb_statement_appends by blast
    define z where "z = (if p = [] then [] else '':'' @ p @ '' '') @ as_str c"
    have "tb_prefixed_command p c msg = (''@'' @ x @ '' '') @ z"
      using x msg by (simp add: z_def tb_prefixed_command_def tb_is_empty_def mb_with_prefix_def)
    then have buf: "?buf = (''@'' @ x @ '' '') @ z @ y" using y by simp
    have n: "?n = length (''@'' @ x @ '' '')" using False msg by (simp add: tb_save_tag_len_def)
    have "z \<noteq> []" "\<not> is_cont (hd z)"
      using command_word_ok [OF c] ascii_not_cont [of "CHR '':''"] by (auto simp: z_def word_ok_def is_ascii_def)
    moreover have "?buf ! ?n = (z @ y) ! 0" unfolding buf n by (simp only: nth_append_length_plus [of _ _ 0, simplified])
    ultimately have "\<not> is_cont (?buf ! ?n) \<and> ?n < length ?buf"
      unfolding buf n by (cases z) simp_all
    moreover have "take ?n ?buf = ''@'' @ x @ '' ''" unfolding buf n by simp
    ultimately show ?thesis using assms(2) by (simp add: is_char_boundary_def)
  qed (simp add: tb_save_tag_len_def)
  then show ?thesis using wire by (simp add: item_lines_def queue_item_from_def queue_item_as_ref_def str_from_def)
qed

end
