(* ===== verification/WireState.thy ===== *)
theory WireState
  imports WireText
begin

text \<open>
  The state holds texts without line ends only, and everything that has been sent is a sequence of
  lines: the invariant \<open>tidy\<close>, and the operations that the handlers share.
\<close>

section \<open>The invariant\<close>

definition clean_opt :: "string option \<Rightarrow> bool" where
  "clean_opt s \<longleftrightarrow> (case s of None \<Rightarrow> True | Some x \<Rightarrow> clean x)"

lemma clean_opt_iff: "clean_opt s \<longleftrightarrow> (\<forall>x. s = Some x \<longrightarrow> clean x)"
  by (simp add: clean_opt_def split: option.splits)

lemma clean_opt_simps [simp]: "clean_opt None" "clean_opt (Some x) = clean x"
  by (simp_all add: clean_opt_def)

definition client_clean :: "client \<Rightarrow> bool" where
  "client_clean c \<longleftrightarrow>
     clean (cl_domain c) \<and> clean (cl_nick c) \<and> clean (cl_user c) \<and> clean (cl_real c) \<and> clean (cl_host c)
     \<and> clean (cl_full_name c) \<and> clean_opt (cl_account c) \<and> clean_opt (cl_away_message c)"

definition channel_clean :: "channel \<Rightarrow> bool" where
  "channel_clean ch \<longleftrightarrow>
     (case ch_topic ch of None \<Rightarrow> True | Some t \<Rightarrow> clean (tp_content t) \<and> clean (tp_who t))
     \<and> clean_opt (ch_key ch) \<and> clean (ch_ban_mask ch) \<and> clean (ch_exception_mask ch) \<and> clean (ch_invex_mask ch)"

lemma channel_clean_iff:
  "channel_clean ch \<longleftrightarrow>
     (\<forall>t. ch_topic ch = Some t \<longrightarrow> clean (tp_content t) \<and> clean (tp_who t))
     \<and> clean_opt (ch_key ch) \<and> clean (ch_ban_mask ch) \<and> clean (ch_exception_mask ch) \<and> clean (ch_invex_mask ch)"
  by (simp add: channel_clean_def split: option.splits)

text \<open>The texts of the configuration; the lines of the message of the day are sent one by one, so only
  a carriage return within a line would be harmful.\<close>

definition motd_clean :: "string option \<Rightarrow> bool" where
  "motd_clean motd \<longleftrightarrow> (case motd of None \<Rightarrow> True | Some m \<Rightarrow> list_all clean (str_lines m))"

lemma motd_clean_iff: "motd_clean motd \<longleftrightarrow> (\<forall>m. motd = Some m \<longrightarrow> (\<forall>l \<in> set (str_lines m). clean l))"
  by (simp add: motd_clean_def list_all_iff split: option.splits)

definition texts_clean :: "server \<Rightarrow> bool" where
  "texts_clean sv \<longleftrightarrow>
     clean (sv_domain sv) \<and> clean (sv_org_name sv) \<and> clean (sv_org_location sv) \<and> clean (sv_org_mail sv)
     \<and> clean (sv_created_at sv) \<and> motd_clean (sv_motd sv)"

definition tidy :: "server \<Rightarrow> bool" where
  "tidy sv \<longleftrightarrow>
     texts_clean sv
     \<and> (\<forall>e \<in> set (sv_clients sv). client_clean (snd e))
     \<and> (\<forall>e \<in> set (sv_nicks sv). clean (fst e))
     \<and> (\<forall>e \<in> set (sv_channels sv). clean (fst e) \<and> channel_clean (snd e))
     \<and> (\<forall>e \<in> set (sv_sent sv). item_lines (snd e))"

lemma client_clean_flags [simp]:
  "client_clean (c\<lparr>cl_has_given_password := a\<rparr>) = client_clean c" "client_clean (c\<lparr>cl_operator := b\<rparr>) = client_clean c"
  "client_clean (c\<lparr>cl_cap_version := v\<rparr>) = client_clean c" "client_clean (c\<lparr>cl_cap_enabled := e\<rparr>) = client_clean c"
  "client_clean (c\<lparr>cl_state := st\<rparr>) = client_clean c" "client_clean (c\<lparr>cl_invisible := i\<rparr>) = client_clean c"
  by (simp_all add: client_clean_def)

lemma client_clean_texts [simp]:
  "client_clean c \<Longrightarrow> clean n \<Longrightarrow> client_clean (set_nick n c)"
  "client_clean c \<Longrightarrow> clean n \<Longrightarrow> client_clean (set_user n c)"
  "client_clean c \<Longrightarrow> clean n \<Longrightarrow> client_clean (set_real n c)"
  "client_clean c \<Longrightarrow> clean_opt m \<Longrightarrow> client_clean (c\<lparr>cl_away_message := m\<rparr>)"
  "client_clean c \<Longrightarrow> client_clean (update_idle_time now c)"
  by (simp_all add: client_clean_def set_nick_def set_user_def set_real_def update_full_name_def update_idle_time_def)

lemma client_clean_new: "clean domain \<Longrightarrow> clean host \<Longrightarrow> client_clean (client_new now domain host)"
  by (simp add: client_clean_def client_new_def)

section \<open>Reading the state\<close>

lemma tidy_client: "iget i (sv_clients sv) = Some c \<Longrightarrow> tidy sv \<Longrightarrow> client_clean c"
  using tget_SomeD [of ikey i "sv_clients sv" c] by (fastforce simp: tidy_def)

lemma tidy_channel: "uget n (sv_channels sv) = Some ch \<Longrightarrow> tidy sv \<Longrightarrow> channel_clean ch"
  using tget_SomeD [of ukey n "sv_channels sv" ch] by (fastforce simp: tidy_def)

lemma tidy_entry: "tidy sv \<Longrightarrow> (n, ch) \<in> set (sv_channels sv) \<Longrightarrow> clean n \<and> channel_clean ch"
  by (fastforce simp: tidy_def)

lemma tidy_texts [simp]:
  assumes "tidy sv"
  shows "clean (sv_domain sv)" "clean (sv_org_name sv)" "clean (sv_org_location sv)" "clean (sv_org_mail sv)"
    "clean (sv_created_at sv)" "motd_clean (sv_motd sv)"
  using assms by (simp_all add: tidy_def texts_clean_def)

lemma client_clean_fields [simp]:
  assumes "client_clean c"
  shows "clean (cl_domain c)" "clean (cl_nick c)" "clean (cl_user c)" "clean (cl_real c)" "clean (cl_host c)"
    "clean (cl_full_name c)" "clean_opt (cl_account c)" "clean_opt (cl_away_message c)"
  using assms by (simp_all add: client_clean_def)

lemma clean_optD: "clean_opt s \<Longrightarrow> s = Some x \<Longrightarrow> clean x"
  by simp

lemma client_clean_away: "client_clean c \<Longrightarrow> cl_away_message c = Some m \<Longrightarrow> clean m"
  using clean_optD [OF client_clean_fields(8)] by blast

lemma client_clean_account: "client_clean c \<Longrightarrow> cl_account c = Some a \<Longrightarrow> clean a"
  using clean_optD [OF client_clean_fields(7)] by blast

section \<open>Changing the state\<close>

lemma texts_clean_fields [simp]:
  "texts_clean (sv\<lparr>sv_clients := cs\<rparr>) = texts_clean sv" "texts_clean (sv\<lparr>sv_nicks := ns\<rparr>) = texts_clean sv"
  "texts_clean (sv\<lparr>sv_channels := chans\<rparr>) = texts_clean sv" "texts_clean (sv\<lparr>sv_sent := d\<rparr>) = texts_clean sv"
  "texts_clean (sv\<lparr>sv_rehash_notified := k\<rparr>) = texts_clean sv"
  by (simp_all add: texts_clean_def)

lemma tidy_post [simp]: "tidy (post sv d) \<longleftrightarrow> tidy sv \<and> (\<forall>e \<in> set d. item_lines (snd e))"
  by (auto simp: tidy_def post_def)

lemma wire_deliveries [simp]:
  "(\<And>m c it. item m c = Some it \<Longrightarrow> item_lines it) \<Longrightarrow>
     \<forall>e \<in> set (deliveries item clients ms). item_lines (snd e)"
  by (auto simp: deliveries_def split: option.splits)

lemma tidy_upd_client [simp]:
  assumes "tidy sv" and "\<And>c. client_clean c \<Longrightarrow> client_clean (f c)"
  shows "tidy (sv\<lparr>sv_clients := iupd i f (sv_clients sv)\<rparr>)"
  using assms by (auto simp: tidy_def set_tupd)

lemma tidy_put_client: "tidy sv \<Longrightarrow> client_clean c \<Longrightarrow> tidy (sv\<lparr>sv_clients := iput i c (sv_clients sv)\<rparr>)"
  using set_tput [of ikey i c "sv_clients sv"] by (auto simp: tidy_def)

lemma tidy_del_client: "tidy sv \<Longrightarrow> tidy (sv\<lparr>sv_clients := idel i (sv_clients sv)\<rparr>)"
  by (auto simp: tidy_def)

lemma tidy_nicks: "tidy sv \<Longrightarrow> (\<And>e. e \<in> set ns \<Longrightarrow> clean (fst e)) \<Longrightarrow> tidy (sv\<lparr>sv_nicks := ns\<rparr>)"
  by (auto simp: tidy_def)

lemma tidy_channels:
  "tidy sv \<Longrightarrow> (\<And>e. e \<in> set chans \<Longrightarrow> clean (fst e) \<and> channel_clean (snd e)) \<Longrightarrow>
     tidy (sv\<lparr>sv_channels := chans\<rparr>)"
  by (auto simp: tidy_def)

lemma tidy_upd_channel [simp]:
  assumes "tidy sv" and "\<And>ch. channel_clean ch \<Longrightarrow> channel_clean (f ch)"
  shows "tidy (sv\<lparr>sv_channels := uupd n f (sv_channels sv)\<rparr>)"
  using assms by (auto simp: tidy_def set_tupd)

lemma tidy_del_channel [simp]: "tidy sv \<Longrightarrow> tidy (sv\<lparr>sv_channels := udel n (sv_channels sv)\<rparr>)"
  by (auto simp: tidy_def)

lemma tidy_put_channel:
  "tidy sv \<Longrightarrow> clean n \<Longrightarrow> channel_clean ch \<Longrightarrow> tidy (sv\<lparr>sv_channels := uput n ch (sv_channels sv)\<rparr>)"
  using set_tput [of ukey n ch "sv_channels sv"] by (fastforce simp: tidy_def)

lemma channel_clean_members [simp]:
  "channel_clean (ch\<lparr>ch_members := ms\<rparr>) = channel_clean ch"
  "channel_clean (ch\<lparr>ch_invites := is\<rparr>) = channel_clean ch"
  by (simp_all add: channel_clean_iff)

lemma channel_clean_empty [simp]: "channel_clean channel_empty"
  by (simp add: channel_clean_iff channel_empty_def mask_set_new_def)

lemma channel_clean_add_member [simp]: "channel_clean (add_member i ch) = channel_clean ch"
  by (simp add: add_member_def channel_clean_iff Let_def)

section \<open>Operations shared by the handlers\<close>

lemmas wp_reads =
  wpI [where m = "tget f k t" for f k t] wpI [where m = "match_mask p s" for p s]
  wpI [where m = "mask_is_channel p" for p]
  wpI [where m = "find_nick n sv rb" for n sv rb]

lemma wp_client:
  "tidy sv \<Longrightarrow> (\<And>c. iget i (sv_clients sv) = Some c \<Longrightarrow> client_clean c \<Longrightarrow> P c) \<Longrightarrow> wp True (iget i (sv_clients sv)) P"
  by (rule wpI) (auto dest: tidy_client)

lemma wp_trunc_clean: "clean s \<Longrightarrow> (\<And>t. clean t \<Longrightarrow> P t) \<Longrightarrow> wp True (str_trunc s n) P"
  by (rule wpI) (auto dest: clean_trunc)

text \<open>A handler leaves a tidy state and a reply buffer of whole lines, if it returns.\<close>

definition delivers :: "handled \<Rightarrow> bool" where
  "delivers m \<longleftrightarrow> wp True m (\<lambda>(res, s, rb). tidy s \<and> rb_wire rb)"

lemma rb_wire_shared [simp]:
  "rb_wire rb \<Longrightarrow> clean name \<Longrightarrow> rb_wire (reply_no_such_channel name rb)"
  "rb_wire rb \<Longrightarrow> clean name \<Longrightarrow> rb_wire (users_dont_match name rb)"
  "rb_wire rb \<Longrightarrow> clean name \<Longrightarrow> rb_wire (end_of_who name rb)"
  "rb_wire rb \<Longrightarrow> clean name \<Longrightarrow> rb_wire (not_on_channel name rb)"
  "rb_wire rb \<Longrightarrow> clean name \<Longrightarrow> rb_wire (chan_o_privs_needed name rb)"
  "rb_wire rb \<Longrightarrow> rb_wire (no_priviledges rb)"
  by (simp_all add: reply_no_such_channel_def users_dont_match_def end_of_who_def not_on_channel_def
      chan_o_privs_needed_def no_priviledges_def)

lemma rb_wire_find_channel: "find_channel name sv rb = Inl rb' \<Longrightarrow> rb_wire rb \<Longrightarrow> clean name \<Longrightarrow> rb_wire rb'"
  by (auto simp: find_channel_def split: option.splits)

lemma rb_wire_find_member: "find_member i ch name rb = Inl rb' \<Longrightarrow> rb_wire rb \<Longrightarrow> clean name \<Longrightarrow> rb_wire rb'"
  by (auto simp: find_member_def split: option.splits)

lemma rb_wire_find_nick: "find_nick nick sv rb = Some (Inl rb') \<Longrightarrow> rb_wire rb \<Longrightarrow> clean nick \<Longrightarrow> rb_wire rb'"
  by (auto simp: find_nick_def Let_def split: option.splits if_splits)

lemma find_nick_client: "find_nick nick sv rb = Some (Inr (j, c)) \<Longrightarrow> iget j (sv_clients sv) = Some c"
  by (auto simp: find_nick_def Let_def split: option.splits if_splits)

lemma made_lines_clean [simp]:
  "clean (lines_luser_client n) = clean n" "clean (lines_luser_me n) = clean n"
  "clean (lines_motd_start domain) = clean domain" "clean (lines_welcome nick) = clean nick"
  "clean (lines_your_host host version) \<longleftrightarrow> clean host \<and> clean version" "clean (lines_created since) = clean since"
  by (simp_all add: lines_luser_client_def lines_luser_me_def lines_motd_start_def lines_welcome_def
      lines_your_host_def lines_created_def)

lemma find_nick_clean: "find_nick nick sv rb = Some (Inr (j, c)) \<Longrightarrow> tidy sv \<Longrightarrow> client_clean c"
  using find_nick_client tidy_client by blast

lemma rb_wire_send_i_support [simp]: "rb_wire rb \<Longrightarrow> rb_wire (send_i_support sv rb)"
  by (simp add: send_i_support_def)

lemma rb_wire_send_lusers [simp]: "rb_wire rb \<Longrightarrow> rb_wire (send_lusers i sv rb)"
  by (simp add: send_lusers_def Let_def)

lemma rb_wire_send_motd [simp]: "tidy sv \<Longrightarrow> rb_wire rb \<Longrightarrow> rb_wire (send_motd sv rb)"
  using tidy_texts(6) [of sv]
  by (auto simp: send_motd_def motd_clean_iff Let_def intro!: rb_wire_reply rb_wire_fold
      split: option.splits)

lemma rb_wire_send_welcome: "tidy sv \<Longrightarrow> rb_wire rb \<Longrightarrow> wp True (send_welcome i sv rb) rb_wire"
  by (auto simp: send_welcome_def Let_def
      dest: tidy_client intro!: wpI)

lemma clean_symbols [simp]: "clean (all_symbols m [])" "member_symbol m = Some s \<Longrightarrow> clean [s]"
  by (auto simp: all_symbols_def member_symbol_def split: if_splits)

lemma clean_names_text:
  assumes "tidy sv"
  shows "names_text caps (sv_clients sv) ms = Some t \<Longrightarrow> clean t"
proof (induction ms arbitrary: t)
  case (Cons e ms)
  then show ?case using tidy_client [OF _ assms] clean_symbols(2)
    by (cases e) (auto split: option.splits if_splits)
qed simp

lemma rb_wire_send_names: "tidy sv \<Longrightarrow> rb_wire rb \<Longrightarrow> clean name \<Longrightarrow> wp True (send_names i name sv rb) rb_wire"
  using clean_names_text [of sv]
  by (auto simp: send_names_def channel_symbol_def intro!: wpI split: option.splits)

lemma rb_wire_send_topic: "tidy sv \<Longrightarrow> rb_wire rb \<Longrightarrow> clean name \<Longrightarrow> wp True (send_topic name e sv rb) rb_wire"
  by (auto simp: send_topic_def channel_clean_iff dest: tidy_channel intro!: wpI split: option.splits)

end
