(* ===== verification/WireQueries.thy ===== *)
theory WireQueries
  imports WireState
begin

text \<open>
  The handlers that only answer leave the state as it is and write whole
  lines.
\<close>

section \<open>Queries\<close>

lemma clean_filter_names: "n \<in> set (channel_names s) \<Longrightarrow> clean s \<Longrightarrow> clean n"
  "n \<in> set (nicknames s) \<Longrightarrow> clean s \<Longrightarrow> clean n" "k \<in> set (list_iter key_try_from (CHR '','') s) \<Longrightarrow> clean s \<Longrightarrow> clean k"
  using clean_split [of _ "CHR '',''" s]
  by (auto simp: list_iter_def channel_name_try_from_def nickname_try_from_def key_try_from_def split: if_splits)

lemma rb_wire_list_line: "rb_wire rb \<Longrightarrow> clean name \<Longrightarrow> channel_clean ch \<Longrightarrow> rb_wire (list_line name ch rb)"
  by (auto simp: list_line_def list_entry_def channel_clean_iff split: option.splits)

lemma rb_wire_who_line:
  "tidy sv \<Longrightarrow> client_clean t \<Longrightarrow> rb_wire rb \<Longrightarrow> clean name \<Longrightarrow> rb_wire (who_line sv issuer t name modes rb)"
  using clean_symbols(2) by (auto simp: who_line_def split: option.splits)

lemma who_found_clean:
  "who_find_channel i issuer j t chans = Some (name, m) \<Longrightarrow> \<forall>e \<in> set chans. clean (fst e) \<Longrightarrow> clean name"
  by (induction i issuer j t chans rule: who_find_channel.induct) (auto split: option.splits if_splits)

lemma rb_wire_who_user:
  assumes "tidy sv" and "rb_wire rb"
  shows "wp True (who_user i issuer j flt sv rb) rb_wire"
proof -
  have "\<forall>e \<in> set (sv_channels sv). clean (fst e)" using assms(1) by (simp add: tidy_def)
  then show ?thesis using assms
    by (auto simp: who_user_def Let_def dest: tidy_client who_found_clean intro!: wpI rb_wire_who_line split: option.splits)
qed

lemma rb_wire_who_users: "tidy sv \<Longrightarrow> rb_wire rb \<Longrightarrow> wp True (who_users i issuer ts flt sv rb) rb_wire"
  by (induction ts arbitrary: rb) (auto intro!: wp_mono [OF rb_wire_who_user])

lemma rb_wire_who_members:
  "tidy sv \<Longrightarrow> rb_wire rb \<Longrightarrow> clean name \<Longrightarrow> wp True (who_members issuer name skip ms sv rb) rb_wire"
proof (induction ms arbitrary: rb)
  case (Cons e ms)
  then show ?case by (cases e) (auto dest: tidy_client intro!: wp_reads Cons.IH rb_wire_who_line)
qed simp

lemma rb_wire_who_mask_channels:
  "tidy sv \<Longrightarrow> rb_wire rb \<Longrightarrow> \<forall>e \<in> set chans. clean (fst e) \<Longrightarrow> wp True (who_mask_channels issuer msk chans sv rb) rb_wire"
proof (induction chans arbitrary: rb)
  case (Cons e chans)
  then have "wp True (if m then who_members issuer (fst e) (\<lambda>_ _. False) (ch_members (snd e)) sv rb else Some rb)
      (\<lambda>rb. wp True (who_mask_channels issuer msk chans sv rb) rb_wire)" for m
    by (auto intro!: wp_mono [OF rb_wire_who_members])
  note this [of True] this [of False]
  then show ?case by (cases e) (auto intro!: wp_reads)
qed simp

lemma rb_wire_who_mask_nicks:
  "tidy sv \<Longrightarrow> rb_wire rb \<Longrightarrow> wp True (who_mask_nicks i issuer msk ns flt sv rb) rb_wire"
proof (induction ns arbitrary: rb)
  case (Cons e ns)
  then have "wp True (if m then who_user i issuer (snd e) flt sv rb else Some rb)
      (\<lambda>rb. wp True (who_mask_nicks i issuer msk ns flt sv rb) rb_wire)" for m
    by (auto intro!: wp_mono [OF rb_wire_who_user])
  note this [of True] this [of False]
  then show ?case by (cases e) (auto intro!: wp_reads)
qed simp

lemma rb_wire_names_loop:
  "tidy sv \<Longrightarrow> rb_wire rb \<Longrightarrow> (\<And>n. n \<in> set ns \<Longrightarrow> clean n) \<Longrightarrow> wp True (names_loop i ns sv rb) rb_wire"
  by (induction ns arbitrary: rb) (auto intro!: wp_mono [OF rb_wire_send_names])

lemma info_queries_deliver:
  assumes "tidy sv" and "rb_wire rb"
  shows "delivers (cmd_admin sv rb)" "delivers (cmd_info sv rb)" "delivers (cmd_lusers i sv rb)"
    "delivers (cmd_motd sv rb)" "clean (env_time_str env) \<Longrightarrow> delivers (cmd_time env sv rb)" "delivers (cmd_version sv rb)"
    "clean payload \<Longrightarrow> delivers (cmd_ping payload sv rb)" "delivers (cmd_pong sv rb)" "delivers (cmd_cap_end sv rb)"
    "delivers (cmd_names_all sv rb)" "delivers (cmd_authenticate auth sv rb)"
    "delivers (cmd_message_all feedback cmd content sv rb)"
  using assms modes_clean(7)
  by (auto simp: delivers_def cmd_admin_def cmd_info_def cmd_lusers_def cmd_motd_def cmd_time_def cmd_version_def
      cmd_ping_def cmd_pong_def cmd_cap_end_def cmd_names_all_def cmd_authenticate_def cmd_message_all_def Let_def
      list_all_iff intro!: rb_wire_reply rb_wire_fold)

lemma capability_texts_clean [simp]: "clean (cap_str c)"
  by (cases c) simp_all

lemma clean_pop: "clean s \<Longrightarrow> clean (pop_if_longer n s)"
  by (simp add: pop_if_longer_def)

lemma clean_fold: "clean s \<Longrightarrow> (\<And>x s. clean s \<Longrightarrow> clean (f x s)) \<Longrightarrow> clean (fold f xs s)"
  by (induction xs arbitrary: s) auto

lemma capability_lists_clean [simp]: "clean (capabilities_write cs [])" "clean (cap_diff_write d [])"
  unfolding capabilities_write_def cap_diff_write_def
  by (auto intro!: clean_pop clean_fold split: option.splits)

lemma list_queries_deliver:
  assumes "tidy sv" and "rb_wire rb"
  shows "delivers (cmd_list_all i sv rb)" and "clean s \<Longrightarrow> delivers (cmd_list i s sv rb)"
    and "clean s \<Longrightarrow> delivers (cmd_names i s sv rb)" and "delivers (cmd_cap_list i sv rb)"
proof -
  show "delivers (cmd_list_all i sv rb)"
    using assms tidy_entry [of sv]
    by (auto simp: delivers_def cmd_list_all_def intro!: wpI rb_wire_fold rb_wire_reply rb_wire_list_line)
  show "clean s \<Longrightarrow> delivers (cmd_list i s sv rb)"
    using assms
    by (auto simp: delivers_def cmd_list_def intro!: wpI rb_wire_fold rb_wire_reply rb_wire_list_line
        dest: clean_filter_names tidy_channel split: option.splits)
  show "clean s \<Longrightarrow> delivers (cmd_names i s sv rb)"
    using assms clean_filter_names(1) [of _ s]
    by (auto simp: delivers_def cmd_names_def intro!: wp_mono [OF rb_wire_names_loop])
  show "delivers (cmd_cap_list i sv rb)"
    using assms by (auto simp: delivers_def cmd_cap_list_def intro!: wpI)
qed

lemma mode_queries_deliver:
  assumes "tidy sv" and "rb_wire rb" and "clean name"
  shows "delivers (cmd_mode_channel_get i name sv rb)" "delivers (cmd_mode_user_get i name sv rb)"
    "delivers (cmd_topic_get i name sv rb)"
proof -
  have letters: "clean (modes_letters ch)" for ch by (simp add: modes_letters_def)
  show "delivers (cmd_mode_channel_get i name sv rb)"
    using assms letters clean_optD
    by (auto simp: delivers_def cmd_mode_channel_get_def find_channel_Inr channel_modes_def channel_clean_iff
        intro!: wpI split: sum.splits option.splits dest: rb_wire_find_channel tidy_channel)
  show "delivers (cmd_mode_user_get i name sv rb)"
    using assms by (auto simp: delivers_def cmd_mode_user_get_def write_modes_def intro!: wpI)
  show "delivers (cmd_topic_get i name sv rb)"
    using assms
    by (auto simp: delivers_def cmd_topic_get_def intro!: wp_mono [OF rb_wire_send_topic]
        split: sum.splits if_splits dest: rb_wire_find_channel rb_wire_find_member)
qed

lemma who_queries_deliver:
  assumes "tidy sv" and "rb_wire rb"
  shows "clean name \<Longrightarrow> delivers (cmd_who_channel i name flt sv rb)" "clean name \<Longrightarrow> delivers (cmd_who_mask i name flt sv rb)"
    "clean name \<Longrightarrow> delivers (cmd_who_user i name flt sv rb)" "delivers (cmd_who_all i flt sv rb)"
    "clean name \<Longrightarrow> delivers (cmd_whois env name sv rb)"
proof -
  have names: "\<forall>e \<in> set (sv_channels sv). clean (fst e)" using assms(1) by (simp add: tidy_def)
  show "clean name \<Longrightarrow> delivers (cmd_who_channel i name flt sv rb)"
    using assms
    by (auto simp: delivers_def cmd_who_channel_def Let_def intro!: wpI dest: wp_partial [OF rb_wire_who_members, rotated 3]
        split: option.splits if_splits)
  show "clean name \<Longrightarrow> delivers (cmd_who_mask i name flt sv rb)"
    using assms names
    by (auto simp: delivers_def cmd_who_mask_def Let_def
        intro!: wp_reads wp_mono [OF rb_wire_who_mask_channels] wp_mono [OF rb_wire_who_mask_nicks])
  show "clean name \<Longrightarrow> delivers (cmd_who_user i name flt sv rb)"
    using assms
    by (auto simp: delivers_def cmd_who_user_def Let_def intro!: wpI dest: wp_partial [OF rb_wire_who_user, rotated 2]
        split: option.splits)
  show "delivers (cmd_who_all i flt sv rb)"
    using assms by (auto simp: delivers_def cmd_who_all_def Let_def intro!: wpI dest: wp_partial [OF rb_wire_who_users, rotated 2])
  have known: "client_clean t \<and> clean_opt (cl_away_message t)" if "find_nick name sv rb = Some (Inr (j, t))" for j t
    using find_nick_clean [OF that assms(1)] by simp
  show "clean name \<Longrightarrow> delivers (cmd_whois env name sv rb)"
    unfolding delivers_def cmd_whois_def wp_bind
  proof (rule wpI, goal_cases)
    case (1 found)
    show ?case
    proof (cases found)
      case (Inl rb')
      then show ?thesis using 1 assms rb_wire_find_nick by simp
    next
      case (Inr jt)
      then have "client_clean (snd jt) \<and> clean_opt (cl_away_message (snd jt))"
        using 1(2) known [of "fst jt" "snd jt"] by simp
      then show ?thesis using Inr assms by (cases jt) (auto simp: Let_def idle_time_def split: option.splits)
    qed
  qed
qed

end
