(* ===== verification/WireUsers.thy ===== *)
theory WireUsers
  imports WireQueries
begin

text \<open>
  Clients that come, change and go keep the state tidy, and whole lines are written about them.
\<close>

section \<open>Coming and going\<close>

lemma tidy_send [simp]: "tidy sv \<Longrightarrow> item_lines it \<Longrightarrow> tidy (send i c it sv)"
  by (simp add: send_post)

lemma tidy_notification [simp]: "tidy sv \<Longrightarrow> item_lines it \<Longrightarrow> tidy (send_notification i it flt sv)"
  by (auto simp: send_notification_post deliveries_def split: option.splits)

lemma tidy_send_each: "tidy sv \<Longrightarrow> (\<And>m c it. item m c = Some it \<Longrightarrow> item_lines it) \<Longrightarrow> wp True (send_each item ms sv) tidy"
  using wire_deliveries [of item "sv_clients sv" ms] by (simp only: send_each_post split: if_splits) simp

lemma tidy_without: "tidy sv \<Longrightarrow> tidy (sv\<lparr>sv_channels := retain_without i (sv_channels sv)\<rparr>)"
  by (rule tidy_channels) (auto simp: retain_without_def dest: tidy_entry)

lemma tidy_del_nick: "tidy sv \<Longrightarrow> tidy (sv\<lparr>sv_nicks := udel n (sv_nicks sv)\<rparr>)"
  by (auto simp: tidy_def)

lemma tidy_remove_client:
  assumes "tidy sv" and "clean a" and "clean e"
  shows "tidy (remove_client i a e sv)"
proof (cases "iget i (sv_clients sv)")
  case (Some c)
  then have c: "client_clean c" using assms(1) by (rule tidy_client)
  let ?sv = "sv\<lparr>sv_clients := idel i (sv_clients sv), sv_nicks := udel (cl_nick c) (sv_nicks sv)\<rparr>"
  have "tidy ?sv" using tidy_del_nick [OF tidy_del_client [OF assms(1)]] by simp
  then show ?thesis
    using Some c assms(2,3) wire_Nil tidy_without [of "send_notification i it flt (send i c it ?sv)" i for it flt]
    by (simp add: remove_client_def Let_def)
qed (simp add: remove_client_def assms)

lemma tidy_peer_joined: "tidy sv \<Longrightarrow> clean (sa_ip addr) \<Longrightarrow> tidy (peer_joined env fresh addr sv)"
  by (simp add: peer_joined_def tidy_put_client client_clean_new)

lemma tidy_peer_quit: "tidy sv \<Longrightarrow> clean_opt err \<Longrightarrow> tidy (peer_quit i err sv)"
  by (auto simp: peer_quit_def intro: tidy_remove_client split: option.splits)

lemma tidy_timeout: "tidy sv \<Longrightarrow> tidy (remove_if_unregistered i sv)"
  by (auto simp: remove_if_unregistered_def intro: tidy_remove_client split: option.splits)

section \<open>Registration and nicknames\<close>

lemma tidy_touch [simp]: "tidy sv \<Longrightarrow> tidy (touch env i sv)"
  by (simp add: touch_def)

lemma registration_delivers:
  assumes "tidy sv" and "rb_wire rb"
  shows "delivers (cmd_pass i password sv rb)" "delivers (cmd_cap_ls i v sv rb)" "delivers (cmd_cap_req i d sv rb)"
    "clean u \<Longrightarrow> clean r \<Longrightarrow> delivers (cmd_user i u r sv rb)"
  using assms
  by (auto simp: delivers_def cmd_pass_def cmd_cap_ls_def cmd_cap_req_def cmd_user_def Let_def tidy_remove_client
      intro!: wp_client wp_trunc_clean)

lemma tidy_change_nick:
  assumes "tidy sv" and "client_clean c" and "clean nick" and "rb_wire rb"
  shows "tidy (fst (change_nick i c nick sv rb)) \<and> rb_wire (snd (change_nick i c nick sv rb))"
proof -
  have "tidy (sv\<lparr>sv_nicks := uput nick i (udel (cl_nick c) (sv_nicks sv))\<rparr>)"
  proof (rule tidy_nicks [OF assms(1)])
    fix e assume "e \<in> set (uput nick i (udel (cl_nick c) (sv_nicks sv)))"
    from subsetD [OF set_tput this] have "fst e = nick \<or> (\<exists>w. (fst e, w) \<in> set (sv_nicks sv))"
      by (auto intro: exI [of _ "snd e"])
    then show "clean (fst e)" using assms(1,3) by (auto simp: tidy_def)
  qed
  then show ?thesis
    using assms tidy_upd_client [of "sv\<lparr>sv_nicks := uput nick i (udel (cl_nick c) (sv_nicks sv))\<rparr>" "set_nick nick" i]
    by (simp add: change_nick_def Let_def wire_Nil)
qed

lemma nick_delivers:
  assumes "tidy sv" and "rb_wire rb" and "clean nick"
  shows "delivers (cmd_nick i nick sv rb)"
  using assms tidy_change_nick [of sv _ nick rb i]
  by (auto simp: delivers_def cmd_nick_def Let_def split_def intro!: wp_client split: option.splits)

section \<open>Client information\<close>

lemma information_delivers:
  assumes "tidy sv" and "rb_wire rb"
  shows "clean_opt reason \<Longrightarrow> delivers (cmd_away i reason sv rb)" and "clean name \<Longrightarrow> delivers (cmd_setname i name sv rb)"
proof -
  show "delivers (cmd_away i reason sv rb)" if "clean_opt reason"
    using assms that
    by (cases reason) (auto simp: delivers_def cmd_away_def Let_def wire_Nil intro!: wp_client wp_trunc_clean)
  show "clean name \<Longrightarrow> delivers (cmd_setname i name sv rb)"
    using assms by (auto simp: delivers_def cmd_setname_def Let_def wire_Nil intro!: wp_client)
qed

lemma clean_chars: "x \<in> set (chars s) \<Longrightarrow> clean s \<Longrightarrow> clean x"
  using concat_chars [of s] by (metis clean_def UN_I set_concat)

lemma clean_simple_query: "(v, m) \<in> set (simple_query modes) \<Longrightarrow> clean modes \<Longrightarrow> clean m"
proof -
  have "(v, m) \<in> set (simple_query_loop b cs) \<Longrightarrow> m \<in> set cs" for b cs
    by (induction b cs rule: simple_query_loop.induct) (auto split: if_splits)
  then show "(v, m) \<in> set (simple_query modes) \<Longrightarrow> clean modes \<Longrightarrow> clean m"
    unfolding simple_query_def using clean_chars by blast
qed

lemma clean_user_query: "Inl (Unknown m v) \<in> set (user_query modes) \<Longrightarrow> clean modes \<Longrightarrow> clean m"
  by (auto simp: user_query_def user_query_item_def Let_def split: if_splits dest: clean_simple_query)

lemma clean_user_symbol [simp]: "clean (user_change_symbol c)"
  by (cases c) simp_all

lemma client_clean_apply: "client_clean c \<Longrightarrow> client_clean (snd (client_apply_mode_change ch c))"
  by (cases ch) (simp_all split: if_splits)

lemma mode_user_loop_clean:
  "mode_user_loop rs c applied rb = (c', applied', rb') \<Longrightarrow> \<forall>m v. Inl (Unknown m v) \<in> set rs \<longrightarrow> clean m \<Longrightarrow>
     client_clean c \<Longrightarrow> clean applied \<Longrightarrow> rb_wire rb \<Longrightarrow> client_clean c' \<and> clean applied' \<and> rb_wire rb'"
proof (induction rs c applied rb rule: mode_user_loop.induct)
  case (2 change rs c applied rb)
  then show ?case using client_clean_apply [of c change] by (cases "client_apply_mode_change change c") (simp split: if_splits)
qed (auto split: if_splits)

lemma mode_user_delivers:
  assumes "tidy sv" and "rb_wire rb" and "clean name" and "clean modes"
  shows "delivers (cmd_mode_user_set i name modes sv rb)"
  using assms mode_user_loop_clean [of "user_query modes"] clean_user_query [of _ _ modes]
  by (fastforce simp: delivers_def cmd_mode_user_set_def Let_def split: prod.splits intro!: wp_client)

section \<open>Operators and leaving\<close>

lemma operators_deliver:
  assumes "tidy sv" and "rb_wire rb"
  shows "delivers (cmd_oper i name password sv rb)" and "clean who \<Longrightarrow> clean reason \<Longrightarrow> delivers (cmd_kill i who reason sv rb)"
    and "delivers (cmd_rehash i sv rb)" and "clean_opt quit \<Longrightarrow> delivers (cmd_quit i quit sv rb)"
proof -
  have "tidy (sv\<lparr>sv_rehash_notified := n\<rparr>)" for n using assms(1) by (simp add: tidy_def)
  then show "delivers (cmd_rehash i sv rb)"
    using assms by (auto simp: delivers_def cmd_rehash_def intro!: wp_reads)
  show "delivers (cmd_oper i name password sv rb)"
    using assms by (auto simp: delivers_def cmd_oper_def Let_def intro!: wp_client)
  show "delivers (cmd_kill i who reason sv rb)" if "clean who" "clean reason"
    using assms that
    by (auto simp: delivers_def cmd_kill_def tidy_remove_client dest: rb_wire_find_nick intro!: wp_client wp_reads split: sum.splits)
  show "delivers (cmd_quit i quit sv rb)" if "clean_opt quit"
    using assms that by (auto simp: delivers_def cmd_quit_def tidy_remove_client lines_quit_def split: option.splits)
qed

end
