(* ===== verification/WireChannels.thy ===== *)
theory WireChannels
  imports WireUsers
begin

text \<open>
  The handlers for channels and messages keep the state tidy and write whole lines.
\<close>

section \<open>JOIN\<close>

lemma check_join_wire:
  assumes "rb_wire rb" and "clean name"
  shows "wp True (check_join i c ch name key rb) (\<lambda>(ok, rb). rb_wire rb)"
  using assms by (auto simp: check_join_def check_error_def intro!: wpI)

lemma clean_drop [simp]: "clean s \<Longrightarrow> clean (drop n s)"
  by (erule clean_subset) (rule set_drop_subset)

lemma clean_change_mask: "change_mask v p ms = (a, ms') \<Longrightarrow> clean p \<Longrightarrow> clean ms \<Longrightarrow> clean ms'"
  by (auto simp: change_mask_def mask_set_insert_def mask_set_remove_def Let_def split: if_splits option.splits)

definition change_clean :: "channel_change \<Rightarrow> bool" where
  "change_clean change \<longleftrightarrow> clean_opt (change_param change)"

lemma change_member_clean: "change_member nick_of p f ch = Some (r, ch') \<Longrightarrow> channel_clean ch \<Longrightarrow> channel_clean ch'"
  by (auto simp: change_member_def split: option.splits)

lemma channel_clean_change:
  assumes "channel_apply_mode_change change keylen nick_of ch = Some (r, ch')" and "change_clean change"
    and "channel_clean ch"
  shows "channel_clean ch'"
proof (cases change)
  case (Key v k)
  then show ?thesis
    using assms clean_trunc by (fastforce simp: change_clean_def channel_clean_iff split: if_splits option.splits)
next
  case (UserLimit l)
  then show ?thesis using assms by (cases l) (auto simp: channel_clean_iff split: option.splits)
qed (use assms in \<open>auto simp: change_clean_def channel_clean_iff split: prod.splits
    dest: change_member_clean clean_change_mask\<close>)

lemma channel_new_loop_clean:
  "channel_new_loop rs ch = Some ch' \<Longrightarrow> (\<And>c. Inr c \<in> set rs \<Longrightarrow> change_clean c) \<Longrightarrow> channel_clean ch \<Longrightarrow> channel_clean ch'"
  by (induction rs ch rule: channel_new_loop.induct)
    (auto split: option.splits sum.splits prod.splits dest: channel_clean_change)

lemma channel_new_clean: "channel_new modes = Some ch \<Longrightarrow> channel_clean ch"
proof -
  have "change_clean c" if "Inr c \<in> set (simple_channel_query modes)" for c
    using simple_channel_query_no_param [OF that] by (auto simp: change_clean_def)
  then show "channel_new modes = Some ch \<Longrightarrow> channel_clean ch"
    using channel_new_loop_clean [of _ channel_empty ch] by (auto simp: channel_new_def)
qed

lemma enter_channel_tidy: "tidy sv \<Longrightarrow> clean name \<Longrightarrow> wp True (enter_channel i name sv) tidy"
  by (auto simp: enter_channel_def intro!: wpI tidy_put_channel split: option.splits dest: channel_new_clean)

lemma send_join_tidy:
  assumes "tidy sv" and "clean name" and c: "client_clean c" and "rb_wire rb"
  shows "wp True (send_join i name c sv rb) (\<lambda>(s, rb). tidy s \<and> rb_wire rb)"
proof -
  have account: "clean (case cl_account c of Some a \<Rightarrow> a | None \<Rightarrow> ''*'')"
    using c client_clean_account [OF c] by (auto split: option.splits)
  have away: "clean m" if "cl_away_message c = Some m" for m using client_clean_away [OF c that] .
  show ?thesis
    unfolding send_join_def wp_bind Let_def
  proof (rule wpI, goal_cases)
    case (1 ch)
    show ?case
      using assms account away
      by (intro wp_mono [OF tidy_send_each [OF assms(1)]])
        (auto simp: wire_Nil intro!: wp_mono [OF tidy_send_each] split: option.splits if_splits)
  qed
qed

lemma join_one_tidy:
  assumes "tidy sv" and "clean name" and "client_clean c" and "rb_wire rb"
  shows "wp True (join_one i c name key sv rb) (\<lambda>(ok, s, rb). tidy s \<and> rb_wire rb)"
proof -
  have "wp True (case uget name (sv_channels sv) of None \<Rightarrow> Some (True, rb)
      | Some channel \<Rightarrow> check_join i c channel name key rb) (\<lambda>(ok, rb). rb_wire rb)"
    using assms check_join_wire by (auto split: option.splits)
  then show ?thesis
    unfolding join_one_def wp_bind
  proof (rule wp_mono, clarify)
    fix ok rb1 assume rb1: "rb_wire rb1"
    have rest: "wp True (do {
        sv \<leftarrow> enter_channel i name sv;
        (sv, rb) \<leftarrow> send_join i name c sv (rb_lr_batch_begin rb1);
        rb \<leftarrow> send_topic name False sv rb;
        rb \<leftarrow> send_names i name sv rb;
        Some (True, sv, rb) }) (\<lambda>(ok, s, rb). tidy s \<and> rb_wire rb)"
      unfolding wp_bind
    proof (rule wp_mono [OF enter_channel_tidy [OF assms(1,2)]], rule wp_mono [OF send_join_tidy], goal_cases)
      case (5 s r)
      then show ?case
        using assms(2)
        by (auto intro!: wp_mono [OF rb_wire_send_topic] wp_mono [OF rb_wire_send_names])
    qed (use assms rb1 in auto)
    then show "wp True (if \<not> ok then Some (False, sv, rb1) else do {
        sv \<leftarrow> enter_channel i name sv;
        (sv, rb) \<leftarrow> send_join i name c sv (rb_lr_batch_begin rb1);
        rb \<leftarrow> send_topic name False sv rb;
        rb \<leftarrow> send_names i name sv rb;
        Some (True, sv, rb) }) (\<lambda>(ok, s, rb). tidy s \<and> rb_wire rb)"
      using assms(1) rb1 by simp
  qed
qed

lemma join_loop_tidy:
  assumes "client_clean c"
  shows "tidy sv \<Longrightarrow> rb_wire rb \<Longrightarrow> \<forall>e \<in> set ns. clean (fst e) \<Longrightarrow>
    wp True (join_loop i c ns u sv rb) (\<lambda>(u, s, rb). tidy s \<and> rb_wire rb)"
proof (induction ns arbitrary: u sv rb)
  case (Cons e ns)
  then show ?case
    by (cases e) (auto intro!: wp_mono [OF join_one_tidy] Cons.IH assms)
qed simp

lemma clean_join_list:
  assumes "clean names" shows "\<forall>e \<in> set (join_list_iter names keys). clean (fst e)"
proof -
  have "\<forall>e \<in> set (zip_keys ns ks). fst e \<in> set ns" for ns ks
    by (induction ns ks rule: zip_keys.induct) auto
  then show ?thesis using assms clean_filter_names(1) unfolding join_list_iter_def by blast
qed

lemma join_delivers:
  assumes "tidy sv" and "rb_wire rb" and "clean names"
  shows "delivers (cmd_join env i names keys sv rb)"
  unfolding delivers_def cmd_join_def wp_bind
  using assms clean_join_list [OF assms(3), of keys]
  by (auto intro!: wp_client wp_mono [OF join_loop_tidy])

section \<open>PART\<close>

lemma calls_reason [simp]: "clean_opt reason \<Longrightarrow> list_all call_clean (reason_param reason)"
  by (cases reason) (simp_all add: reason_param_def)

lemma part_one_tidy:
  assumes "tidy sv" and "rb_wire rb" and "clean name" and "client_clean c" and "clean_opt reason"
  shows "delivers (part_one i c reason name sv rb)"
  using assms
  by (auto simp: delivers_def part_one_def Let_def wire_Nil intro!: wp_mono [OF tidy_send_each] split: option.splits)

lemma part_loop_tidy:
  assumes "client_clean c" and "clean_opt reason"
  shows "tidy sv \<Longrightarrow> rb_wire rb \<Longrightarrow> \<forall>n \<in> set ns. clean n \<Longrightarrow> delivers (part_loop i c reason ns r sv rb)"
proof (induction ns arbitrary: r sv rb)
  case (Cons n ns)
  then have "delivers (part_one i c reason n sv rb)" by (intro part_one_tidy assms) simp_all
  then show ?case
    using Cons unfolding delivers_def by (auto elim!: wp_mono)
qed (simp add: delivers_def)

lemma part_delivers:
  assumes "tidy sv" and "rb_wire rb" and "clean names" and "clean_opt reason"
  shows "delivers (cmd_part i names reason sv rb)"
proof -
  have "\<forall>n \<in> set (channel_names names). clean n" using clean_filter_names(1) [OF _ assms(3)] by blast
  then show ?thesis
    using assms part_loop_tidy unfolding delivers_def cmd_part_def wp_bind by (auto intro!: wp_client)
qed

lemma part_all_loop_tidy:
  assumes "client_clean c"
  shows "tidy sv \<Longrightarrow> rb_wire rb \<Longrightarrow> \<forall>e \<in> set chans. clean (fst e) \<and> channel_clean (snd e) \<Longrightarrow>
    wp True (part_all_loop i c chans sv rb)
      (\<lambda>(l, s, rb). (\<forall>e \<in> set l. clean (fst e) \<and> channel_clean (snd e)) \<and> tidy s \<and> rb_wire rb)"
proof (induction chans arbitrary: sv rb)
  case (Cons e chans)
  obtain n ch where e: "e = (n, ch)" by (cases e)
  show ?case
  proof (cases "ihas i (ch_members ch)")
    case True
    then show ?thesis
      using Cons.prems assms unfolding e
      by (auto simp: Let_def wire_Nil intro!: wp_mono [OF tidy_send_each] wp_mono [OF Cons.IH] split: if_splits)
  next
    case False
    then show ?thesis using Cons.prems unfolding e by (auto intro!: wp_mono [OF Cons.IH])
  qed
qed simp

lemma part_all_delivers:
  assumes "tidy sv" and "rb_wire rb"
  shows "delivers (cmd_part_all i sv rb)"
proof -
  have "\<forall>e \<in> set (sv_channels sv). clean (fst e) \<and> channel_clean (snd e)" using assms(1) by (simp add: tidy_def)
  then show ?thesis
    using assms unfolding delivers_def cmd_part_all_def wp_bind
    by (auto intro!: wp_client wp_mono [OF part_all_loop_tidy] tidy_channels)
qed

section \<open>INVITE, KICK and TOPIC\<close>

lemma invite_delivers:
  assumes "tidy sv" and "rb_wire rb" and "clean who" and "clean name"
  shows "delivers (cmd_invite i who name sv rb)"
proof -
  have away: "clean m" if "find_nick who sv rb = Some (Inr (j, c))" "cl_away_message c = Some m" for j c m
    using find_nick_clean [OF that(1) assms(1)] that(2) client_clean_away by blast
  show ?thesis
    unfolding delivers_def cmd_invite_def wp_bind
  proof (rule wpI, goal_cases)
    case (1 found)
    show ?case
    proof (cases found)
      case (Inl rb')
      then show ?thesis using 1 assms rb_wire_find_nick by simp
    next
      case (Inr jc)
      obtain j c where jc: "jc = (j, c)" by (cases jc)
      show ?thesis
      proof (cases "uget name (sv_channels sv)")
        case (Some ch)
        have ch: "channel_clean ch" using tidy_channel [OF Some assms(1)] .
        show ?thesis
          using Some Inr jc assms ch away [of j c] 1
          by (auto simp: wire_Nil Let_def intro!: wp_client wp_mono [OF tidy_send_each] split: if_splits option.splits)
      qed (use Inr jc assms in simp)
    qed
  qed
qed

lemma kick_one_tidy:
  assumes "tidy sv" and "rb_wire rb" and "clean name" and "clean nick" and "clean_opt reason"
  shows "wp True (kick_one i name reason nick sv rb) (\<lambda>(s, rb). tidy s \<and> rb_wire rb)"
proof -
  have send: "wp True (send_kick i ch name nick reason s rb) (\<lambda>(s, rb). tidy s \<and> rb_wire rb)" if "tidy s" for ch s
    using assms(2-5) that
    by (auto simp: send_kick_def Let_def wire_Nil intro!: wp_client wp_mono [OF tidy_send_each])
  show ?thesis
    using assms unfolding kick_one_def
    by (auto simp: Let_def intro!: wp_reads send tidy_upd_channel split: sum.splits
        dest: rb_wire_find_nick intro: tidy_channel)
qed

lemma kick_loop_tidy:
  assumes "clean name" and "clean_opt reason"
  shows "tidy sv \<Longrightarrow> rb_wire rb \<Longrightarrow> \<forall>n \<in> set ns. clean n \<Longrightarrow>
    wp True (kick_loop i name reason ns sv rb) (\<lambda>(s, rb). tidy s \<and> rb_wire rb)"
proof (induction ns arbitrary: sv rb)
  case (Cons n ns)
  then show ?case using assms by (auto intro!: wp_mono [OF kick_one_tidy])
qed simp

lemma kick_delivers:
  assumes "tidy sv" and "rb_wire rb" and "clean who" and "clean name" and "clean_opt reason"
  shows "delivers (cmd_kick i who name reason sv rb)"
proof -
  have names: "\<forall>n \<in> set (nicknames who). clean n" using clean_filter_names(2) [OF _ assms(3)] by blast
  show ?thesis
    using assms names unfolding delivers_def cmd_kick_def
    by (cases reason)
      (auto intro!: wp_mono [OF kick_loop_tidy] wp_trunc_clean split: option.splits sum.splits dest: rb_wire_find_member)
qed

lemma topic_delivers:
  assumes "tidy sv" and "rb_wire rb" and "clean name" and "clean text"
  shows "delivers (cmd_topic_set env i name text sv rb)"
proof -
  have topic: "channel_clean (ch\<lparr>ch_topic := None\<rparr>)"
    "clean t \<Longrightarrow> clean n \<Longrightarrow> channel_clean (ch\<lparr>ch_topic := Some \<lparr>tp_content = t, tp_who = n, tp_time = w\<rparr>\<rparr>)"
    if "channel_clean ch" for ch t n w
    using that by (simp_all add: channel_clean_iff)
  show ?thesis
    using assms topic unfolding delivers_def cmd_topic_set_def
    by (auto simp: wire_Nil Let_def intro!: wp_client wp_trunc_clean wp_mono [OF tidy_send_each]
        split: option.splits sum.splits dest: rb_wire_find_member)
qed

section \<open>MODE\<close>

lemma rb_wire_reply_list:
  "rb_wire rb \<Longrightarrow> clean name \<Longrightarrow> clean item \<Longrightarrow> clean e \<Longrightarrow> clean line \<Longrightarrow> clean ms \<Longrightarrow>
     rb_wire (reply_list name item e line (masks ms) rb)"
  unfolding reply_list_def masks_def
  by (auto intro!: rb_wire_reply rb_wire_fold dest: clean_split)

text \<open>The state of the loop over the changes.\<close>

definition modes_tidy :: "channel \<times> applied_modes \<times> reply_buffer \<Rightarrow> bool" where
  "modes_tidy st \<longleftrightarrow>
     (case st of (ch, am, rb) \<Rightarrow>
        channel_clean ch \<and> clean (am_modes am) \<and> list_all clean (am_params am) \<and> rb_wire rb)"

definition item_clean :: "mode_error + channel_change \<Rightarrow> bool" where
  "item_clean item \<longleftrightarrow>
     (case item of Inl (Unknown m _) \<Rightarrow> clean m | Inl _ \<Rightarrow> True | Inr change \<Rightarrow> change_clean change)"

lemma clean_change_symbol [simp]: "clean (change_symbol change)"
  by (cases change) simp_all

lemma push_applied_clean:
  "change_clean change \<Longrightarrow> clean (am_modes am) \<Longrightarrow> list_all clean (am_params am) \<Longrightarrow>
     clean (am_modes (push_applied change am)) \<and> list_all clean (am_params (push_applied change am))"
  by (auto simp: push_applied_def change_clean_def Let_def split: option.splits)

lemma mode_change_apply_tidy:
  assumes "modes_tidy st" and change: "change_clean change" and "clean name"
  shows "wp True (mode_change_apply name keylen nick_of change st) modes_tidy"
proof -
  obtain ch am rb where st: "st = (ch, am, rb)" by (cases st)
  have c: "channel_clean ch" "clean (am_modes am)" "list_all clean (am_params am)" "rb_wire rb"
    using assms(1) by (simp_all add: st modes_tidy_def)
  show ?thesis
  proof (cases "channel_apply_mode_change change keylen nick_of ch")
    case (Some res)
    obtain r ch' where res: "res = (r, ch')" by (cases res)
    have "channel_clean ch'" using channel_clean_change [OF _ change c(1)] Some res by blast
    moreover have "clean p" if "change_param change = Some p" for p
      using change that by (simp add: change_clean_def)
    ultimately show ?thesis
      using Some res c push_applied_clean [OF change c(2,3)] assms(3)
      by (auto simp: st mode_change_apply_def modes_tidy_def intro!: wpI split: sum.splits bool.splits option.splits)
  qed (simp add: st mode_change_apply_def)
qed

lemma mode_change_one_tidy:
  assumes "modes_tidy st" and "item_clean item" and "clean name"
  shows "wp True (mode_change_one name keylen nick_of item st) modes_tidy"
proof -
  obtain ch am rb where st: "st = (ch, am, rb)" by (cases st)
  have c: "channel_clean ch" "clean (am_modes am)" "list_all clean (am_params am)" "rb_wire rb"
    using assms(1) by (simp_all add: st modes_tidy_def)
  then have masks: "clean (ch_ban_mask ch)" "clean (ch_exception_mask ch)" by (simp_all add: channel_clean_iff)
  show ?thesis
  proof (cases item)
    case (Inl e)
    then show ?thesis using c assms(2) by (cases e) (simp_all add: st mode_change_one_def modes_tidy_def item_clean_def)
  next
    case (Inr change)
    then have "wp True (mode_change_apply name keylen nick_of change (ch, am, rb)) modes_tidy"
      using mode_change_apply_tidy assms by (simp add: st item_clean_def)
    then show ?thesis
      using c masks assms(3)
      by (cases change) (auto simp: Inr st mode_change_one_def modes_tidy_def intro!: rb_wire_reply_list)
  qed
qed

lemma mode_change_loop_tidy:
  "modes_tidy st \<Longrightarrow> \<forall>item \<in> set items. item_clean item \<Longrightarrow> clean name \<Longrightarrow>
     wp True (mode_change_loop name keylen nick_of items st) modes_tidy"
  by (induction items arbitrary: st) (auto intro!: wp_mono [OF mode_change_one_tidy])

lemma channel_query_item_unknown: "channel_query_item (v, m) ps = (Inl (Unknown m' v'), ps') \<Longrightarrow> m' = m"
  by (auto simp: channel_query_item_def split: if_splits list.splits)

lemma channel_query_loop_unknown: "Inl (Unknown m v) \<in> set (channel_query_loop items ps) \<Longrightarrow> \<exists>v. (v, m) \<in> set items"
proof (induction items arbitrary: ps)
  case (Cons item items)
  obtain r ps' where item: "channel_query_item item ps = (r, ps')" by fastforce
  then show ?case
    using Cons channel_query_item_unknown [of "fst item" "snd item" ps m v ps'] by (cases item) auto
qed simp

lemma channel_query_clean:
  assumes "clean modes" and "list_all clean params"
  shows "\<forall>item \<in> set (channel_query modes params). item_clean item"
proof
  fix item assume item: "item \<in> set (channel_query modes params)"
  show "item_clean item"
  proof (cases item)
    case (Inl e)
    then show ?thesis
      using item channel_query_loop_unknown clean_simple_query [OF _ assms(1)]
      by (cases e) (fastforce simp: item_clean_def channel_query_def)+
  next
    case (Inr change)
    have "clean p" if "change_param change = Some p" for p
      using channel_query_loop_param [of change _ _ p] item Inr that assms(2)
      by (fastforce simp: channel_query_def list_all_iff)
    then show ?thesis using Inr by (simp add: item_clean_def change_clean_def clean_opt_iff)
  qed
qed

lemma mode_delivers:
  assumes "tidy sv" and "rb_wire rb" and "clean name" and "clean modes" and "list_all clean params"
  shows "delivers (cmd_mode_channel_set i name modes params sv rb)"
proof (cases "uget name (sv_channels sv)")
  case (Some ch)
  have ch: "channel_clean ch" using tidy_channel [OF Some assms(1)] .
  have loop: "wp True (mode_change_loop name k f (channel_query modes params)
      (ch, \<lparr>am_modes = [], am_params = [], am_last = True\<rparr>, rb_lr_batch_begin rb)) modes_tidy" for k f
    using channel_query_clean [OF assms(4,5)] assms ch
    by (intro mode_change_loop_tidy) (simp_all add: modes_tidy_def)
  have params: "list_all call_clean (map Param ps) = list_all clean ps" for ps
    by (simp add: list.pred_map comp_def)
  show ?thesis
    using Some assms params unfolding delivers_def cmd_mode_channel_set_def
    by (auto simp: Let_def modes_tidy_def wire_Nil split: sum.splits dest: rb_wire_find_member
        intro!: wp_client wp_mono [OF loop] wp_mono [OF tidy_send_each])
qed (simp add: delivers_def cmd_mode_channel_set_def assms)

section \<open>PRIVMSG, NOTICE and TAGMSG\<close>

lemma message_build_wire:
  assumes "tidy sv" and "rb_wire rb" and "clean tgs" and "\<not> is_Reply command" and "clean to" and "clean_opt content"
  shows "wp True (message_build env i tgs command to content sv rb) (\<lambda>(it, rb). item_lines it \<and> rb_wire rb)"
proof -
  have keys: "\<forall>(k, v) \<in> set (message_tags_of env c). clean k" for c
    by (auto simp: message_tags_of_def split: option.splits)
  have item: "item_lines ((queue_item_from (mb_statement cs (tb_prefixed_command p command msg)))\<lparr>qi_start := tb_save_tag_len msg\<rparr>)"
    if msg: "msg = fold (\<lambda>(k, v). tb_tag k v) (message_tags_of env c) (buffer_tagged_message tgs [])"
      and clean: "clean p" "list_all call_clean cs" for msg c p cs
  proof -
    have "tags_open msg" using assms(3) keys msg by (simp add: tags_open_tags wire_Nil)
    moreover obtain x0 where "tags_of [] (buffer_tagged_message tgs []) x0" using tags_of_tagged by blast
    with tags_of_tag_list [of "[]"] obtain x where "tags_of [] msg x" unfolding msg by blast
    ultimately have "clean x" by (auto simp: tags_open_def tags_of_def)
    with \<open>tags_of [] msg x\<close> show ?thesis using clean assms(4) by (intro item_lines_tagged) simp_all
  qed
  show ?thesis
    using assms keys unfolding message_build_def wp_bind
    by (auto simp: Let_def intro!: wp_client item)
qed

lemma tidy_send_capable [simp]: "tidy sv \<Longrightarrow> item_lines it \<Longrightarrow> tidy (send_capable i command it ts sv)"
  by (auto simp: send_capable_post deliveries_def split: option.splits)

lemma messages_deliver:
  assumes "tidy sv" and "rb_wire rb" and "clean tgs" and "\<not> is_Reply command" and "clean to" and "clean_opt content"
  shows "delivers (cmd_message_channel env i tgs command to content sv rb)"
    and "delivers (cmd_message_user env i tgs command to content sv rb)"
proof -
  show "delivers (cmd_message_channel env i tgs command to content sv rb)"
    using assms unfolding delivers_def cmd_message_channel_def
    by (auto simp: Let_def intro!: wp_client wp_mono [OF message_build_wire] split: sum.splits
        dest: rb_wire_find_channel)
  have away: "clean m" if "find_nick to sv rb = Some (Inr (j, c))" "cl_away_message c = Some m" for j c m
    using find_nick_clean [OF that(1) assms(1)] that(2) client_clean_away by blast
  show "delivers (cmd_message_user env i tgs command to content sv rb)"
    unfolding delivers_def cmd_message_user_def wp_bind
  proof (rule wpI, goal_cases)
    case (1 found)
    show ?case
    proof (cases found)
      case (Inl rb')
      then show ?thesis using 1 assms rb_wire_find_nick by simp
    next
      case (Inr jc)
      then show ?thesis
        using 1 assms away [of "fst jc" "snd jc"]
        by (cases jc) (auto simp: Let_def intro!: wp_client wp_mono [OF message_build_wire] split: option.splits)
    qed
  qed
qed

end
