(* ===== verification/Wire.thy ===== *)
theory Wire
  imports WireChannels Samples
begin

text \<open>
  From the line that is read to the bytes that are written: whatever clients send, every client reads
  whole lines, and only the server begins one.
\<close>

section \<open>Requests\<close>

fun request_clean :: "request \<Rightarrow> bool" where
  "request_clean (Req_WhoChannel name _) = clean name"
| "request_clean (Req_WhoMask name _) = clean name"
| "request_clean (Req_WhoUser name _) = clean name"
| "request_clean (Req_WhoIs nick) = clean nick"
| "request_clean (Req_Kill who reason) \<longleftrightarrow> clean who \<and> clean reason"
| "request_clean (Req_List names) = clean names"
| "request_clean (Req_Names names) = clean names"
| "request_clean (Req_TopicGet name) = clean name"
| "request_clean (Req_TopicSet name topic') \<longleftrightarrow> clean name \<and> clean topic'"
| "request_clean (Req_Ping payload) = clean payload"
| "request_clean (Req_Quit reason) = clean_opt reason"
| "request_clean (Req_User username realname) \<longleftrightarrow> clean username \<and> clean realname"
| "request_clean (Req_Away reason) = clean_opt reason"
| "request_clean (Req_ModeUserGet nick) = clean nick"
| "request_clean (Req_ModeUserSet nick modes) \<longleftrightarrow> clean nick \<and> clean modes"
| "request_clean (Req_Nick nick) = clean nick"
| "request_clean (Req_SetName name) = clean name"
| "request_clean (Req_Invite who to) \<longleftrightarrow> clean who \<and> clean to"
| "request_clean (Req_Join names keys) = clean names"
| "request_clean (Req_Kick who from' reason) \<longleftrightarrow> clean who \<and> clean from' \<and> clean_opt reason"
| "request_clean (Req_MessageChannel f command to content) \<longleftrightarrow>
     \<not> is_Reply command \<and> clean to \<and> clean_opt content"
| "request_clean (Req_MessageUser f command to content) \<longleftrightarrow>
     \<not> is_Reply command \<and> clean to \<and> clean_opt content"
| "request_clean (Req_ModeChannelGet name) = clean name"
| "request_clean (Req_ModeChannelSet name modes params) \<longleftrightarrow> clean name \<and> clean modes \<and> list_all clean params"
| "request_clean (Req_Part from' reason) \<longleftrightarrow> clean from' \<and> clean_opt reason"
| "request_clean _ = True"

fun error_clean :: "request_error \<Rightarrow> bool" where
  "error_clean (ErroneousNickname name) = clean name"
| "error_clean InvalidCap = True"
| "error_clean (InvalidCapCmd cmd) = clean cmd"
| "error_clean (NoSuchChannel name) = clean name"
| "error_clean (NoSuchNick name) = clean name"
| "error_clean (NeedMoreParams command n) = (\<not> is_Reply command)"
| "error_clean (UnknownCommand unknown) = clean unknown"

definition message_clean :: "message \<Rightarrow> bool" where
  "message_clean msg \<longleftrightarrow>
     clean (msg_tags msg) \<and> (\<forall>x \<in> set (msg_params msg). clean x)
     \<and> (\<forall>w. msg_command msg = Inl w \<longrightarrow> clean w) \<and> (\<forall>c. msg_command msg = Inr c \<longrightarrow> \<not> is_Reply c)
     \<and> length (msg_params msg) = PARAMS_LENGTH"

lemma parsed_message_clean: "message_parse line = Some msg \<Longrightarrow> one_line line \<Longrightarrow> message_clean msg"
  using message_parse_text_ok [of line msg] message_parse_shape(1,4) [of line msg]
  by (auto simp: message_clean_def text_ok_def)

lemma clean_param: "message_clean msg \<Longrightarrow> k < PARAMS_LENGTH \<Longrightarrow> clean (param msg k)"
  by (simp add: message_clean_def param_def)

lemma request_new_clean:
  assumes msg: "message_clean msg" and "request_new msg = Some res"
  shows "(\<forall>e. res = Inl e \<longrightarrow> error_clean e) \<and> (\<forall>r. res = Inr r \<longrightarrow> request_clean r)"
proof -
  have p: "clean (param msg 0)" "clean (param msg 1)" "clean (param msg 2)" "clean (param msg 3)"
    using clean_param [OF msg] by (simp_all add: PARAMS_LENGTH_def)
  have d: "list_all clean (drop 2 (take n (msg_params msg)))" for n
    using msg by (auto simp: message_clean_def list_all_iff dest!: in_set_dropD in_set_takeD)
  note cases_simps = Let_def none_if_empty_def map_ok_def nickname_try_from_def channel_name_try_from_def
    mask_try_from_def cap_diff_try_from_def
  have cap: "cap_diff_loop q r = Inl e \<Longrightarrow> e = InvalidCap" for q r e
    by (induction q r rule: cap_diff_loop.induct) (auto split: option.splits)
  show ?thesis
  proof (cases "msg_command msg")
    case (Inl w)
    then show ?thesis using assms by (auto simp: request_new_def message_clean_def)
  next
    case (Inr command)
    then have c: "\<not> is_Reply command" using msg by (simp add: message_clean_def)
    have "request_of msg command = Some res \<or> res = Inl (NeedMoreParams command (msg_num_params msg))"
      using assms(2) Inr by (auto simp: request_new_def split: if_splits)
    then show ?thesis
    proof
      assume run: "request_of msg command = Some res"
      show ?thesis
        using p d run c
        by (cases command)
          (auto simp: request_of_def cases_simps request_who_def request_cap_def request_mode_def params_from_2_def request_message_def
            split: sum.splits if_splits dest: cap)
    qed (use c in simp)
  qed
qed

lemma run_request_delivers:
  assumes "tidy sv" and "rb_wire rb" and "request_clean req" and "clean tgs" and "clean (env_time_str env)"
  shows "delivers (run_request env i tgs req sv rb)"
proof -
  note handlers = info_queries_deliver [OF assms(1,2)] list_queries_deliver [OF assms(1,2)]
    mode_queries_deliver [OF assms(1,2)] who_queries_deliver [OF assms(1,2)] registration_delivers [OF assms(1,2)]
    nick_delivers [OF assms(1,2)] information_delivers [OF assms(1,2)] mode_user_delivers [OF assms(1,2)]
    operators_deliver [OF assms(1,2)] join_delivers [OF assms(1,2)] part_delivers [OF assms(1,2)]
    part_all_delivers [OF assms(1,2)] invite_delivers [OF assms(1,2)] kick_delivers [OF assms(1,2)]
    topic_delivers [OF assms(1,2)] mode_delivers [OF assms(1,2)] messages_deliver [OF assms(1,2,4)]
  show ?thesis by (cases req) (use assms(3,5) handlers in \<open>simp_all add: run_request_def\<close>)
qed

section \<open>Messages\<close>

lemma tidy_finish:
  assumes "tidy sv" and "rb_wire rb"
  shows "wp True (finish_request i req oper res sv rb) (\<lambda>(pts, s). tidy s)"
proof -
  have ok: "wp True (finish_ok i req sv rb) (\<lambda>(s, rb). tidy s \<and> rb_wire rb)"
    unfolding finish_ok_def wp_bind
  proof (rule wp_client [OF assms(1)], rule wpI, goal_cases)
    case (1 c c')
    then have "client_clean c'" by (auto simp: client_apply_request_def split: sum.splits)
    then have "tidy (sv\<lparr>sv_clients := iupd i (\<lambda>_. c') (sv_clients sv)\<rparr>)" using assms(1) by simp
    then show ?case using assms(2) by (auto simp: Let_def intro!: wp_mono [OF rb_wire_send_welcome])
  qed
  have "wp True (if res = HOk then do { (sv, rb) \<leftarrow> finish_ok i req sv rb; Some (points req, sv, rb) }
      else Some (saturating_double (points req), sv, rb)) (\<lambda>(pts, s, rb). tidy s \<and> rb_wire rb)"
    using assms ok by (auto elim!: wp_mono)
  then show ?thesis
    unfolding finish_request_def wp_bind
    by (rule wp_mono) (auto simp: rb_wire_def intro!: wp_mono [OF rb_wire_lr_end] wp_client)
qed

lemma rb_wire_request_error:
  assumes "rb_wire rb" and "error_clean e" and "message_clean msg"
  shows "rb_wire (reply_request_error c msg e rb)"
  using assms clean_param [OF assms(3), of 2]
  by (cases e) (simp_all add: reply_need_more_params_def PARAMS_LENGTH_def Let_def)

lemma tidy_message:
  assumes "tidy sv" and msg: "message_clean msg" and "clean (env_time_str env)"
  shows "wp True (handle_message env i msg sv) (\<lambda>(pts, s). tidy s)"
proof (cases "iget i (sv_clients sv)")
  case (Some c)
  have c: "client_clean c" using tidy_client [OF Some assms(1)] .
  have rb: "rb_wire (client_reply c l)" for l using c by (simp add: rb_wire_client_reply)
  have buf: "rb_wire b \<Longrightarrow> wire (rb_buf b)" for b by (simp add: rb_wire_def)
  show ?thesis
  proof (cases "request_new msg")
    case (Some res)
    show ?thesis
    proof (cases res)
      case (Inl e)
      then have "error_clean e" using request_new_clean [OF msg Some] by simp
      then show ?thesis
        using Inl Some \<open>iget i (sv_clients sv) = Some c\<close> assms(1) buf rb_wire_request_error [OF rb _ msg]
        by (simp add: handle_message_def Let_def)
    next
      case (Inr req)
      then have "request_clean req" using request_new_clean [OF msg Some] by simp
      moreover have "clean (msg_tags msg)" using msg by (simp add: message_clean_def)
      ultimately have "delivers (run_request env i (msg_tags msg) req sv (client_reply c l))" for l
        using run_request_delivers [OF assms(1) rb] assms(3) by blast
      then have "wp True (handle_request env i (msg_tags msg) req oper sv (client_reply c l)) (\<lambda>(pts, s). tidy s)" for l oper
        unfolding handle_request_def wp_bind delivers_def
        by (rule wp_mono) (auto intro!: tidy_finish)
      moreover have "rb_wire (reply_cannot_issue c (client_reply c l))" for l
        using rb by (simp add: reply_cannot_issue_def)
      ultimately show ?thesis
        using Inr Some \<open>iget i (sv_clients sv) = Some c\<close> assms(1) buf by (simp add: handle_message_def Let_def)
    qed
  qed (use Some in \<open>simp add: handle_message_def Let_def assms\<close>)
qed (simp add: handle_message_def assms)

section \<open>The whole server\<close>

text \<open>What is asked of the configuration: its texts are single lines, and those of the message of the day
  hold no carriage return.\<close>

definition config_clean :: "state_config \<Rightarrow> bool" where
  "config_clean cfg \<longleftrightarrow>
     clean (cs_domain cfg) \<and> clean (cs_org_name cfg) \<and> clean (cs_org_location cfg) \<and> clean (cs_org_mail cfg)
     \<and> motd_clean (Some (cs_motd_file cfg))"

inductive line_start :: "server \<Rightarrow> bool" where
  "config_clean cfg \<Longrightarrow> motd_clean motd \<Longrightarrow> clean (env_time_str env) \<Longrightarrow> line_start (server_new env motd cfg)"

text \<open>What the tasks do to the state: the rounds of the connections read from the clients, whatever they
  send; \<open>fill\<close> and \<open>consume\<close> are the operations of the buffered reader and \<open>describe\<close> is the text of an
  error.\<close>

inductive line_step ::
  "('r, 'e) filler \<Rightarrow> 'r consumer \<Rightarrow> ('e io_error \<Rightarrow> string) \<Rightarrow> server \<Rightarrow> server \<Rightarrow> bool"
  for fill consume describe where
  line_connect: "\<not> ihas fresh (sv_clients sv) \<Longrightarrow> clean (sa_ip addr) \<Longrightarrow>
     line_step fill consume describe sv (peer_joined env fresh addr sv)"
| line_round: "buffered fill consume rest capacity \<Longrightarrow> clean (env_time_str env) \<Longrightarrow>
     incoming_once fill consume env i r sv = Some (res, r', sv') \<Longrightarrow> line_step fill consume describe sv sv'"
| line_quit: "(\<And>e. err = Some e \<Longrightarrow> clean (describe e)) \<Longrightarrow>
     line_step fill consume describe sv (peer_quit i (map_option describe err) sv)"
| line_timeout: "line_step fill consume describe sv (remove_if_unregistered i sv)"
| line_rehash: "config_clean cfg \<Longrightarrow> line_step fill consume describe sv (server_rehash cfg sv)"

inductive_cases line_stepE: "line_step fill consume describe sv sv'"

lemma tidy_start: "line_start sv \<Longrightarrow> tidy sv"
  by (auto simp: tidy_def texts_clean_def config_clean_def server_new_def simp del: tidy_texts elim!: line_start.cases)

lemma tidy_rehash: "tidy sv \<Longrightarrow> config_clean cfg \<Longrightarrow> tidy (server_rehash cfg sv)"
  by (simp add: tidy_def texts_clean_def config_clean_def server_rehash_def motd_clean_iff del: tidy_texts)

lemma tidy_round:
  assumes "tidy sv" and "buffered fill consume rest capacity" and "clean (env_time_str env)"
    and run: "incoming_once fill consume env i r sv = Some (res, r', sv')"
  shows "tidy sv'"
proof (cases "read_message fill consume r 512 []")
  case (fields out r1 line)
  show ?thesis
  proof (cases out)
    case (Inl e)
    then show ?thesis using run fields assms(1) by (simp add: incoming_once_def)
  next
    case (Inr k)
    then have "one_line line" using read_message_ok [OF assms(2)] line_read_one_line fields by blast
    then have "message_parse line = Some msg \<Longrightarrow> wp True (handle_message env i msg sv) (\<lambda>(pts, s). tidy s)" for msg
      using parsed_message_clean assms(1,3) by (blast intro: tidy_message)
    then show ?thesis
      using run fields Inr assms(1)
      by (auto simp: incoming_once_def handle_buffer_def bind_eq_Some_conv split: if_splits option.splits)
  qed
qed

lemma tidy_step: "tidy sv \<Longrightarrow> line_step fill consume describe sv sv' \<Longrightarrow> tidy sv'"
  by (auto elim!: line_stepE intro: tidy_peer_joined tidy_round tidy_timeout tidy_rehash
      intro!: tidy_peer_quit simp: clean_opt_iff)

interpretation lines: preserved line_start "line_step fill consume describe" tidy for fill consume describe
  by unfold_locales (auto intro: tidy_start tidy_step)

text \<open>The items for one client, and what the outgoing half of its connection writes.\<close>

definition queue_of :: "nat \<Rightarrow> server \<Rightarrow> queue_item list" where
  "queue_of i sv = map snd (filter (\<lambda>e. fst e = i) (sv_sent sv))"

lemma wire_append [simp]: "wire v \<Longrightarrow> wire w \<Longrightarrow> wire (w @ v)"
proof (induction v rule: wire.induct)
  case (wire_line v l)
  then have "wire ((w @ v) @ l @ crlf)" by (intro wire.wire_line)
  then show ?case by simp
qed simp

text \<open>A socket that takes everything: the bytes written to it.\<close>

definition append_bytes :: "string \<Rightarrow> string \<Rightarrow> unit + string" where
  "append_bytes written s = Inr (written @ s)"

lemma outgoing_wire:
  "\<forall>it \<in> set q. item_lines it \<Longrightarrow> wire written \<Longrightarrow>
     \<exists>out. outgoing append_bytes q written = Some (None, out) \<and> wire out"
proof (induction q arbitrary: written)
  case (Cons it q)
  then obtain s where s: "queue_item_as_ref it = Some s" by (auto simp: item_lines_def)
  then have "wire s" using Cons.prems(1) by (auto dest: item_lines_read)
  then show ?case using Cons s by (simp add: append_bytes_def)
qed simp

section \<open>Properties\<close>

text \<open>C2: No line can be smuggled in.  Whatever bytes the clients send, in whatever order the tasks run, the
  outgoing half of a connection does not panic and what it writes to a client is a sequence of complete
  lines: each ends with CR LF and holds no other CR or LF, so no text that one client sends can begin a
  line that another client reads.\<close>

theorem clients_read_whole_lines:
  assumes "line_start start" and "rtranclp (line_step fill consume describe) start sv"
  shows "\<exists>ls. list_all clean ls \<and> outgoing append_bytes (queue_of i sv) [] = Some (None, concat (map (\<lambda>l. l @ crlf) ls))"
proof -
  have "tidy sv" using assms by (rule lines.reached_inv)
  then have "\<forall>it \<in> set (queue_of i sv). item_lines it" by (auto simp: tidy_def queue_of_def)
  then obtain out where "outgoing append_bytes (queue_of i sv) [] = Some (None, out)" and "wire out"
    using outgoing_wire wire_Nil by blast
  then show ?thesis by (auto simp: wire_lines list_all_iff)
qed

theorem clients_read_whole_lines_witness:
  "let joined = peer_joined env_sample 0 \<lparr>sa_ip = ''::1'', sa_port = 6667\<rparr> server_sample in
   \<exists>ls. list_all clean ls
     \<and> outgoing append_bytes (queue_of 0 (peer_quit 0 None joined)) [] = Some (None, concat (map (\<lambda>l. l @ crlf) ls))"
  unfolding Let_def
proof (rule clients_read_whole_lines)
  let ?joined = "peer_joined env_sample 0 \<lparr>sa_ip = ''::1'', sa_port = 6667\<rparr> server_sample"
  let ?step = "line_step mem_fill mem_consume (\<lambda>_. [])"
  show "line_start server_sample"
    unfolding server_sample_def by (intro line_start.intros) code_simp+
  have "?step server_sample ?joined" by (rule line_connect) (simp_all add: thas_def)
  moreover have "?step ?joined (peer_quit 0 None ?joined)" using line_quit [where err = None] by simp
  ultimately show "rtranclp ?step server_sample (peer_quit 0 None ?joined)"
    by (meson converse_rtranclp_into_rtranclp r_into_rtranclp)
qed

end
