(* ===== verification/Sessions.thy ===== *)
theory Sessions
  imports Promises
begin

text \<open>
  What several messages of a client achieve together.
\<close>

section \<open>What a reply buffer says\<close>

definition says :: "string \<Rightarrow> reply_buffer \<Rightarrow> bool" where
  "says t rb \<longleftrightarrow> carries t (rb_buf rb)"

lemma says_statement [simp]: "says t rb \<Longrightarrow> says t (rb_tagged_statement tgs kvs p c cs rb)"
  by (simp add: says_def rb_tagged_statement_carries)

lemma says_message [simp]: "says t rb \<Longrightarrow> says t (rb_message p c cs rb)"
  by (simp add: rb_message_def)

lemma says_prefixed [simp]: "says t rb \<Longrightarrow> says t (rb_prefixed_message c cs rb)"
  by (simp add: rb_prefixed_message_def)

lemma says_reply [simp]: "says t rb \<Longrightarrow> says t (rb_reply c cs rb)"
  by (simp add: rb_reply_def)

lemma says_fold: "says t rb \<Longrightarrow> (\<And>x rb. says t rb \<Longrightarrow> says t (f x rb)) \<Longrightarrow> says t (fold f xs rb)"
  by (induction xs arbitrary: rb) auto

lemma says_shared [simp]:
  "says t rb \<Longrightarrow> says t (send_i_support sv rb)" "says t rb \<Longrightarrow> says t (send_lusers i sv rb)"
  "says t rb \<Longrightarrow> says t (send_motd sv rb)"
  by (auto simp: send_i_support_def send_lusers_def send_motd_def Let_def intro!: says_reply says_fold split: option.splits)

lemma says_lr_end: "rb_lr_end rb = Some rb' \<Longrightarrow> says t rb \<Longrightarrow> says t rb'"
proof -
  have "says t rb \<Longrightarrow> says t (rb\<lparr>rb_batch := x\<rparr>)" "says t (rb\<lparr>rb_has_label := y\<rparr>) = says t rb" for rb x y
    by (simp_all add: says_def)
  then show "rb_lr_end rb = Some rb' \<Longrightarrow> says t rb \<Longrightarrow> says t rb'"
    by (auto simp: rb_lr_end_def rb_batch_end_def Let_def split: option.splits if_splits)
qed

lemma says_said: "says t (rb_reply c [FmtTrailingParam t] rb)"
proof -
  have "carries t (mb_statement [Param n, FmtTrailingParam t] buf)" for n buf
  proof -
    have "mb_statement [Param n, FmtTrailingParam t] buf = (mb_param n buf @ '' :'') @ t @ crlf"
      by (simp add: mb_statement_def mb_drop_def mb_fmt_trailing_param_def)
    then show ?thesis unfolding carries_def by blast
  qed
  then show ?thesis
    by (simp add: says_def rb_reply_def rb_prefixed_message_def rb_message_def rb_tagged_statement_def split: prod.splits)
qed

lemma welcome_says:
  assumes "send_welcome i sv rb = Some rb'" and "iget i (sv_clients sv) = Some c"
  shows "says (lines_welcome (cl_nick c)) rb'"
  using assms says_said by (auto simp: send_welcome_def Let_def)

lemma says_nonempty: "says t rb \<Longrightarrow> t \<noteq> [] \<Longrightarrow> \<not> rb_is_empty rb"
  by (auto simp: says_def carries_def rb_is_empty_def)

section \<open>Requests that succeed\<close>

text \<open>A message whose request the client may issue, and whose handler succeeds, is handled to the end.\<close>

lemma served_request:
  assumes good: "good False sv" and c: "iget i (sv_clients sv) = Some c"
    and line: "message_parse l = Some m" "ascii_str l" "length (msg_tags m) \<le> MAX_TAG_DATA_LENGTH"
    and req: "request_new m = Some (Inr req)" "client_can_issue_request req c"
    and run: "run_request env i (msg_tags m) req sv (client_reply c (message_label m)) = Some (HOk, s, rb)"
    and stays: "ihas i (sv_clients s)"
  obtains pts sv' where "handle_message env i m sv = Some (pts, sv')" and "good False sv'"
    and "settled (message_label m) i req HOk s sv'" and "finish_request i req (cl_operator c) HOk s rb = Some (pts, sv')"
proof -
  have rb: "rb_inv (message_label m) (client_reply c (message_label m))" by (simp add: client_reply_def)
  have "request_ok req" using request_new_cases [OF line(1)] req(1) by fastforce
  moreover have "request_ascii req"
    using request_texts_ascii [OF _ _ req(1)] parsed_params_ascii [OF line(1,2)] message_parse_shape(1) [OF line(1)]
    by blast
  moreover have answered: "implemented req \<and> clock_ok env sv req"
    using run run_request_panics [of req env sv i "msg_tags m" "client_reply c (message_label m)"] by auto
  ultimately obtain pts sv' where
      h: "handle_request env i (msg_tags m) req (cl_operator c) sv (client_reply c (message_label m)) = Some (pts, sv')"
      and "good False sv'" "performed False env i (msg_tags m) (message_label m) req sv
        (client_reply c (message_label m)) sv'"
    using wp_total [OF wp_handle_request [OF good c req(2) _ rb], of env "msg_tags m" "cl_operator c"] answered
    by auto
  moreover have "handle_message env i m sv = Some (pts, sv')"
    using h c req line(3) by (simp add: handle_message_def Let_def)
  moreover have "finish_request i req (cl_operator c) HOk s rb = Some (pts, sv')"
    using h run stays by (simp add: handle_request_def)
  ultimately show thesis using that run stays by (simp add: performed_def)
qed

text \<open>What the client is welcomed with.\<close>

lemma finish_welcomes:
  assumes run: "finish_request i req oper HOk sv rb = Some (pts, sv')" and c: "iget i (sv_clients sv) = Some c"
    and st: "\<not> client_is_registered c" "state_apply (cl_state c) req = Inr Registered"
  shows "\<exists>it. (i, it) \<in> set (sv_sent sv') \<and> carries (lines_welcome (cl_nick c)) (qi_buf it)"
proof -
  let ?c = "c\<lparr>cl_state := Registered\<rparr>" and ?sv = "sv\<lparr>sv_clients := iupd i (\<lambda>_. c\<lparr>cl_state := Registered\<rparr>) (sv_clients sv)\<rparr>"
  have c': "iget i (sv_clients ?sv) = Some ?c" using c by (simp add: table)
  have "finish_ok i req sv rb = do { rb \<leftarrow> send_welcome i ?sv rb; Some (?sv, rb) }"
    using c st by (simp add: finish_ok_def client_apply_request_def client_is_registered_def Let_def)
  then obtain rb1 rb2 where rb: "send_welcome i ?sv rb = Some rb1" "rb_lr_end rb1 = Some rb2"
      and sv': "if rb_is_empty rb2 then sv' = ?sv else sv' = send i ?c (queue_item_from (rb_buf rb2)) ?sv"
    using run c' by (auto simp: finish_request_def bind_eq_Some_conv simp del: server.simps split: if_splits)
  have "says (lines_welcome (cl_nick c)) rb2" using says_lr_end [OF rb(2) welcome_says [OF rb(1) c']] by simp
  moreover from this have "\<not> rb_is_empty rb2" by (rule says_nonempty) (simp add: lines_welcome_def)
  ultimately show ?thesis using sv' by (auto simp: send_post says_def)
qed

section \<open>Registration\<close>

lemma settled_state:
  assumes "settled lb i req HOk s sv'" and "iget i (sv_clients s) = Some c" and "state_apply (cl_state c) req = Inr st"
  shows "iget i (sv_clients sv') = Some (c\<lparr>cl_state := st\<rparr>)" and "sv_nicks sv' = sv_nicks s"
    and "sv_password sv' = sv_password s"
  using assms by (auto simp: settled_def set_state_def post_def table)

lemma nick_accepted:
  assumes good: "good False sv" and c: "iget i (sv_clients sv) = Some c" "cl_state c = ConnectionEstablished"
    and free: "uget n (sv_nicks sv) = None"
    and line: "message_parse l = Some m" "ascii_str l" "length (msg_tags m) \<le> MAX_TAG_DATA_LENGTH"
    and req: "request_new m = Some (Inr (Req_Nick n))"
  obtains pts s where "handle_message env i m sv = Some (pts, s)" and "good False s"
    and "iget i (sv_clients s) = Some ((set_nick n c)\<lparr>cl_state := NickGiven\<rparr>)" and "uget n (sv_nicks s) = Some i"
    and "sv_password s = sv_password sv"
proof -
  let ?s = "sv\<lparr>sv_nicks := uput n i (udel (cl_nick c) (sv_nicks sv)), sv_clients := iupd i (set_nick n) (sv_clients sv)\<rparr>"
  have can: "client_can_issue_request (Req_Nick n) c" and st: "state_apply (cl_state c) (Req_Nick n) = Inr NickGiven"
    using c(2) by (simp_all add: client_can_issue_request_def request_patterns)
  have "cmd_nick i n sv rb = Some (HOk, ?s, rb_set_nick n rb)" for rb
    using c free by (simp add: cmd_nick_def change_nick_def client_is_registered_def)
  then have run: "run_request env i tgs (Req_Nick n) sv rb = Some (HOk, ?s, rb_set_nick n rb)" for rb tgs
    by (simp add: run_request_def)
  have "iget i (sv_clients ?s) = Some (set_nick n c)" using c(1) by (simp add: table)
  moreover have "cl_state (set_nick n c) = cl_state c" by (simp add: set_nick_def update_full_name_def)
  moreover obtain pts s where "handle_message env i m sv = Some (pts, s)" "good False s"
      "settled (message_label m) i (Req_Nick n) HOk ?s s"
    by (rule served_request [OF good c(1) line req can run]) (use c(1) in \<open>simp_all add: thas_def table\<close>)
  ultimately show thesis using that settled_state [of _ i "Req_Nick n" ?s s] st by (simp add: table)
qed

lemma user_registers:
  assumes good: "good False sv" and c: "iget i (sv_clients sv) = Some c" "cl_state c = NickGiven"
    and pw: "sv_password sv = [] \<or> cl_has_given_password c"
    and line: "message_parse l = Some m" "ascii_str l" "length (msg_tags m) \<le> MAX_TAG_DATA_LENGTH"
    and req: "request_new m = Some (Inr (Req_User u r))"
  obtains pts s d it where "handle_message env i m sv = Some (pts, s)" and "iget i (sv_clients s) = Some d"
    and "client_is_registered d" and "cl_nick d = cl_nick c" and "sv_nicks s = sv_nicks sv"
    and "(i, it) \<in> set (sv_sent s)" and "carries (lines_welcome (cl_nick c)) (qi_buf it)"
proof -
  let ?f = "set_real (take (sv_namelen sv) r) \<circ> set_user (take (sv_userlen sv) u)"
  let ?s = "sv\<lparr>sv_clients := iupd i ?f (sv_clients sv)\<rparr>"
  have f: "cl_state (?f c) = NickGiven" "cl_nick (?f c) = cl_nick c"
    using c(2) by (simp_all add: set_real_def set_user_def update_full_name_def)
  have can: "client_can_issue_request (Req_User u r) c" and st: "state_apply NickGiven (Req_User u r) = Inr Registered"
    using c(2) by (simp_all add: client_can_issue_request_def request_patterns)
  have "ascii_str u" "ascii_str r"
    using request_texts_ascii [OF _ _ req] parsed_params_ascii [OF line(1,2)] message_parse_shape(1) [OF line(1)]
    by auto
  then have run: "run_request env i tgs (Req_User u r) sv rb = Some (HOk, ?s, rb)" for rb tgs
    using c(1) pw by (simp add: run_request_def cmd_user_def str_trunc_ascii)
  have c': "iget i (sv_clients ?s) = Some (?f c)" using c(1) by (simp add: table)
  obtain pts s where h: "handle_message env i m sv = Some (pts, s)"
      "settled (message_label m) i (Req_User u r) HOk ?s s"
      "finish_request i (Req_User u r) (cl_operator c) HOk ?s (client_reply c (message_label m)) = Some (pts, s)"
    by (rule served_request [OF good c(1) line req can run]) (use c(1) in \<open>simp_all add: thas_def\<close>)
  obtain it where "(i, it) \<in> set (sv_sent s)" "carries (lines_welcome (cl_nick c)) (qi_buf it)"
    using finish_welcomes [OF h(3) c'] st f by (auto simp: client_is_registered_def)
  then show thesis using that h(1) settled_state [OF h(2) c'] st f by (simp add: client_is_registered_def)
qed

section \<open>Property\<close>

text \<open>C7: A client gets in.  When a connection has just been made, the server asks for no password (or it has
  been given) and nobody has the nickname, an ASCII \<open>NICK\<close> line and an ASCII \<open>USER\<close> line, with no more
  tags than allowed, are both handled without a panic, and then the client is registered under that name, the table of
  nicknames leads to it, and it has been sent the greeting.\<close>

theorem registration_completes:
  assumes "reachable False sv" and "iget i (sv_clients sv) = Some c" and "cl_state c = ConnectionEstablished"
    and "sv_password sv = [] \<or> cl_has_given_password c" and "uget n (sv_nicks sv) = None"
    and "ascii_str l1" and "message_parse l1 = Some m1" and "request_new m1 = Some (Inr (Req_Nick n))"
    and "ascii_str l2" and "message_parse l2 = Some m2" and "request_new m2 = Some (Inr (Req_User u r))"
    and "length (msg_tags m1) \<le> MAX_TAG_DATA_LENGTH" and "length (msg_tags m2) \<le> MAX_TAG_DATA_LENGTH"
  shows "\<exists>p1 s1 p2 s2 d it. handle_message env1 i m1 sv = Some (p1, s1) \<and> handle_message env2 i m2 s1 = Some (p2, s2)
    \<and> iget i (sv_clients s2) = Some d \<and> client_is_registered d \<and> cl_nick d = n \<and> uget n (sv_nicks s2) = Some i
    \<and> (i, it) \<in> set (sv_sent s2) \<and> carries (lines_welcome n) (qi_buf it)"
proof -
  let ?c = "(set_nick n c)\<lparr>cl_state := NickGiven\<rparr>"
  have fields: "cl_state ?c = NickGiven" "cl_nick ?c = n" "cl_has_given_password ?c = cl_has_given_password c"
    by (simp_all add: set_nick_def update_full_name_def)
  obtain p1 s1 where first: "handle_message env1 i m1 sv = Some (p1, s1)" "good False s1"
      "iget i (sv_clients s1) = Some ?c" "uget n (sv_nicks s1) = Some i" "sv_password s1 = sv_password sv"
    using nick_accepted [OF reachable_good [OF assms(1)] assms(2,3,5,7,6,12,8)] by blast
  then have "sv_password s1 = [] \<or> cl_has_given_password ?c" using assms(4) fields(3) by simp
  then show ?thesis
    using user_registers [OF first(2,3) fields(1) _ assms(10,9,13,11)] first(1,4) fields(2) by metis
qed

theorem registration_completes_witness:
  "\<exists>p1 s1 p2 s2 d. let sv = peer_joined env_sample 0 \<lparr>sa_ip = ''::1'', sa_port = 6667\<rparr> server_sample in
     handle_message env_sample 0 (the (message_parse ''NICK dan'')) sv = Some (p1, s1)
     \<and> handle_message env_sample 0 (the (message_parse ''USER d 0 * :Dan'')) s1 = Some (p2, s2)
     \<and> iget 0 (sv_clients s2) = Some d \<and> client_is_registered d \<and> uget ''dan'' (sv_nicks s2) = Some 0"
proof -
  let ?sv = "peer_joined env_sample 0 \<lparr>sa_ip = ''::1'', sa_port = 6667\<rparr> server_sample"
  have sv: "reachable False ?sv"
    by (rule reachable_step [OF server_sample_reachable]) (rule step_connect, simp add: thas_def, code_simp)
  have lines: "message_parse ''NICK dan'' = Some (the (message_parse ''NICK dan''))"
    "message_parse ''USER d 0 * :Dan'' = Some (the (message_parse ''USER d 0 * :Dan''))"
    "request_new (the (message_parse ''NICK dan'')) = Some (Inr (Req_Nick ''dan''))"
    "request_new (the (message_parse ''USER d 0 * :Dan'')) = Some (Inr (Req_User ''d'' ''Dan''))"
    by code_simp+
  have client: "iget 0 (sv_clients ?sv) = Some (the (iget 0 (sv_clients ?sv)))"
    "cl_state (the (iget 0 (sv_clients ?sv))) = ConnectionEstablished" "uget ''dan'' (sv_nicks ?sv) = None"
    "sv_password ?sv = [] \<or> cl_has_given_password (the (iget 0 (sv_clients ?sv)))"
    by code_simp+
  have ascii: "ascii_str ''NICK dan''" "ascii_str ''USER d 0 * :Dan''"
    "length (msg_tags (the (message_parse ''NICK dan''))) \<le> MAX_TAG_DATA_LENGTH"
    "length (msg_tags (the (message_parse ''USER d 0 * :Dan''))) \<le> MAX_TAG_DATA_LENGTH"
    by code_simp+
  show ?thesis
    using registration_completes [OF sv client(1,2,4,3) ascii(1) lines(1,3) ascii(2) lines(2,4) ascii(3,4),
        of env_sample env_sample] by (auto simp: Let_def)
qed

end
