(* ===== verification/ReplyLocals.thy ===== *)
theory ReplyLocals
  imports Buffers
begin

text \<open>
  Reply buffers as the code keeps them: the domain, the nickname and the label of a \<open>ReplyBuffer\<close> are
  not fields but thread-local variables, which outlive the buffer, and the label is left as it was when a
  request has none.  The other theories use the buffer of theory \<^verbatim>\<open>Buffers\<close>, which owns its three texts;
  here the thread-local version is shown to refine it.
\<close>

section \<open>Thread-local variables\<close>

record reply_locals =
  tl_domain :: string
  tl_nick :: string
  tl_label :: string

definition tl_set_nick :: "string \<Rightarrow> reply_locals \<Rightarrow> reply_locals" where
  "tl_set_nick nickname loc = loc\<lparr>tl_nick := nickname\<rparr>"

definition tl_set_domain :: "string \<Rightarrow> reply_locals \<Rightarrow> reply_locals" where
  "tl_set_domain domain loc = loc\<lparr>tl_domain := domain\<rparr>"

definition tl_set_label :: "string \<Rightarrow> reply_locals \<Rightarrow> reply_locals" where
  "tl_set_label label loc = (if label = [] then loc else loc\<lparr>tl_label := label\<rparr>)"

section \<open>The buffer\<close>

record local_buffer =
  lb_buf :: string
  lb_batch :: "nat option"
  lb_has_label :: bool

definition lb_new :: "string \<Rightarrow> string \<Rightarrow> string \<Rightarrow> reply_locals \<Rightarrow> reply_locals \<times> local_buffer" where
  "lb_new domain nickname label loc =
     (tl_set_label label (tl_set_domain domain (tl_set_nick nickname loc)),
      \<lparr>lb_buf = [], lb_batch = None, lb_has_label = (label \<noteq> [])\<rparr>)"

definition lb_tagged_message :: "reply_locals \<Rightarrow> string \<Rightarrow> local_buffer \<Rightarrow> tag_buffer \<times> local_buffer" where
  "lb_tagged_message loc tgs rb =
     (let msg = buffer_tagged_message tgs (lb_buf rb);
          msg = (if lb_has_label rb then tb_tag ''label'' (Some (tl_label loc)) msg else msg);
          msg = (case lb_batch rb of
                   Some batch \<Rightarrow> tb_tag ''batch'' (Some (show_nat batch)) msg
                 | None \<Rightarrow> msg)
      in (msg, rb\<lparr>lb_has_label := False\<rparr>))"

definition lb_tagged_statement ::
  "reply_locals \<Rightarrow> string \<Rightarrow> (string \<times> string option) list \<Rightarrow> string \<Rightarrow> command \<Rightarrow> mb_call list
   \<Rightarrow> local_buffer \<Rightarrow> local_buffer" where
  "lb_tagged_statement loc tgs kvs prefix cmd calls rb =
     (let (msg, rb) = lb_tagged_message loc tgs rb;
          msg = fold (\<lambda>(k, v). tb_tag k v) kvs msg
      in rb\<lparr>lb_buf := mb_statement calls (tb_prefixed_command prefix cmd msg)\<rparr>)"

definition lb_message ::
  "reply_locals \<Rightarrow> string \<Rightarrow> command \<Rightarrow> mb_call list \<Rightarrow> local_buffer \<Rightarrow> local_buffer" where
  "lb_message loc prefix cmd calls rb = lb_tagged_statement loc [] [] prefix cmd calls rb"

definition lb_prefixed_message ::
  "reply_locals \<Rightarrow> command \<Rightarrow> mb_call list \<Rightarrow> local_buffer \<Rightarrow> local_buffer" where
  "lb_prefixed_message loc cmd calls rb = lb_message loc (tl_domain loc) cmd calls rb"

definition lb_reply :: "reply_locals \<Rightarrow> command \<Rightarrow> mb_call list \<Rightarrow> local_buffer \<Rightarrow> local_buffer" where
  "lb_reply loc r calls rb = lb_prefixed_message loc r (Param (tl_nick loc) # calls) rb"

definition lb_new_batch :: "local_buffer \<Rightarrow> nat \<times> local_buffer" where
  "lb_new_batch rb =
     (let next_id = (case lb_batch rb of None \<Rightarrow> 0 | Some prev \<Rightarrow> prev + 1)
      in (next_id, rb\<lparr>lb_batch := Some next_id\<rparr>))"

definition lb_lr_batch_begin :: "reply_locals \<Rightarrow> local_buffer \<Rightarrow> local_buffer" where
  "lb_lr_batch_begin loc rb =
     (if \<not> lb_has_label rb then rb
      else
        (let rb = rb\<lparr>lb_has_label := False\<rparr>;
             (new_batch, rb) = lb_new_batch rb;
             msg = tb_tag ''label'' (Some (tl_label loc)) (buffer_tagged_message [] (lb_buf rb))
         in rb\<lparr>lb_buf := mb_statement
                 [FmtParam (''+'' @ show_nat new_batch), Param ''labeled-response'']
                 (tb_prefixed_command (tl_domain loc) (Reply ''BATCH'') msg)\<rparr>))"

definition lb_batch_begin :: "reply_locals \<Rightarrow> string \<Rightarrow> local_buffer \<Rightarrow> local_buffer" where
  "lb_batch_begin loc name rb =
     (let (new_batch, rb) = lb_new_batch rb
      in lb_prefixed_message loc (Reply ''BATCH'') [FmtParam (''+'' @ show_nat new_batch), Param name] rb)"

definition lb_batch_end :: "reply_locals \<Rightarrow> local_buffer \<Rightarrow> local_buffer" where
  "lb_batch_end loc rb =
     (case lb_batch rb of
        None \<Rightarrow> rb
      | Some prev \<Rightarrow>
          lb_prefixed_message loc (Reply ''BATCH'') [FmtParam (''-'' @ show_nat prev)]
            (rb\<lparr>lb_batch := (if prev = 0 then None else Some (prev - 1))\<rparr>))"

definition lb_lr_end :: "reply_locals \<Rightarrow> local_buffer \<Rightarrow> local_buffer option" where
  "lb_lr_end loc rb =
     (if \<not> lb_has_label rb \<and> lb_batch rb = None then Some rb
      else
        (let rb = (if lb_batch rb \<noteq> None then lb_batch_end loc rb else rb)
         in if lb_batch rb \<noteq> None then None
            else
              (let rb = (if lb_buf rb = [] then lb_prefixed_message loc (Reply ''ACK'') [] rb else rb)
               in Some (rb\<lparr>lb_has_label := False\<rparr>))))"

section \<open>What handlers do with a buffer\<close>

text \<open>The calls of a handler, in their order.  The two versions of the buffer interpret them.\<close>

datatype reply_call =
    Call_SetNick string
  | Call_Tagged string "(string \<times> string option) list" string command "mb_call list"
  | Call_Message string command "mb_call list"
  | Call_Prefixed command "mb_call list"
  | Call_Reply command "mb_call list"
  | Call_LrBatchBegin
  | Call_BatchBegin string
  | Call_BatchEnd
  | Call_LrEnd

fun rb_call :: "reply_call \<Rightarrow> reply_buffer \<Rightarrow> reply_buffer option" where
  "rb_call (Call_SetNick n) rb = Some (rb_set_nick n rb)"
| "rb_call (Call_Tagged tgs kvs p c cs) rb = Some (rb_tagged_statement tgs kvs p c cs rb)"
| "rb_call (Call_Message p c cs) rb = Some (rb_message p c cs rb)"
| "rb_call (Call_Prefixed c cs) rb = Some (rb_prefixed_message c cs rb)"
| "rb_call (Call_Reply c cs) rb = Some (rb_reply c cs rb)"
| "rb_call Call_LrBatchBegin rb = Some (rb_lr_batch_begin rb)"
| "rb_call (Call_BatchBegin name) rb = Some (rb_batch_begin name rb)"
| "rb_call Call_BatchEnd rb = Some (rb_batch_end rb)"
| "rb_call Call_LrEnd rb = rb_lr_end rb"

text \<open>A call that panics leaves the variables of the thread behind.\<close>

fun lb_call :: "reply_call \<Rightarrow> reply_locals \<Rightarrow> local_buffer \<Rightarrow> reply_locals \<times> local_buffer option" where
  "lb_call (Call_SetNick n) loc rb = (tl_set_nick n loc, Some rb)"
| "lb_call (Call_Tagged tgs kvs p c cs) loc rb = (loc, Some (lb_tagged_statement loc tgs kvs p c cs rb))"
| "lb_call (Call_Message p c cs) loc rb = (loc, Some (lb_message loc p c cs rb))"
| "lb_call (Call_Prefixed c cs) loc rb = (loc, Some (lb_prefixed_message loc c cs rb))"
| "lb_call (Call_Reply c cs) loc rb = (loc, Some (lb_reply loc c cs rb))"
| "lb_call Call_LrBatchBegin loc rb = (loc, Some (lb_lr_batch_begin loc rb))"
| "lb_call (Call_BatchBegin name) loc rb = (loc, Some (lb_batch_begin loc name rb))"
| "lb_call Call_BatchEnd loc rb = (loc, Some (lb_batch_end loc rb))"
| "lb_call Call_LrEnd loc rb = (loc, lb_lr_end loc rb)"

fun rb_calls :: "reply_call list \<Rightarrow> reply_buffer \<Rightarrow> reply_buffer option" where
  "rb_calls [] rb = Some rb"
| "rb_calls (call # calls) rb = Option.bind (rb_call call rb) (rb_calls calls)"

fun lb_calls :: "reply_call list \<Rightarrow> reply_locals \<Rightarrow> local_buffer \<Rightarrow> reply_locals \<times> local_buffer option" where
  "lb_calls [] loc rb = (loc, Some rb)"
| "lb_calls (call # calls) loc rb =
     (case lb_call call loc rb of
        (loc, None) \<Rightarrow> (loc, None)
      | (loc, Some rb) \<Rightarrow> lb_calls calls loc rb)"

text \<open>The requests that one thread serves, one after the other: the texts of \<open>ReplyBuffer::new\<close> and the
  calls; a request that panics has no reply.\<close>

type_synonym reply_session = "string \<times> string \<times> string \<times> reply_call list"

definition own_reply :: "reply_session \<Rightarrow> string option" where
  "own_reply s = (case s of (domain, nickname, label, calls) \<Rightarrow>
     map_option rb_buf (rb_calls calls (rb_new domain nickname label)))"

fun thread_replies :: "reply_session list \<Rightarrow> reply_locals \<Rightarrow> string option list" where
  "thread_replies [] loc = []"
| "thread_replies ((domain, nickname, label, calls) # sessions) loc =
     (let (loc, rb) = lb_new domain nickname label loc;
          (loc, rb) = lb_calls calls loc rb
      in map_option lb_buf rb # thread_replies sessions loc)"

section \<open>Refinement\<close>

text \<open>The buffer that owns its texts, seen from the variables of the thread.  The variable of the label is
  the label of the request only as long as the label has not been used.\<close>

definition owned :: "string \<Rightarrow> reply_locals \<Rightarrow> local_buffer \<Rightarrow> reply_buffer" where
  "owned label loc rb =
     \<lparr>rb_buf = lb_buf rb, rb_batch = lb_batch rb, rb_has_label = lb_has_label rb,
      rb_domain = tl_domain loc, rb_nick = tl_nick loc, rb_label = label\<rparr>"

definition label_live :: "string \<Rightarrow> reply_locals \<Rightarrow> local_buffer \<Rightarrow> bool" where
  "label_live label loc rb \<longleftrightarrow> (lb_has_label rb \<longrightarrow> tl_label loc = label)"

lemma owned_fields [simp]:
  "rb_buf (owned l loc rb) = lb_buf rb" "rb_batch (owned l loc rb) = lb_batch rb"
  "rb_has_label (owned l loc rb) = lb_has_label rb" "rb_domain (owned l loc rb) = tl_domain loc"
  "rb_nick (owned l loc rb) = tl_nick loc" "rb_label (owned l loc rb) = l"
  by (simp_all add: owned_def)

lemma owned_updates:
  "(owned l loc rb)\<lparr>rb_buf := b\<rparr> = owned l loc (rb\<lparr>lb_buf := b\<rparr>)"
  "(owned l loc rb)\<lparr>rb_batch := n\<rparr> = owned l loc (rb\<lparr>lb_batch := n\<rparr>)"
  "(owned l loc rb)\<lparr>rb_has_label := h\<rparr> = owned l loc (rb\<lparr>lb_has_label := h\<rparr>)"
  by (simp_all add: owned_def)

lemma owned_new:
  "lb_new domain nickname label loc = (loc', rb) \<Longrightarrow>
     owned label loc' rb = rb_new domain nickname label \<and> label_live label loc' rb"
  by (auto simp: lb_new_def rb_new_def owned_def label_live_def tl_set_nick_def tl_set_domain_def tl_set_label_def)

lemma owned_statement:
  assumes "label_live l loc rb"
  shows "rb_tagged_statement tgs kvs p c cs (owned l loc rb) = owned l loc (lb_tagged_statement loc tgs kvs p c cs rb)"
  using assms by (cases "lb_batch rb"; cases "lb_has_label rb")
    (simp_all add: rb_tagged_statement_def rb_tagged_message_def lb_tagged_statement_def lb_tagged_message_def
      label_live_def owned_updates Let_def)

lemma owned_messages:
  assumes "label_live l loc rb"
  shows "rb_message p c cs (owned l loc rb) = owned l loc (lb_message loc p c cs rb)"
    and "rb_prefixed_message c cs (owned l loc rb) = owned l loc (lb_prefixed_message loc c cs rb)"
    and "rb_reply c cs (owned l loc rb) = owned l loc (lb_reply loc c cs rb)"
  using owned_statement [OF assms]
  by (simp_all add: rb_message_def rb_prefixed_message_def rb_reply_def lb_message_def lb_prefixed_message_def
      lb_reply_def)

lemma label_used [simp]:
  "\<not> lb_has_label (lb_tagged_statement loc tgs kvs p c cs rb)" "\<not> lb_has_label (lb_message loc p c cs rb)"
  "\<not> lb_has_label (lb_prefixed_message loc c cs rb)" "\<not> lb_has_label (lb_reply loc c cs rb)"
  by (simp_all add: lb_tagged_statement_def lb_tagged_message_def lb_message_def lb_prefixed_message_def
      lb_reply_def Let_def)

lemma owned_lr_batch_begin:
  assumes "label_live l loc rb"
  shows "rb_lr_batch_begin (owned l loc rb) = owned l loc (lb_lr_batch_begin loc rb)"
  using assms by (simp add: rb_lr_batch_begin_def lb_lr_batch_begin_def rb_new_batch_def lb_new_batch_def
      label_live_def owned_updates Let_def)

lemma owned_batch_begin:
  assumes "label_live l loc rb"
  shows "rb_batch_begin name (owned l loc rb) = owned l loc (lb_batch_begin loc name rb)"
proof -
  have "label_live l loc (rb\<lparr>lb_batch := n\<rparr>)" for n using assms by (simp add: label_live_def)
  then show ?thesis
    by (simp add: rb_batch_begin_def lb_batch_begin_def rb_new_batch_def lb_new_batch_def owned_updates
        owned_messages Let_def)
qed

lemma owned_batch_end:
  assumes "label_live l loc rb"
  shows "rb_batch_end (owned l loc rb) = owned l loc (lb_batch_end loc rb)"
proof -
  have "label_live l loc (rb\<lparr>lb_batch := n\<rparr>)" for n using assms by (simp add: label_live_def)
  then show ?thesis
    by (simp add: rb_batch_end_def lb_batch_end_def owned_updates owned_messages split: option.splits)
qed

lemma label_live_batch_end: "label_live l loc rb \<Longrightarrow> label_live l loc (lb_batch_end loc rb)"
  by (simp add: lb_batch_end_def label_live_def split: option.splits)

lemma owned_lr_end:
  assumes "label_live l loc rb"
  shows "rb_lr_end (owned l loc rb) = map_option (owned l loc) (lb_lr_end loc rb)"
  using assms by (auto simp: rb_lr_end_def lb_lr_end_def rb_is_empty_def owned_batch_end owned_messages
      label_live_batch_end owned_updates Let_def)

lemma owned_set_nick: "rb_set_nick n (owned l loc rb) = owned l (tl_set_nick n loc) rb"
  by (simp add: rb_set_nick_def tl_set_nick_def owned_def)

lemma owned_call:
  assumes "label_live l loc rb"
  shows "case lb_call call loc rb of (loc', res) \<Rightarrow>
    rb_call call (owned l loc rb) = map_option (owned l loc') res \<and> pred_option (label_live l loc') res"
proof (cases call)
  case Call_LrEnd
  have "label_live l loc (r\<lparr>lb_has_label := False\<rparr>)" for r by (simp add: label_live_def)
  then show ?thesis using Call_LrEnd assms owned_lr_end [OF assms] by (simp add: lb_lr_end_def Let_def)
qed (use assms in \<open>simp_all add: owned_set_nick owned_statement owned_messages owned_lr_batch_begin
      owned_batch_begin owned_batch_end label_live_batch_end\<close>,
    simp_all add: label_live_def tl_set_nick_def lb_lr_batch_begin_def lb_new_batch_def lb_batch_begin_def Let_def)

lemma owned_calls:
  assumes "label_live l loc rb"
  shows "rb_calls calls (owned l loc rb) = map_option (owned l (fst (lb_calls calls loc rb))) (snd (lb_calls calls loc rb))"
  using assms
proof (induction calls arbitrary: loc rb)
  case (Cons call calls)
  then show ?case
    using owned_call [OF Cons.prems, of call] by (cases "snd (lb_call call loc rb)") (auto split: prod.splits)
qed simp

text \<open>Two buffers that are used at the same time would disturb each other: the first takes the nickname
  of the second.  The server makes one buffer for each request, while it holds the lock.\<close>

lemma two_buffers_disturb:
  "let loc = \<lparr>tl_domain = [], tl_nick = [], tl_label = []\<rparr>;
       (loc1, first) = lb_new ''d'' ''a'' [] loc; (loc2, second) = lb_new ''d'' ''b'' [] loc1
   in lb_buf (lb_reply loc1 (Reply ''001'') [] first) = '':d 001 a'' @ crlf
      \<and> lb_buf (lb_reply loc2 (Reply ''001'') [] first) = '':d 001 b'' @ crlf"
  by code_simp

section \<open>Property\<close>

text \<open>C27: Replies are independent.  Whatever a thread has done before, and whatever the requests it serves do
  with their reply buffers, the thread-local variables lead to the same replies, and the same panics, as
  buffers that own their domain, nickname and label: in particular the label of an earlier request is
  never in the reply to one that has none.\<close>

theorem replies_independent: "thread_replies sessions loc = map own_reply sessions"
proof (induction sessions arbitrary: loc)
  case (Cons session sessions)
  obtain domain nickname label calls where session: "session = (domain, nickname, label, calls)"
    by (cases session) auto
  obtain loc1 rb where start: "lb_new domain nickname label loc = (loc1, rb)" by fastforce
  have "map_option rb_buf (rb_calls calls (owned label loc1 rb)) = map_option lb_buf (snd (lb_calls calls loc1 rb))"
    using owned_calls [of label loc1 rb calls] owned_new [OF start] by (simp add: option.map_comp comp_def)
  then show ?case
    using Cons.IH owned_new [OF start] by (simp add: session own_reply_def start split_def)
qed simp

end
