(* ===== verification/Conformance.thy ===== *)
theory Conformance
  imports Masks Channels
begin

text \<open>
  The unit tests and the examples in the documentation of the program, replayed on the model.  Each equation
  is one assertion of the source, evaluated by the kernel.
\<close>

section \<open>\<open>ellidri-unicase/src/lib.rs\<close>\<close>

lemma unicase_examples:
  "unicase_eq Ascii ''#Games'' ''#gameS''" "\<not> unicase_eq Ascii ''#Games'' ''#Gaming''"
  "unicase_eq Ascii ''hello!'' ''HELLO!''"
  by code_simp+

section \<open>\<open>ellidri-tokens/src/message.rs\<close>\<close>

lemma test_tag_parse:
  "tags [] = []"
  "tags ''time=12732;re'' = [\<lparr>tag_key = ''time'', tag_value = Some ''12732''\<rparr>, \<lparr>tag_key = ''re'', tag_value = None\<rparr>]"
  "tags ''+time=12732;re=;+asdf=5678'' = [\<lparr>tag_key = ''+time'', tag_value = Some ''12732''\<rparr>, \<lparr>tag_key = ''re'', tag_value = None\<rparr>, \<lparr>tag_key = ''+asdf'', tag_value = Some ''5678''\<rparr>]"
  "tags ''=these;time=12732;+=shouldbe;re=;asdf=5678;=ignored'' = [\<lparr>tag_key = ''time'', tag_value = Some ''12732''\<rparr>, \<lparr>tag_key = ''re'', tag_value = None\<rparr>, \<lparr>tag_key = ''asdf'', tag_value = Some ''5678''\<rparr>]"
  "tags ''label=007;+custom='' = [\<lparr>tag_key = ''label'', tag_value = Some ''007''\<rparr>, \<lparr>tag_key = ''+custom'', tag_value = None\<rparr>]"
  by code_simp+

lemma test_unescape:
  "unescape_value \<lparr>tag_key = [], tag_value = Some (''te'' @ [CHR 0x5C] @ ''n'' @ [CHR 0x5C] @ ''kst'')\<rparr> = ''te'' @ [CHR 0x0A] @ ''kst''"
  "unescape_value \<lparr>tag_key = [], tag_value = Some (''te'' @ [CHR 0x5C] @ ''n'' @ [CHR 0x5C] @ ''kst'' @ [CHR 0x5C])\<rparr> = ''te'' @ [CHR 0x0A] @ ''kst''"
  "unescape_value \<lparr>tag_key = [], tag_value = Some (''te'' @ [CHR 0x5C, CHR 0x5C] @ ''nst'')\<rparr> = ''te'' @ [CHR 0x5C] @ ''nst''"
  "unescape_value \<lparr>tag_key = [], tag_value = Some (''te'' @ [CHR 0xF0, CHR 0x9F, CHR 0x98, CHR 0x83] @ ''st'')\<rparr> = ''te'' @ [CHR 0xF0, CHR 0x9F, CHR 0x98, CHR 0x83] @ ''st''"
  "unescape_value \<lparr>tag_key = [], tag_value = Some (''te'' @ [CHR 0xF0, CHR 0x9F, CHR 0x98, CHR 0x83, CHR 0x5C] @ ''st'')\<rparr> = ''te'' @ [CHR 0xF0, CHR 0x9F, CHR 0x98, CHR 0x83] @ '' t''"
  "unescape_value \<lparr>tag_key = [], tag_value = Some (''0'' @ [CHR 0x5C] @ ''n1'' @ [CHR 0x5C] @ ''n2'' @ [CHR 0x5C] @ ''n3'' @ [CHR 0x5C] @ ''n4'' @ [CHR 0x5C] @ ''n5'' @ [CHR 0x5C] @ ''n6'' @ [CHR 0x5C] @ ''n'' @ [CHR 0x5C])\<rparr> = ''0'' @ [CHR 0x0A] @ ''1'' @ [CHR 0x0A] @ ''2'' @ [CHR 0x0A] @ ''3'' @ [CHR 0x0A] @ ''4'' @ [CHR 0x0A] @ ''5'' @ [CHR 0x0A] @ ''6'' @ [CHR 0x0A]"
  "unescape_value \<lparr>tag_key = [], tag_value = Some (''test'' @ [CHR 0x5C])\<rparr> = ''test''"
  "unescape_value \<lparr>tag_key = [], tag_value = Some (''te'' @ [CHR 0x5C] @ '':st'' @ [CHR 0x5C])\<rparr> = ''te;st''"
  "unescape_value \<lparr>tag_key = [], tag_value = Some (''te'' @ [CHR 0x5C] @ '':'' @ [CHR 0x5C] @ ''st'' @ [CHR 0x5C])\<rparr> = ''te; t''"
  "unescape_value \<lparr>tag_key = [], tag_value = Some ([CHR 0x5C, CHR 0x5C] @ ''te'' @ [CHR 0x5C] @ '':'' @ [CHR 0x5C] @ ''st'')\<rparr> = [CHR 0x5C] @ ''te; t''"
  "unescape_value \<lparr>tag_key = [], tag_value = Some ([CHR 0x5C])\<rparr> = []"
  "unescape_value \<lparr>tag_key = [], tag_value = Some ([])\<rparr> = []"
  by code_simp+

lemma tag_examples:
  "tag_escape (CHR '':'') = CHR '';''" "tag_escape (CHR ''b'') = CHR ''b''"
  "tag_parse ''label=123456'' = \<lparr>tag_key = ''label'', tag_value = Some ''123456''\<rparr>"
  "\<not> tag_is_client (tag_parse ''msgid=42'')" "tag_is_client (tag_parse ''+example.pizza/beer'')"
  by code_simp+

section \<open>\<open>ellidri-tokens/src/buffers.rs\<close>\<close>

lemma buffer_examples:
  "buffer_message ''nick!user@127.0.0.1'' Cmd_Quit [Param [], Param ''  chiao ''] []
     = '':nick!user@127.0.0.1 QUIT chiao'' @ crlf"
  "buffer_message [] Cmd_PrivMsg [FmtParam ''  #space '', FmtParam (show_nat 42)] []
     = ''PRIVMSG   #space  42'' @ crlf"
  "buffer_message ''nick!user@127.0.0.1'' Cmd_Quit [TrailingParam ''long quit message''] []
     = '':nick!user@127.0.0.1 QUIT :long quit message'' @ crlf"
  "buffer_message ''ellidri.dev'' (Reply ''332'') [Param ''nickname'', Param ''#hall'', TrailingParam ''Welcome to new users!'']
     (buffer_message ''nick!user@127.0.0.1'' Cmd_Topic [Param ''#hall'', TrailingParam ''Welcome to new users!''] [])
     = '':nick!user@127.0.0.1 TOPIC #hall :Welcome to new users!'' @ crlf
       @ '':ellidri.dev 332 nickname #hall :Welcome to new users!'' @ crlf"
  "buffer_message ''unneeded_prefix'' Cmd_Admin [] [] = '':unneeded_prefix ADMIN'' @ crlf"
  by code_simp+

section \<open>\<open>ellidri-tokens/src/mode.rs\<close>\<close>

lemma test_simple_query:
  "simple_query ''+ab+C++D+-+E--fg+-h'' = [(True, ''a''), (True, ''b''), (True, ''C''), (True, ''D''), (True, ''E''), (False, ''f''), (False, ''g''), (False, ''h'')]"
  "simple_query ''a'' = [(True, ''a'')]"
  "simple_query [] = []"
  "simple_query '' '' = [(True, '' '')]"
  by code_simp+

lemma test_chanmode_key:
  "channel_query ''+k'' [] = [Inl (MissingParam ''k'' True)]"
  "channel_query ''+k'' [''beer''] = [Inr (Key True ''beer'')]"
  "channel_query ''-k'' [] = [Inr (Key False ''*'')]"
  "channel_query ''-k'' [''beer''] = [Inr (Key False ''beer'')]"
  "channel_query ''+kb'' [''beer''] = [Inr (Key True ''beer''), Inr GetBans]"
  "channel_query ''-kb'' [''beer''] = [Inr (Key False ''beer''), Inr GetBans]"
  "channel_query ''+bk'' [''beer''] = [Inr (ChangeBan True ''beer''), Inl (MissingParam ''k'' True)]"
  "channel_query ''-bk'' [''beer''] = [Inr (ChangeBan False ''beer''), Inr (Key False ''*'')]"
  "channel_query ''+kb'' [''beer'', ''wine''] = [Inr (Key True ''beer''), Inr (ChangeBan True ''wine'')]"
  "channel_query ''-kb'' [''beer'', ''wine''] = [Inr (Key False ''beer''), Inr (ChangeBan False ''wine'')]"
  "channel_query ''+bk'' [''beer'', ''wine''] = [Inr (ChangeBan True ''beer''), Inr (Key True ''wine'')]"
  "channel_query ''-bk'' [''beer'', ''wine''] = [Inr (ChangeBan False ''beer''), Inr (Key False ''wine'')]"
  by code_simp+

section \<open>\<open>src/util.rs\<close>\<close>

lemma test_mask_match:
  "match_mask ''abc'' ''abc'' = Some True"
  "match_mask ''*'' ''abc'' = Some True"
  "match_mask ''*c'' ''abc'' = Some True"
  "match_mask ''a*'' ''a'' = Some True"
  "match_mask ''a*'' ''abc'' = Some True"
  "match_mask ''a*/b'' ''abc/b'' = Some True"
  "match_mask ''a*b?c*x'' ''abxbbxdbxebxczzx'' = Some True"
  "match_mask ''a*b?c*x'' ''abxbbxdbxebxczzy'' = Some False"
  "match_mask ''a?b'' (''a'' @ [CHR 0xE2, CHR 0x98, CHR 0xBA] @ ''b'') = Some True"
  "match_mask ''a???b'' (''a'' @ [CHR 0xE2, CHR 0x98, CHR 0xBA] @ ''b'') = Some False"
  "match_mask ''*x'' ''xxx'' = Some True"
  by code_simp+

section \<open>\<open>src/channel.rs\<close>\<close>

lemma test_member_modes_is_at_least:
  fixes operator halfop voice :: member_modes
  defines "voice \<equiv> member_modes_default\<lparr>mm_voice := True\<rparr>"
    and "halfop \<equiv> member_modes_default\<lparr>mm_halfop := True\<rparr>"
    and "operator \<equiv> member_modes_default\<lparr>mm_operator := True, mm_halfop := True\<rparr>"
  shows "has_voice operator" "is_at_least_halfop operator" "is_at_least_op operator"
    "has_voice halfop" "is_at_least_halfop halfop" "\<not> is_at_least_op halfop"
    "has_voice voice" "\<not> is_at_least_halfop voice" "\<not> is_at_least_op voice"
  by (simp_all add: voice_def halfop_def operator_def member_modes_default_def has_voice_def
      is_at_least_halfop_def is_at_least_op_def)

end
