(* ===== verification/Spec2Isabelle.thy ===== *)
theory Spec2Isabelle
  imports Control Tasks Wire Sessions ReplyLocals Conformance
begin

text \<open>
  A verification development for ellidri, an IRC server written in Rust.

  \<^bold>\<open>The program and its parts.\<close>  A control task (\<open>src/control.rs\<close>) loads the configuration
  (\<open>src/config.rs\<close>) and starts one listening task for each binding (\<open>src/net.rs\<close>).  Each connection has a
  task that reads lines (\<open>ellidri-reader\<close>), parses them (\<open>ellidri-tokens/src/message.rs\<close>), locks the shared
  state and calls \<open>StateInner::handle_message\<close> (\<open>src/state/mod.rs\<close>), and then waits as long as the rate
  limiter asks for.  A message becomes a typed request (\<open>src/data\<close>), the connection state machine
  (\<open>src/client.rs\<close>) says whether the client may issue it, and a handler (\<open>src/state/v1.rs\<close>, \<open>v3.rs\<close>)
  changes the tables of clients, nicknames and channels (\<open>src/channel.rs\<close>), queues messages for other
  clients, and writes its answer to a reply buffer (\<open>ellidri-tokens/src/buffers.rs\<close>) which is queued for
  the issuer in the end.

  \<^bold>\<open>How code is represented.\<close>  A text is a list of bytes (\<^typ>\<open>string\<close>); a slice that is out of range or
  not at the boundary of a character, an index or \<open>unwrap\<close> that fails, and \<open>todo!()\<close> are \<^const>\<open>None\<close>.
  Structures are records, enumerations are datatypes, \<open>Result\<close> is a sum.  Hash tables and the slab of
  clients are association lists with the comparison of their keys (theory \<^verbatim>\<open>HashTable\<close>): lookups are
  what the code relies on, and where the code iterates over a table the order of the list stands for the
  unspecified order of iteration.  Integers are \<^typ>\<open>nat\<close> where they are lengths and identifiers, and
  \<^typ>\<open>32 word\<close> and \<^typ>\<open>64 word\<close> where the rate limiter and the idle times compute with them; an
  overflow there is the panic of a debug build.  What is sent to clients is a list of
  (client, queue item) pairs in the state, in the order of sending.  The mutex makes every use of the
  state one step.

  \<^bold>\<open>The library.\<close>
  \<^item> \<^verbatim>\<open>Prelude\<close>: Rust string operations, characters, generic lemmas and the collections of hints.
  \<^item> \<^verbatim>\<open>Unicase\<close> (\<open>ellidri-unicase/src/lib.rs\<close>): the case mappings, equality and hash of \<open>UniCase\<close>.
  \<^item> \<^verbatim>\<open>HashTable\<close>: the tables, the contract of a map as the locale \<^verbatim>\<open>hash_map\<close>, interpreted for
    identifiers and for case-insensitive names.
  \<^item> \<^verbatim>\<open>Lines\<close>, \<^verbatim>\<open>Rpl\<close>, \<^verbatim>\<open>Commands\<close> (\<open>src/lines.rs\<close>, \<open>ellidri-tokens/src/rpl.rs\<close>, \<open>command.rs\<close>): constants,
    and the table that the macro of commands expands.
  \<^item> \<^verbatim>\<open>Messages\<close> (\<open>message.rs\<close>): parsing and escaping; \<^verbatim>\<open>Buffers\<close> (\<open>buffers.rs\<close>): building messages,
    tags and labelled replies; the round trips between the two; \<^verbatim>\<open>ModeQuery\<close> (\<open>mode.rs\<close>): mode strings.
  \<^item> \<^verbatim>\<open>ReplyLocals\<close> (\<open>buffers.rs\<close>): reply buffers with the thread-local variables of the code, as a
    refinement of those of \<^verbatim>\<open>Buffers\<close>, which the handlers use.
  \<^item> \<^verbatim>\<open>Masks\<close> (\<open>src/util.rs\<close>): wildcard matching against a declarative meaning, and mask sets as a
    refinement of lists of masks, and of finite sets as long as no mask has a comma (locale \<^verbatim>\<open>set_store\<close>).
  \<^item> \<^verbatim>\<open>Caps\<close>, \<^verbatim>\<open>Names\<close>, \<^verbatim>\<open>Requests\<close> (\<open>src/data\<close>): capabilities, checked texts, requests and points.
  \<^item> \<^verbatim>\<open>Channels\<close>, \<^verbatim>\<open>Clients\<close>, \<^verbatim>\<open>Config\<close> (\<open>src/channel.rs\<close>, \<open>client.rs\<close>, \<open>config.rs\<close>).
  \<^item> \<^verbatim>\<open>ServerState\<close> (\<open>src/state/mod.rs\<close>): the state and its shared operations - arrival and removal of a
    client, notifications, look-ups that answer with an error, \<open>WELCOME\<close>, rehash.
  \<^item> \<^verbatim>\<open>V1Queries\<close>, \<^verbatim>\<open>V1Users\<close>, \<^verbatim>\<open>V1Channels\<close> (\<open>src/state/v1.rs\<close>, \<open>v3.rs\<close>): one definition for each handler.
  \<^item> \<^verbatim>\<open>Server\<close>: \<open>handle_message\<close>, the dispatch, and what surrounds a handler.
  \<^item> \<^verbatim>\<open>Reader\<close> (\<open>ellidri-reader/src/lib.rs\<close>): reading a line, over any buffered reader that keeps the contract
    \<^verbatim>\<open>buffered\<close>; \<^verbatim>\<open>Net\<close> (\<open>src/net.rs\<close>): TLS identities, accepting, rate limiter, the life of a connection;
    \<^verbatim>\<open>Control\<close> (\<open>src/control.rs\<close>, \<open>main.rs\<close>): the start of the process, loading, reloading and removing
    bindings; \<^verbatim>\<open>Clock\<close> (\<open>src/util.rs\<close>): the time and the identifiers that the environment of a message holds.
  \<^item> \<^verbatim>\<open>Tasks\<close> (\<open>State\<close> of \<open>src/state/mod.rs\<close>, and the tasks that hold it): the control task, the listening tasks,
    the connections and the login timers in any interleaving, each making one locked call at a time, or crashing
    when its request panics (\<open>moves\<close>).  The keys of the
    slab are used again, which the tasks of a client that has left do not know: \<open>stale_timer_removes_next\<close>
    and \<open>stale_task_removes_next\<close> are runs in which they remove the next client.

  \<^bold>\<open>The proofs.\<close>
  \<^item> \<^verbatim>\<open>ReplyInv\<close>: what a reply buffer holds while a request is handled, so that the end of a labelled
    response does not panic and the label is in the answer.
  \<^item> \<^verbatim>\<open>ServerInv\<close>: the invariant \<open>server_inv\<close> of the tables, the rules of \<open>wp\<close> (whose flag says whether a
    panic is allowed), and the effect of the shared operations; \<^verbatim>\<open>QueriesInv\<close>, \<^verbatim>\<open>UsersInv\<close>,
    \<^verbatim>\<open>ChannelsInv\<close>: each handler keeps the invariant, does not panic on ASCII texts, and changes no
    client but its issuer, the operator's \<open>KILL\<close> excepted.
  \<^item> \<^verbatim>\<open>Transitions\<close>: the locales \<^verbatim>\<open>preserved\<close> (an invariant of a system of steps) and its extension
    \<^verbatim>\<open>refines\<close> (a system explained by an abstract one), interpreted for the server, the rate limiter
    and the bindings.
  \<^item> \<^verbatim>\<open>ServerSafe\<close>: a whole message; the step relation of the server and its reachable states.
  \<^item> \<^verbatim>\<open>Samples\<close>: a small server for the witnesses.
  \<^item> \<^verbatim>\<open>Promises\<close>: invariants, isolation of clients, credentials of operators, labelled answers;
    \<^verbatim>\<open>Delivery\<close>: who is sent what; \<^verbatim>\<open>Access\<close>: who may join, kick, change modes and see a channel.
  \<^item> \<^verbatim>\<open>World\<close>: the abstract specification - names, ranks in the channels, operators and credentials, and for
    each kind of message one guarded step - and the proof that the server refines it, one step for a message.
  \<^item> \<^verbatim>\<open>Times\<close>: what a message does to the times of the last actions; with \<^verbatim>\<open>Tasks\<close>, where no task panics on
    harmless lines and every client has a task that takes it out of the state, or has crashed, for two more interpretations of \<^verbatim>\<open>preserved\<close>.
  \<^item> \<^verbatim>\<open>WireText\<close>: texts without line breaks, and what the operations of the buffers write; \<^verbatim>\<open>WireState\<close>:
    the invariant \<open>tidy\<close> (every text of the state is clean, every item sent is whole lines) and the shared
    operations; \<^verbatim>\<open>WireQueries\<close>, \<^verbatim>\<open>WireUsers\<close>, \<^verbatim>\<open>WireChannels\<close>: each handler delivers whole lines; \<^verbatim>\<open>Wire\<close>:
    the same for the server with its readers and writers, as another interpretation of \<^verbatim>\<open>preserved\<close>.
  \<^item> \<^verbatim>\<open>Sessions\<close>: the two messages that register a client, from the connection to the greeting.
  \<^item> \<^verbatim>\<open>Conformance\<close>: the unit tests of the repository, replayed on the model.

  \<^bold>\<open>Bounds and fuel.\<close>  No definition uses fuel.  The loop of the reader ends because each round but the
  last consumes a piece of the buffer that is not empty, and the bound of the bytes kept gives four
  rounds at most (\<open>reader_bounded\<close>).  The loops over masks, tags, modes and names shrink their text.  The
  arithmetic of the rate limiter stays within 32 bits (\<open>rate_limiter_in_range\<close>).

  \<^bold>\<open>Hypotheses.\<close>  The absence of panics is proved for lines of ASCII characters, since the code does panic
  on others: it cuts texts at lengths that may lie within a character, and the matcher of masks steps by
  bytes (\<open>match_mask_panics\<close>).  The two requests with \<open>todo!()\<close> handlers are excluded there, and a \<open>WHOIS\<close>
  on a client whose last action is later than the clock (\<open>clock_ok\<close>); \<open>tasks_progress\<close> shows that this
  does not happen unless the clock is set back.  The interleaving of tasks relies on the slab: the
  key of a new client is vacant (\<open>vacancies\<close>).  Everything
  about results of a message (refinement, isolation, delivery) holds for all lines that are handled.
  What clients read is whole lines provided that the texts the server does not get from clients (its
  configuration, the clock, addresses and descriptions of errors) hold no line break; only the message
  of the day, which is sent line by line, may.

  \<^bold>\<open>Not modelled.\<close>  The sockets, TLS, signals, the scheduler of tokio and the logger are libraries: what
  the code asks of them is a parameter, and the order of the tasks is arbitrary.  So are serde, webpki,
  rustls, chrono, base64 and rand.  \<open>src/db.rs\<close> is not part of the program (it is not declared in
  \<open>main.rs\<close>, and its functions are \<open>todo!()\<close>); the \<open>Debug\<close> texts and the capacities of buffers carry no
  behaviour; accessors that return a field are the fields of the records.  A request that panics at once
  (\<open>todo!()\<close>, a clock set back) leaves the state as it is and its task crashed, with its client left in the
  tables (\<open>clients_have_tasks\<close>, \<open>crashed_forever\<close>).  After a panic that cuts a text within a character of
  several bytes nothing is said of the state: the model stops there, the code goes on with what the
  handler has done so far.
\<close>

end
